(* ===== verification/Prelude.thy ===== *)
theory Prelude
  imports Main
begin

text \<open>Shared vocabulary of the development.  A Python call that may raise returns
  a sum: \<open>Inl e\<close> is the raised exception, \<open>Inr x\<close> the returned value.
  A Python dict with insertion order is an association list written by \<open>dict_set\<close>.
  The file also holds the generic list facts (filters, sorted lists, takes) the components share,
  and the collections their proofs are driven by.\<close>

named_theorems result_simps "computation rules of the result monad"

section \<open>Results\<close>

type_synonym ('e, 'a) result = "'e + 'a"

definition bindR :: "'e + 'a \<Rightarrow> ('a \<Rightarrow> 'e + 'b) \<Rightarrow> 'e + 'b" where
  "bindR m f = (case m of Inl e \<Rightarrow> Inl e | Inr x \<Rightarrow> f x)"

definition guardR :: "bool \<Rightarrow> 'e \<Rightarrow> 'e + unit" where
  "guardR b e = (if b then Inr () else Inl e)"

lemma bindR_simps [simp, result_simps]:
  "bindR (Inl e) f = Inl e"
  "bindR (Inr x) f = f x"
  by (simp_all add: bindR_def)

lemma guardR_simps [simp, result_simps]:
  "guardR True e = Inr ()"
  "guardR False e = Inl e"
  by (simp_all add: guardR_def)

lemma bindR_InrE:
  assumes "bindR m f = Inr y"
  obtains x where "m = Inr x" "f x = Inr y"
  using assms by (cases m) auto

lemma bindR_Inr_iff: "bindR m f = Inr y \<longleftrightarrow> (\<exists>x. m = Inr x \<and> f x = Inr y)"
  by (cases m) auto

lemma bindR_Inl_iff: "bindR m f = Inl e \<longleftrightarrow> m = Inl e \<or> (\<exists>x. m = Inr x \<and> f x = Inl e)"
  by (cases m) auto

lemma guardR_Inr_iff [simp]: "guardR b e = Inr u \<longleftrightarrow> b"
  by (cases b) auto

lemma guardR_Inl_iff [simp]: "guardR b e = Inl e' \<longleftrightarrow> \<not> b \<and> e' = e"
  by (cases b) auto

section \<open>Insertion-ordered dictionaries\<close>

fun dict_set :: "'k \<Rightarrow> 'v \<Rightarrow> ('k \<times> 'v) list \<Rightarrow> ('k \<times> 'v) list" where
  "dict_set k v [] = [(k, v)]"
| "dict_set k v ((k', v') # d) = (if k' = k then (k, v) # d else (k', v') # dict_set k v d)"

definition dict_get :: "('k \<times> 'v) list \<Rightarrow> 'k \<Rightarrow> 'v \<Rightarrow> 'v" where
  "dict_get d k dflt = (case map_of d k of None \<Rightarrow> dflt | Some v \<Rightarrow> v)"

lemma map_of_dict_set [simp]: "map_of (dict_set k v d) = (map_of d)(k \<mapsto> v)"
  by (induction k v d rule: dict_set.induct) auto

lemma keys_dict_set: "fst ` set (dict_set k v d) = insert k (fst ` set d)"
  by (induction k v d rule: dict_set.induct) auto

lemma distinct_dict_set:
  "distinct (map fst d) \<Longrightarrow> distinct (map fst (dict_set k v d))"
  by (induction k v d rule: dict_set.induct) (auto simp: keys_dict_set)

lemma dict_get_set: "dict_get (dict_set k v d) k' dflt = (if k' = k then v else dict_get d k' dflt)"
  by (simp add: dict_get_def)

lemma dict_set_fresh: "k \<notin> fst ` set d \<Longrightarrow> dict_set k v d = d @ [(k, v)]"
  by (induction d) auto

text \<open>A loop that accumulates into a dict, entry by entry, for the elements that satisfy \<open>P\<close>.\<close>

definition dict_fold :: "('r \<Rightarrow> bool) \<Rightarrow> ('r \<Rightarrow> 'k) \<Rightarrow> ('v \<Rightarrow> 'r \<Rightarrow> 'v) \<Rightarrow> 'v \<Rightarrow> ('k \<times> 'v) list \<Rightarrow> 'r list \<Rightarrow> ('k \<times> 'v) list"
  where "dict_fold P k g z d rows =
     foldl (\<lambda>d r. if P r then dict_set (k r) (g (dict_get d (k r) z) r) d else d) d rows"

lemma dict_fold_get:
  "dict_get (dict_fold P k g z d rows) c z = foldl g (dict_get d c z) (filter (\<lambda>r. P r \<and> k r = c) rows)"
  unfolding dict_fold_def by (induction rows arbitrary: d) (auto simp: dict_get_set)

lemma dict_fold_keys:
  "fst ` set (dict_fold P k g z d rows) = k ` set (filter P rows) \<union> fst ` set d"
  unfolding dict_fold_def by (induction rows arbitrary: d) (auto simp: keys_dict_set)

lemma dict_fold_distinct:
  "distinct (map fst d) \<Longrightarrow> distinct (map fst (dict_fold P k g z d rows))"
  unfolding dict_fold_def by (induction rows arbitrary: d) (auto simp: distinct_dict_set)

lemma dict_get_mem: "distinct (map fst d) \<Longrightarrow> (c, v) \<in> set d \<Longrightarrow> dict_get d c z = v"
  by (simp add: dict_get_def)

lemma dict_get_Nil [simp]: "dict_get [] c z = z"
  by (simp add: dict_get_def)

lemma dict_entries:
  assumes "distinct (map fst d)"
  shows "d = map (\<lambda>c. (c, dict_get d c z)) (map fst d)"
  using dict_get_mem [OF assms] by (auto intro!: map_idI [symmetric])

section \<open>Lists\<close>

lemma set_takeD: "x \<in> set (take n xs) \<Longrightarrow> x \<in> set xs"
  by (rule in_set_takeD)

lemma filter_length_le_imp: "(\<And>x. x \<in> set xs \<Longrightarrow> P x \<Longrightarrow> Q x) \<Longrightarrow>
  length (filter P xs) \<le> length (filter Q xs)"
  by (induction xs) (auto simp: le_Suc_eq)

lemma foldl_invariant:
  assumes "P s" and "\<And>s x. x \<in> set xs \<Longrightarrow> P s \<Longrightarrow> P (f s x)"
  shows "P (foldl f s xs)"
  using assms by (induction xs arbitrary: s) auto

lemma map_upd_same_key:
  "(\<And>x. x \<in> set xs \<Longrightarrow> key (f x) = key x) \<Longrightarrow> map key (map f xs) = map key xs"
  by simp

text \<open>A row of a table is rewritten in place by its key.\<close>

definition upsert :: "('r \<Rightarrow> 'k) \<Rightarrow> 'r \<Rightarrow> 'r list \<Rightarrow> 'r list" where
  "upsert key r rs = (if key r \<in> key ` set rs then map (\<lambda>x. if key x = key r then r else x) rs
                      else rs @ [r])"

lemma upsert_distinct: "distinct (map key rs) \<Longrightarrow> distinct (map key (upsert key r rs))"
proof (cases "key r \<in> key ` set rs")
  case True
  assume "distinct (map key rs)"
  moreover have "map key (upsert key r rs) = map key rs"
    using True by (auto simp: upsert_def)
  ultimately show ?thesis by simp
qed (auto simp: upsert_def)

lemma upsert_mem: "r \<in> set (upsert key r rs)"
  by (auto simp: upsert_def image_iff)

lemma upsert_other: "key x \<noteq> key r \<Longrightarrow> x \<in> set (upsert key r rs) \<longleftrightarrow> x \<in> set rs"
  by (auto simp: upsert_def image_iff)

lemma upsert_same: "x \<in> set (upsert key r rs) \<Longrightarrow> key x = key r \<Longrightarrow> x = r"
  by (auto simp: upsert_def image_iff split: if_splits)

lemma upsert_keys: "key ` set (upsert key r rs) = insert (key r) (key ` set rs)"
  by (auto simp: upsert_def image_iff)

lemma upsert_old: "key r \<in> key ` set rs \<Longrightarrow> upsert key r rs = map (\<lambda>x. if key x = key r then r else x) rs"
  by (simp add: upsert_def)

lemma upsert_new: "key r \<notin> key ` set rs \<Longrightarrow> upsert key r rs = rs @ [r]"
  by (simp add: upsert_def)

lemma upsert_twice:
  assumes "key q = key r"
  shows "upsert key r (upsert key q rs) = upsert key r rs"
proof -
  have mem: "key r \<in> key ` set (upsert key q rs)" using assms by (simp add: upsert_keys)
  show ?thesis
  proof (cases "key r \<in> key ` set rs")
    case True
    then have "upsert key q rs = map (\<lambda>x. if key x = key r then q else x) rs"
      using assms by (simp add: upsert_old)
    then show ?thesis using True assms
      unfolding upsert_old [OF mem] by (simp add: upsert_old)
  next
    case False
    moreover from this have "map (\<lambda>x. if key x = key r then r else x) rs = rs"
      by (intro map_idI) (metis image_eqI)
    ultimately show ?thesis using assms
      unfolding upsert_old [OF mem] by (simp add: upsert_new)
  qed
qed

lemma upsert_commute:
  assumes "key r \<noteq> key q" "key r \<in> key ` set rs"
  shows "upsert key r (upsert key q rs) = upsert key q (upsert key r rs)"
proof -
  have r: "key r \<in> key ` set (upsert key q rs)" using assms(2) by (simp add: upsert_keys)
  have q: "key q \<in> key ` set (upsert key r rs) \<longleftrightarrow> key q \<in> key ` set rs"
    using assms(1) by (simp add: upsert_keys)
  show ?thesis
  proof (cases "key q \<in> key ` set rs")
    case True
    then show ?thesis
      unfolding upsert_old [OF r] using q upsert_old [of key q "upsert key r rs"]
      by (simp add: upsert_old assms(2)) (use assms(1) in auto)
  next
    case False
    then show ?thesis
      unfolding upsert_old [OF r] using q upsert_new [of key q "upsert key r rs"] assms
      by (simp add: upsert_new upsert_old)
  qed
qed

lemma fold_upsert_keys: "key ` set (fold (upsert key) os rs) = key ` set os \<union> key ` set rs"
  by (induction os arbitrary: rs) (auto simp: upsert_keys)

lemma fold_upsert_distinct:
  "distinct (map key rs) \<Longrightarrow> distinct (map key (fold (upsert key) os rs))"
  by (induction os arbitrary: rs) (auto simp: upsert_distinct)

lemma fold_upsert_other:
  "key x \<notin> key ` set os \<Longrightarrow> x \<in> set (fold (upsert key) os rs) \<longleftrightarrow> x \<in> set rs"
  by (induction os arbitrary: rs) (auto simp: upsert_other)

lemma fold_upsert_object:
  "distinct (map key os) \<Longrightarrow> q \<in> set os \<Longrightarrow> x \<in> set (fold (upsert key) os rs) \<Longrightarrow>
     key x = key q \<Longrightarrow> x = q"
proof (induction os arbitrary: rs)
  case (Cons a os)
  show ?case
  proof (cases "q = a")
    case True
    then have "key x \<notin> key ` set os" using Cons.prems by auto
    then have "x \<in> set (upsert key a rs)" using Cons.prems(3) by (simp add: fold_upsert_other)
    then show ?thesis using upsert_same Cons.prems(4) True by metis
  next
    case False
    then show ?thesis using Cons.IH [of "upsert key a rs"] Cons.prems by auto
  qed
qed simp

lemma fold_upsert_past:
  "key r \<in> key ` set rs \<Longrightarrow> key r \<notin> key ` set os \<Longrightarrow>
     fold (upsert key) os (upsert key r rs) = upsert key r (fold (upsert key) os rs)"
proof (induction os arbitrary: rs)
  case (Cons a os)
  then have "upsert key a (upsert key r rs) = upsert key r (upsert key a rs)"
    using upsert_commute [of key r a rs] by auto
  then show ?case using Cons by (simp add: upsert_keys)
qed simp

lemma fold_upsert_upsert:
  "distinct (map key os) \<Longrightarrow>
     fold (upsert key) (upsert key r os) rs = upsert key r (fold (upsert key) os rs)"
proof (cases "key r \<in> key ` set os")
  case True
  assume d: "distinct (map key os)"
  have "fold (upsert key) (map (\<lambda>x. if key x = key r then r else x) os) rs =
      upsert key r (fold (upsert key) os rs)"
    using True d
  proof (induction os arbitrary: rs)
    case (Cons a os)
    show ?case
    proof (cases "key a = key r")
      case True
      then have n: "key r \<notin> key ` set os" using Cons.prems by auto
      then have "map (\<lambda>x. if key x = key r then r else x) os = os"
        by (auto simp: image_iff intro!: map_idI)
      then show ?thesis
        using True n fold_upsert_past [of key r "upsert key a rs" os] upsert_twice [of key a r rs]
        by (simp add: upsert_keys)
    qed (use Cons in auto)
  qed simp
  then show ?thesis using True by (simp add: upsert_def [of key r os])
qed (simp add: upsert_def [of key r os])

definition find_by :: "('r \<Rightarrow> bool) \<Rightarrow> 'r list \<Rightarrow> 'r option" where
  "find_by P rs = (case filter P rs of [] \<Rightarrow> None | r # _ \<Rightarrow> Some r)"

lemma find_by_Some: "find_by P rs = Some r \<Longrightarrow> r \<in> set rs \<and> P r"
  unfolding find_by_def by (auto split: list.splits dest: filter_eq_ConsD)

lemma find_by_None: "find_by P rs = None \<longleftrightarrow> (\<forall>r\<in>set rs. \<not> P r)"
  unfolding find_by_def by (auto split: list.splits simp: filter_empty_conv dest: filter_eq_ConsD)

lemma find_by_simps [simp]:
  "find_by P [] = None"
  "find_by P (r # rs) = (if P r then Some r else find_by P rs)"
  by (simp_all add: find_by_def)

end
