(* ===== verification/PyStr.thy ===== *)
theory PyStr
  imports Prelude
begin

text \<open>The Python string operations the code uses, on strings of 8-bit characters (case conversion on the
  ASCII letters only): \<open>strip\<close>, \<open>upper\<close>, \<open>lower\<close>,
  decimal digits and \<open>str\<close> of an integer, with the facts that printing and reading a number are
  inverse.\<close>

definition is_space :: "char \<Rightarrow> bool" where
  "is_space c = (let n = (of_char c :: nat) in n = 32 \<or> 9 \<le> n \<and> n \<le> 13 \<or> 28 \<le> n \<and> n \<le> 31 \<or> n = 133 \<or> n = 160)"

definition strip :: "string \<Rightarrow> string" where
  "strip s = rev (dropWhile is_space (rev (dropWhile is_space s)))"

definition upper_char :: "char \<Rightarrow> char" where
  "upper_char c = (let n = (of_char c :: nat) in if 97 \<le> n \<and> n \<le> 122 then char_of (n - 32) else c)"

definition lower_char :: "char \<Rightarrow> char" where
  "lower_char c = (let n = (of_char c :: nat) in if 65 \<le> n \<and> n \<le> 90 then char_of (n + 32) else c)"

definition upper :: "string \<Rightarrow> string" where
  "upper = map upper_char"

definition lower :: "string \<Rightarrow> string" where
  "lower = map lower_char"

definition is_digit :: "char \<Rightarrow> bool" where
  "is_digit c = (let n = (of_char c :: nat) in 48 \<le> n \<and> n \<le> 57)"

definition digit_val :: "char \<Rightarrow> nat" where
  "digit_val c = of_char c - 48"

definition digit_char :: "nat \<Rightarrow> char" where
  "digit_char n = char_of (48 + n)"

definition digits_val :: "string \<Rightarrow> nat" where
  "digits_val s = foldl (\<lambda>a c. a * 10 + digit_val c) 0 s"

fun nat_str :: "nat \<Rightarrow> string" where
  "nat_str n = (if n < 10 then [digit_char n] else nat_str (n div 10) @ [digit_char (n mod 10)])"

declare nat_str.simps [simp del]

definition int_str :: "int \<Rightarrow> string" where
  "int_str n = (if n < 0 then CHR ''-'' # nat_str (nat (- n)) else nat_str (nat n))"

section \<open>Characters\<close>

lemma digit_char_simps [simp]:
  assumes "n < 10"
  shows "is_digit (digit_char n)" "digit_val (digit_char n) = n"
  using assms by (simp_all add: is_digit_def digit_char_def digit_val_def Let_def)

lemma of_char_upper:
  "(of_char (upper_char c) :: nat) =
     (if 97 \<le> (of_char c :: nat) \<and> (of_char c :: nat) \<le> 122 then of_char c - 32 else of_char c)"
  by (auto simp: upper_char_def Let_def)

lemma of_char_lower:
  "(of_char (lower_char c) :: nat) =
     (if 65 \<le> (of_char c :: nat) \<and> (of_char c :: nat) \<le> 90 then of_char c + 32 else of_char c)"
  by (auto simp: lower_char_def Let_def)

lemma upper_char_idem [simp]: "upper_char (upper_char c) = upper_char c"
  by (rule of_char_eq_iff [where 'a = nat, THEN iffD1], subst of_char_upper) (auto simp: of_char_upper)

lemma lower_char_idem [simp]: "lower_char (lower_char c) = lower_char c"
  by (rule of_char_eq_iff [where 'a = nat, THEN iffD1], subst of_char_lower) (auto simp: of_char_lower)

lemma is_space_upper [simp]: "is_space (upper_char c) = is_space c"
  by (auto simp: is_space_def of_char_upper Let_def)

lemma is_space_lower [simp]: "is_space (lower_char c) = is_space c"
  by (auto simp: is_space_def of_char_lower Let_def)

lemma upper_idem [simp]: "upper (upper s) = upper s"
  by (simp add: upper_def)

lemma lower_idem [simp]: "lower (lower s) = lower s"
  by (simp add: lower_def)

section \<open>Strip\<close>

lemma dropWhile_map_same: "(\<And>c. P (f c) = P c) \<Longrightarrow> dropWhile P (map f s) = map f (dropWhile P s)"
  by (induction s) auto

lemma strip_upper: "strip (upper s) = upper (strip s)"
  by (simp add: strip_def upper_def dropWhile_map_same rev_map)

lemma strip_lower: "strip (lower s) = lower (strip s)"
  by (simp add: strip_def lower_def dropWhile_map_same rev_map)

lemma dropWhile_hd_fixed: "s = [] \<or> \<not> P (hd s) \<Longrightarrow> dropWhile P s = s"
  by (cases s) auto

lemma dropWhile_hd: "dropWhile P s = [] \<or> \<not> P (hd (dropWhile P s))"
  by (induction s) auto

lemma strip_fixed:
  assumes "s = [] \<or> \<not> is_space (hd s) \<and> \<not> is_space (last s)"
  shows "strip s = s"
proof -
  have "dropWhile is_space s = s" using assms by (intro dropWhile_hd_fixed) auto
  moreover have "dropWhile is_space (rev s) = rev s"
    using assms by (intro dropWhile_hd_fixed) (auto simp: hd_rev)
  ultimately show ?thesis by (simp add: strip_def)
qed

lemma dropWhile_last: "dropWhile P s \<noteq> [] \<Longrightarrow> last (dropWhile P s) = last s"
  by (induction s) (auto split: if_splits)

lemma strip_ends:
  "strip s = [] \<or> \<not> is_space (hd (strip s)) \<and> \<not> is_space (last (strip s))"
proof (cases "strip s = []")
  case False
  define t where "t = dropWhile is_space s"
  define u where "u = dropWhile is_space (rev t)"
  have u: "u \<noteq> []" "strip s = rev u" using False by (simp_all add: strip_def u_def t_def)
  then have "t \<noteq> []" by (auto simp: u_def)
  have "\<not> is_space (hd u)" using dropWhile_hd [of is_space "rev t", folded u_def] u(1) by blast
  moreover have "last u = hd t"
    using dropWhile_last [of is_space "rev t"] u(1) \<open>t \<noteq> []\<close> by (simp add: u_def last_rev)
  moreover have "\<not> is_space (hd t)"
    using dropWhile_hd [of is_space s, folded t_def] \<open>t \<noteq> []\<close> by blast
  ultimately show ?thesis using u by (simp add: hd_rev last_rev)
qed simp

lemma strip_idem [simp]: "strip (strip s) = strip s"
  by (rule strip_fixed [OF strip_ends])

section \<open>Numbers\<close>

lemma nat_str_digits: "c \<in> set (nat_str n) \<Longrightarrow> is_digit c"
  by (induction n rule: nat_str.induct) (subst (asm) (2) nat_str.simps, auto split: if_splits)

lemma nat_str_nonempty [simp]: "nat_str n \<noteq> []"
  by (subst nat_str.simps) simp

lemma digits_val_append: "digits_val (s @ t) = digits_val s * 10 ^ length t + digits_val t"
proof (induction t rule: rev_induct)
  case (snoc c t)
  then show ?case by (simp add: digits_val_def algebra_simps flip: append_assoc)
qed (simp add: digits_val_def)

lemma digits_val_simps [simp]: "digits_val [] = 0" "digits_val [c] = digit_val c"
  by (simp_all add: digits_val_def)

lemma digits_val_zeros: "digits_val (replicate n (CHR ''0'')) = 0"
proof (induction n)
  case (Suc n)
  have "replicate (Suc n) (CHR ''0'') = [CHR ''0''] @ replicate n (CHR ''0'')" by simp
  then show ?case using Suc by (simp only: digits_val_append) (simp add: digit_val_def)
qed simp

lemma digits_val_nat_str [simp]: "digits_val (nat_str n) = n"
proof (induction n rule: nat_str.induct)
  case (1 n)
  then show ?case
    by (subst nat_str.simps) (auto simp: digits_val_append digit_char_simps)
qed

lemma all_digits_nat_str [simp]: "list_all is_digit (nat_str n)"
  by (simp add: list_all_iff nat_str_digits)

section \<open>UUIDs\<close>

text \<open>\<open>str(uuid)\<close> prints 32 lower-case hexadecimal digits in groups of 8, 4, 4, 4 and 12;
  \<open>UUID(s)\<close> drops the dashes and reads 32 hexadecimal digits back, and \<open>None\<close> is its
  \<open>ValueError\<close>.\<close>

definition hex_char :: "nat \<Rightarrow> char" where
  "hex_char n = (if n < 10 then digit_char n else char_of (87 + n))"

definition hex_digit :: "char \<Rightarrow> nat option" where
  "hex_digit c = (let n = (of_char c :: nat) in
     if 48 \<le> n \<and> n \<le> 57 then Some (n - 48)
     else if 97 \<le> n \<and> n \<le> 102 then Some (n - 87)
     else if 65 \<le> n \<and> n \<le> 70 then Some (n - 55) else None)"

fun hex_fixed :: "nat \<Rightarrow> nat \<Rightarrow> string" where
  "hex_fixed 0 n = []"
| "hex_fixed (Suc k) n = hex_fixed k (n div 16) @ [hex_char (n mod 16)]"

fun hex_val :: "nat \<Rightarrow> string \<Rightarrow> nat option" where
  "hex_val acc [] = Some acc"
| "hex_val acc (c # s) = (case hex_digit c of None \<Rightarrow> None | Some d \<Rightarrow> hex_val (acc * 16 + d) s)"

definition uuid_str :: "nat \<Rightarrow> string" where
  "uuid_str u = (let h = hex_fixed 32 u in
     take 8 h @ ''-'' @ take 4 (drop 8 h) @ ''-'' @ take 4 (drop 12 h) @ ''-'' @
     take 4 (drop 16 h) @ ''-'' @ drop 20 h)"

definition parse_uuid :: "string \<Rightarrow> nat option" where
  "parse_uuid s = (let h = filter (\<lambda>c. c \<noteq> CHR ''-'') s in
     if length h = 32 then hex_val 0 h else None)"

lemma hex_digit_char: "n < 16 \<Longrightarrow> hex_digit (hex_char n) = Some n"
  by (auto simp: hex_digit_def hex_char_def digit_char_def Let_def)

lemma hex_char_not_dash: "n < 16 \<Longrightarrow> hex_char n \<noteq> CHR ''-''"
  using hex_digit_char [of n] by (auto simp: hex_digit_def Let_def)

lemma length_hex_fixed [simp]: "length (hex_fixed k n) = k"
  by (induction k arbitrary: n) auto

lemma hex_fixed_no_dash: "CHR ''-'' \<notin> set (hex_fixed k n)"
  by (induction k arbitrary: n) (auto simp: hex_char_not_dash [THEN not_sym] dest: sym)

lemma hex_val_append:
  "hex_val a (s @ t) = (case hex_val a s of None \<Rightarrow> None | Some b \<Rightarrow> hex_val b t)"
  by (induction a s rule: hex_val.induct) (auto split: option.splits)

lemma hex_val_fixed: "hex_val a (hex_fixed k n) = Some (a * 16 ^ k + n mod 16 ^ k)"
proof (induction k arbitrary: n)
  case (Suc k)
  have "n div 16 mod 16 ^ k * 16 + n mod 16 = n mod 16 ^ Suc k"
    by (simp add: mod_mult2_eq [of n 16 "16 ^ k"] algebra_simps)
  then show ?case
    using Suc [of "n div 16"] by (simp add: hex_val_append hex_digit_char algebra_simps)
qed simp

lemma parse_uuid_str:
  assumes "u < 2 ^ 128"
  shows "parse_uuid (uuid_str u) = Some u"
proof -
  define h where "h = hex_fixed 32 u"
  have nd: "filter (\<lambda>c. c \<noteq> CHR ''-'') (take i (drop j h)) = take i (drop j h)" for i j
    using hex_fixed_no_dash [of 32 u]
    by (auto simp: h_def filter_id_conv dest!: in_set_takeD in_set_dropD)
  have nd': "filter (\<lambda>c. c \<noteq> CHR ''-'') (take 8 h) = take 8 h"
    "filter (\<lambda>c. c \<noteq> CHR ''-'') (drop 20 h) = drop 20 h"
    using nd [of 8 0] nd [of "length h" 20] by simp_all
  have "h = take 8 h @ take 4 (drop 8 h) @ take 4 (drop 12 h) @ take 4 (drop 16 h) @ drop 20 h"
    using append_take_drop_id [of 8 h] append_take_drop_id [of 4 "drop 8 h"]
      append_take_drop_id [of 4 "drop 12 h"] append_take_drop_id [of 4 "drop 16 h"] by simp
  then have "filter (\<lambda>c. c \<noteq> CHR ''-'') (uuid_str u) = h"
    unfolding uuid_str_def Let_def h_def [symmetric] by (simp only: filter_append nd nd') simp
  moreover have "(16::nat) ^ 32 = 2 ^ 128" by simp
  ultimately show ?thesis
    using hex_val_fixed [of 0 32 u] assms by (simp add: parse_uuid_def h_def [symmetric] Let_def)
      (simp add: h_def)
qed

lemma length_uuid_str: "length (uuid_str u) = 36"
  by (simp add: uuid_str_def Let_def)

lemma uuid_str_inj:
  assumes "a < 2 ^ 128" "b < 2 ^ 128" "uuid_str a = uuid_str b"
  shows "a = b"
proof -
  have "Some a = parse_uuid (uuid_str a)" by (rule parse_uuid_str [OF assms(1), symmetric])
  also have "\<dots> = Some b" unfolding assms(3) by (rule parse_uuid_str [OF assms(2)])
  finally show ?thesis by (rule option.inject [THEN iffD1])
qed

end
