(* ===== verification/PyDecimal.thy ===== *)
theory PyDecimal
  imports PyStr Complex_Main
begin

text \<open>Python's \<open>decimal.Decimal\<close> as far as the code uses it: a finite number is a sign, a
  coefficient and an exponent; construction from a string and \<open>str\<close> (which are inverse), the
  numeric value, comparison, and \<open>normalize\<close>, which first rounds to the default context (28
  digits, half to even) and then strips trailing zeros.\<close>

datatype decimal =
    Dec (dec_neg: bool) (dec_coeff: nat) (dec_exp: int)
  | Infinite bool
  | NotANumber

fun is_finite :: "decimal \<Rightarrow> bool" where
  "is_finite (Dec _ _ _) = True"
| "is_finite _ = False"

definition pow10 :: "int \<Rightarrow> rat" where
  "pow10 e = (if 0 \<le> e then 10 ^ nat e else 1 / 10 ^ nat (- e))"

definition dec_val :: "decimal \<Rightarrow> rat" where
  "dec_val d = (case d of
       Dec s c e \<Rightarrow> (if s then - 1 else 1) * of_nat c * pow10 e
     | _ \<Rightarrow> 0)"

section \<open>Decimal(str) and str(Decimal)\<close>

definition split_sign :: "string \<Rightarrow> bool \<times> string" where
  "split_sign s = (if s \<noteq> [] \<and> hd s = CHR ''+'' then (False, tl s)
     else if s \<noteq> [] \<and> hd s = CHR ''-'' then (True, tl s) else (False, s))"

definition parse_exponent :: "string \<Rightarrow> int option" where
  "parse_exponent s =
     (case s of
        [] \<Rightarrow> Some 0
      | c # r \<Rightarrow>
          if c = CHR ''E'' \<or> c = CHR ''e'' then
            (let (neg, ds) = split_sign r
             in if ds \<noteq> [] \<and> list_all is_digit ds
                then Some (if neg then - int (digits_val ds) else int (digits_val ds)) else None)
          else None)"

definition parse_body :: "bool \<Rightarrow> string \<Rightarrow> decimal option" where
  "parse_body neg s =
     (let ip = takeWhile is_digit s; rest = dropWhile is_digit s;
          (fp, tail) = (if rest \<noteq> [] \<and> hd rest = CHR ''.''
              then (takeWhile is_digit (tl rest), dropWhile is_digit (tl rest)) else ([], rest))
      in if ip = [] \<and> fp = [] then
           (let w = lower s
            in if w = ''inf'' \<or> w = ''infinity'' then Some (Infinite neg)
               else if take 3 w = ''nan'' \<and> list_all is_digit (drop 3 w)
                       \<or> take 4 w = ''snan'' \<and> list_all is_digit (drop 4 w)
                    then Some NotANumber else None)
         else (case parse_exponent tail of
                 None \<Rightarrow> None
               | Some e \<Rightarrow> Some (Dec neg (digits_val (ip @ fp)) (e - int (length fp)))))"

definition parse_decimal :: "string \<Rightarrow> decimal option" where
  "parse_decimal raw =
     (let (neg, body) = split_sign (filter (\<lambda>c. c \<noteq> CHR ''_'') (strip raw))
      in parse_body neg body)"

definition dec_body_str :: "nat \<Rightarrow> int \<Rightarrow> string" where
  "dec_body_str c e =
     (let ds = nat_str c; len = int (length ds); leftdigits = e + len;
          dotplace = (if e \<le> 0 \<and> leftdigits > - 6 then leftdigits else 1);
          intpart = (if dotplace \<le> 0 then ''0''
                     else if dotplace \<ge> len then ds @ replicate (nat (dotplace - len)) (CHR ''0'')
                     else take (nat dotplace) ds);
          fracpart = (if dotplace \<le> 0 then CHR ''.'' # replicate (nat (- dotplace)) (CHR ''0'') @ ds
                      else if dotplace \<ge> len then []
                      else CHR ''.'' # drop (nat dotplace) ds);
          expo = (if leftdigits = dotplace then []
                  else CHR ''E'' # (if leftdigits - dotplace < 0 then [] else ''+'')
                         @ int_str (leftdigits - dotplace))
      in intpart @ fracpart @ expo)"

fun dec_str :: "decimal \<Rightarrow> string" where
  "dec_str (Dec s c e) = (if s then ''-'' else []) @ dec_body_str c e"
| "dec_str (Infinite s) = (if s then ''-'' else []) @ ''Infinity''"
| "dec_str NotANumber = ''NaN''"

lemma not_digit_chars [simp]:
  "\<not> is_digit (CHR ''.'')" "\<not> is_digit (CHR ''E'')" "is_digit (CHR ''0'')"
  "\<not> is_digit (CHR ''-'')" "\<not> is_digit (CHR ''+'')" "\<not> is_digit (CHR ''_'')"
  by (simp_all add: is_digit_def Let_def)

lemma parse_exponent_print [simp]:
  "parse_exponent (CHR ''E'' # (if x < 0 then [] else ''+'') @ int_str x) = Some x"
proof -
  have "split_sign (nat_str n) = (False, nat_str n)" for n
  proof -
    have "is_digit (hd (nat_str n))" using nat_str_digits [of "hd (nat_str n)" n] by simp
    then show ?thesis by (auto simp: split_sign_def)
  qed
  moreover have "split_sign (CHR ''-'' # r) = (True, r)" "split_sign (CHR ''+'' # r) = (False, r)" for r
    by (simp_all add: split_sign_def)
  ultimately show ?thesis
    by (simp add: parse_exponent_def int_str_def list_all_iff nat_str_digits)
qed

lemma takeWhile_digits:
  assumes "list_all is_digit ds" "rest = [] \<or> \<not> is_digit (hd rest)"
  shows "takeWhile is_digit (ds @ rest) = ds" "dropWhile is_digit (ds @ rest) = rest"
  using assms by (cases rest; auto simp: list_all_iff takeWhile_append2 dropWhile_append2)+

text \<open>The printed form is digits, an optional fraction and an optional exponent, and the parser
  reads it back.\<close>

lemma parse_body_shape:
  assumes "list_all is_digit ip" "ip \<noteq> []" "list_all is_digit fp"
    and "tail = [] \<or> hd tail = CHR ''E''" "parse_exponent tail = Some x"
  shows "parse_body neg (ip @ (if fp = [] then [] else CHR ''.'' # fp) @ tail) =
    Some (Dec neg (digits_val (ip @ fp)) (x - int (length fp)))"
proof (cases "fp = []")
  case True
  have "takeWhile is_digit (ip @ tail) = ip" "dropWhile is_digit (ip @ tail) = tail"
    using assms takeWhile_digits [of ip tail] by auto
  moreover have "\<not> (tail \<noteq> [] \<and> hd tail = CHR ''.'')"
    using assms(4) by auto
  ultimately show ?thesis using True assms by (auto simp: parse_body_def Let_def)
next
  case False
  have "takeWhile is_digit (ip @ CHR ''.'' # fp @ tail) = ip"
    "dropWhile is_digit (ip @ CHR ''.'' # fp @ tail) = CHR ''.'' # fp @ tail"
    using assms takeWhile_digits [of ip "CHR ''.'' # fp @ tail"] by auto
  moreover have "takeWhile is_digit (fp @ tail) = fp" "dropWhile is_digit (fp @ tail) = tail"
    using assms takeWhile_digits [of fp tail] by auto
  ultimately show ?thesis using False assms by (simp add: parse_body_def Let_def)
qed

definition number_char :: "char \<Rightarrow> bool" where
  "number_char c = (is_digit c \<or> c = CHR ''.'' \<or> c = CHR ''E'' \<or> c = CHR ''+'' \<or> c = CHR ''-'')"

lemma number_char_props: "number_char c \<Longrightarrow> \<not> is_space c \<and> c \<noteq> CHR ''_''"
  by (auto simp: number_char_def is_space_def is_digit_def Let_def)

lemma dec_body_str_shape:
  obtains ip fp tail x where "dec_body_str c e = ip @ (if fp = [] then [] else CHR ''.'' # fp) @ tail"
    "list_all is_digit ip" "ip \<noteq> []" "list_all is_digit fp" "tail = [] \<or> hd tail = CHR ''E''"
    "parse_exponent tail = Some x" "digits_val (ip @ fp) = c" "x - int (length fp) = e"
    "list_all number_char tail"
proof -
  define ds where "ds = nat_str c"
  define len where "len = int (length ds)"
  define ld where "ld = e + len"
  define dp where "dp = (if e \<le> 0 \<and> ld > - 6 then ld else 1)"
  define tail where "tail = (if ld = dp then [] else CHR ''E'' # (if ld - dp < 0 then [] else ''+'')
    @ int_str (ld - dp))"
  have ds: "list_all is_digit ds" "ds \<noteq> []" "digits_val ds = c" by (simp_all add: ds_def)
  then have len: "1 \<le> len" by (cases ds) (simp_all add: len_def)
  have tail: "tail = [] \<or> hd tail = CHR ''E''" "parse_exponent tail = Some (ld - dp)"
    using parse_exponent_print [of "ld - dp"] by (simp_all add: tail_def parse_exponent_def)
  have tail_chars: "list_all number_char tail"
    by (auto simp: tail_def list_all_iff number_char_def int_str_def nat_str_digits)
  have zeros: "list_all is_digit (replicate n (CHR ''0''))" for n
    by (simp add: list_all_iff)
  have body: "dec_body_str c e =
      (if dp \<le> 0 then ''0'' else if dp \<ge> len then ds @ replicate (nat (dp - len)) (CHR ''0'')
         else take (nat dp) ds) @
      (if dp \<le> 0 then CHR ''.'' # replicate (nat (- dp)) (CHR ''0'') @ ds
         else if dp \<ge> len then [] else CHR ''.'' # drop (nat dp) ds) @ tail"
    unfolding dec_body_str_def Let_def ds_def [symmetric] len_def [symmetric] ld_def [symmetric]
      dp_def [symmetric] tail_def ..
  consider "dp \<le> 0" | "0 < dp" "len \<le> dp" | "0 < dp" "dp < len" by linarith
  then show thesis
  proof cases
    case 1
    then have "dp = ld" by (simp add: dp_def split: if_splits)
    let ?fp = "replicate (nat (- dp)) (CHR ''0'') @ ds"
    show ?thesis
    proof (rule that [of "''0''" ?fp tail "ld - dp"])
      show "digits_val (''0'' @ ?fp) = c"
        using ds(3) by (simp only: digits_val_append) (simp add: digits_val_zeros digit_val_def)
      show "dec_body_str c e = ''0'' @ (if ?fp = [] then [] else CHR ''.'' # ?fp) @ tail"
        using body 1 ds(2) by simp
      show "ld - dp - int (length ?fp) = e"
        using 1 \<open>dp = ld\<close> by (simp add: ld_def len_def)
      show "list_all is_digit ?fp" using ds(1) zeros by simp
    qed (use tail tail_chars in simp_all)
  next
    case 2
    then have dp: "dp = len" using len by (auto simp: dp_def ld_def split: if_splits)
    show ?thesis
      by (rule that [of ds "[]" tail "ld - dp"])
        (use 2 ds tail tail_chars body dp in \<open>simp_all add: ld_def\<close>)
  next
    case 3
    let ?ip = "take (nat dp) ds" and ?fp = "drop (nat dp) ds"
    have "nat dp < length ds" "int (length ?fp) = len - dp" using 3 by (simp_all add: len_def)
    moreover have "list_all is_digit ?ip" "list_all is_digit ?fp"
      using ds(1) by (auto simp: list_all_iff dest: in_set_takeD in_set_dropD)
    moreover have "?ip \<noteq> []" using 3 ds(2) by simp
    ultimately show ?thesis
      by (intro that [of ?ip ?fp tail "ld - dp"])
        (use 3 ds tail tail_chars body in \<open>simp_all add: ld_def\<close>)
  qed
qed

lemma parse_dec_str [simp]: "parse_decimal (dec_str (Dec s c e)) = Some (Dec s c e)"
proof -
  obtain ip fp tail x where b: "dec_body_str c e = ip @ (if fp = [] then [] else CHR ''.'' # fp) @ tail"
    "list_all is_digit ip" "ip \<noteq> []" "list_all is_digit fp" "tail = [] \<or> hd tail = CHR ''E''"
    "parse_exponent tail = Some x" "digits_val (ip @ fp) = c" "x - int (length fp) = e"
    "list_all number_char tail"
    by (rule dec_body_str_shape)
  have body: "parse_body neg (dec_body_str c e) = Some (Dec neg c e)" for neg
    unfolding b(1) using parse_body_shape [OF b(2-6), of neg] b(7,8) by simp
  have "is_digit (hd (dec_body_str c e))" "dec_body_str c e \<noteq> []"
    using b(1-3) by (cases ip; simp add: list_all_iff)+
  then have sign: "split_sign (dec_str (Dec s c e)) = (s, dec_body_str c e)"
    by (auto simp: split_sign_def)
  have "\<forall>ch\<in>set (dec_str (Dec s c e)). number_char ch"
    using b(2,4,9) by (auto simp: b(1) list_all_iff number_char_def)
  then have chars: "\<forall>ch\<in>set (dec_str (Dec s c e)). \<not> is_space ch \<and> ch \<noteq> CHR ''_''"
    using number_char_props by blast
  then have "strip (dec_str (Dec s c e)) = dec_str (Dec s c e)"
    by (intro strip_fixed) (use hd_in_set last_in_set in blast)
  moreover have "filter (\<lambda>c. c \<noteq> CHR ''_'') (dec_str (Dec s c e)) = dec_str (Dec s c e)"
    using chars by (simp only: filter_id_conv) blast
  ultimately show ?thesis
    by (simp only: parse_decimal_def sign Let_def prod.case body)
qed

section \<open>normalize\<close>

definition dec_prec :: int where "dec_prec = 28"
definition dec_emax :: int where "dec_emax = 999999"
definition dec_emin :: int where "dec_emin = - 999999"

definition round_half_even :: "nat \<Rightarrow> nat \<Rightarrow> nat" where
  "round_half_even c k =
     (let p = 10 ^ k; q = c div p; r = c mod p
      in if 2 * r > p \<or> 2 * r = p \<and> odd q then q + 1 else q)"

text \<open>Rounding into the default context; \<open>None\<close> is \<open>decimal.Overflow\<close>.\<close>

definition dec_fix :: "bool \<Rightarrow> nat \<Rightarrow> int \<Rightarrow> (nat \<times> int) option" where
  "dec_fix s c e =
     (let etiny = dec_emin - dec_prec + 1; etop = dec_emax - dec_prec + 1
      in if c = 0 then Some (0, min (max e etiny) dec_emax)
         else (let exp_min0 = int (length (nat_str c)) + e - dec_prec
               in if exp_min0 > etop then None
                  else (let exp_min = max exp_min0 etiny
                        in if e < exp_min then
                             (let q = round_half_even c (nat (exp_min - e))
                              in if int (length (nat_str q)) > dec_prec
                                 then (if exp_min + 1 > etop then None
                                       else Some (q div 10, exp_min + 1))
                                 else Some (q, exp_min))
                           else Some (c, e))))"

function strip_zeros :: "nat \<Rightarrow> int \<Rightarrow> nat \<times> int" where
  "strip_zeros c e =
     (if c \<noteq> 0 \<and> c mod 10 = 0 \<and> e < dec_emax then strip_zeros (c div 10) (e + 1) else (c, e))"
  by pat_completeness auto

termination by (relation "measure fst") auto

declare strip_zeros.simps [simp del]

fun normalize :: "decimal \<Rightarrow> decimal option" where
  "normalize (Dec s c e) =
     (case dec_fix s c e of
        None \<Rightarrow> None
      | Some (c', e') \<Rightarrow>
          if c' = 0 then Some (Dec s 0 0)
          else (case strip_zeros c' e' of (c'', e'') \<Rightarrow> Some (Dec s c'' e'')))"
| "normalize d = Some d"

lemma pow10_Suc: "pow10 (e + 1) = 10 * pow10 e"
proof -
  consider "0 \<le> e" | "e = - 1" | "e < - 1" by linarith
  then show ?thesis
  proof cases
    case 1
    then show ?thesis by (simp add: pow10_def nat_add_distrib)
  next
    case 3
    then have "nat (- e) = Suc (nat (- e - 1))" by simp
    with 3 show ?thesis by (simp add: pow10_def)
  qed (simp add: pow10_def)
qed

lemma pow10_add: "pow10 (e + int n) = 10 ^ n * pow10 e"
proof (induction n)
  case (Suc n)
  have "pow10 (e + int (Suc n)) = pow10 (e + int n + 1)" by (simp add: algebra_simps)
  then show ?case using Suc by (simp only: pow10_Suc) simp
qed simp

lemma pow10_pos [simp]: "0 < pow10 e"
  by (simp add: pow10_def)

lemma pow10_neg [simp]: "pow10 (- int n) * 10 ^ n = 1"
  by (simp add: pow10_def)

lemma strip_zeros_spec:
  "case strip_zeros c e of (c', e') \<Rightarrow>
     of_nat c * pow10 e = of_nat c' * pow10 e' \<and> e \<le> e' \<and>
     (c \<noteq> 0 \<longrightarrow> c' \<noteq> 0 \<and> (e' < dec_emax \<longrightarrow> c' mod 10 \<noteq> 0))"
proof (induction c e rule: strip_zeros.induct)
  case (1 c e)
  show ?case
  proof (cases "c \<noteq> 0 \<and> c mod 10 = 0 \<and> e < dec_emax")
    case True
    then obtain k where k: "c = 10 * k" "k \<noteq> 0" by (auto simp: mod_eq_0_iff_dvd elim!: dvdE)
    have "strip_zeros c e = strip_zeros k (e + 1)"
      using True k by (subst strip_zeros.simps) simp
    moreover have "(of_nat c :: rat) * pow10 e = of_nat k * pow10 (e + 1)"
      by (simp add: k pow10_Suc)
    moreover have "c div 10 = k" "k \<noteq> 0" using k by simp_all
    ultimately show ?thesis using 1 [OF True] by (cases "strip_zeros k (e + 1)") simp
  next
    case False
    then have "strip_zeros c e = (c, e)" by (subst strip_zeros.simps) auto
    then show ?thesis using False by auto
  qed
qed

text \<open>A number is a multiple of \<open>10 ^ (-n)\<close>.\<close>

definition minor_integral :: "decimal \<Rightarrow> nat \<Rightarrow> bool" where
  "minor_integral d n = (\<exists>m::int. dec_val d * 10 ^ n = of_int m)"

lemma integral_of_exp:
  assumes "- int n \<le> e"
  shows "\<exists>m::int. of_nat c * pow10 e * 10 ^ n = of_int m"
proof -
  obtain k where k: "e = - int n + int k" using assms by (metis zle_iff_zadd)
  have "of_nat c * pow10 e * 10 ^ n = of_nat c * 10 ^ k * (pow10 (- int n) * 10 ^ n)"
    unfolding k pow10_add by (simp only: mult_ac)
  also have "\<dots> = of_int (int (c * 10 ^ k))" by (simp only: pow10_neg) simp
  finally show ?thesis by blast
qed

lemma exp_of_integral:
  assumes "c mod 10 \<noteq> 0" "of_nat c * pow10 e * 10 ^ n = (of_int m :: rat)"
  shows "- int n \<le> e"
proof (rule ccontr)
  assume "\<not> - int n \<le> e"
  then obtain k where k: "- int n = e + int (Suc k)"
    using zless_iff_Suc_zadd [of e "- int n"] by auto
  have "pow10 e * 10 ^ n * 10 ^ Suc k = pow10 (e + int (Suc k)) * 10 ^ n"
    by (simp only: pow10_add mult_ac)
  then have one: "pow10 e * 10 ^ n * 10 ^ Suc k = 1"
    by (simp only: k [symmetric] pow10_neg)
  have "(of_nat c :: rat) = of_nat c * (pow10 e * 10 ^ n * 10 ^ Suc k)" unfolding one by simp
  also have "\<dots> = of_int m * 10 ^ Suc k" by (simp only: assms(2) [symmetric] mult.assoc)
  finally have "(of_int (int c) :: rat) = of_int (m * 10 ^ Suc k)" by simp
  then have "int c = m * 10 ^ Suc k" by (simp only: of_int_eq_iff)
  then have "int c mod 10 = 0" by simp
  then have "c mod 10 = 0" by (metis of_nat_eq_0_iff of_nat_numeral zmod_int)
  then show False using assms(1) by contradiction
qed

text \<open>On a number the context can hold, \<open>normalize\<close> does not round.\<close>

definition context_exact :: "nat \<Rightarrow> int \<Rightarrow> bool" where
  "context_exact c e = (c \<noteq> 0 \<and> int (length (nat_str c)) \<le> dec_prec \<and>
     dec_emin - dec_prec + 1 \<le> e \<and> int (length (nat_str c)) + e \<le> dec_emax)"

lemma dec_fix_exact: "context_exact c e \<Longrightarrow> dec_fix s c e = Some (c, e)"
  by (auto simp: dec_fix_def context_exact_def Let_def dec_prec_def dec_emax_def dec_emin_def max_def)

lemma normalize_exact:
  assumes "context_exact c e"
  obtains c' e' where "normalize (Dec s c e) = Some (Dec s c' e')"
    "of_nat c * pow10 e = of_nat c' * pow10 e'" "e' < 0 \<Longrightarrow> c' mod 10 \<noteq> 0"
proof -
  obtain c' e' where ce: "strip_zeros c e = (c', e')" by fastforce
  have "c \<noteq> 0" using assms by (simp add: context_exact_def)
  then have "normalize (Dec s c e) = Some (Dec s c' e')"
    using dec_fix_exact [OF assms, of s] ce by simp
  moreover have "e' < 0 \<Longrightarrow> e' < dec_emax" by (simp add: dec_emax_def)
  ultimately show thesis
    using strip_zeros_spec [of c e] ce \<open>c \<noteq> 0\<close> that by auto
qed

end
