(* ===== verification/Values.thy ===== *)
theory Values
  imports Prelude
begin

text \<open>The vocabulary of app/domain: the enums of value_objects/enums.py, the identifiers of
  value_objects/ids.py (a wrapper type around a UUID, here a natural number), and the exceptions
  the modelled code raises.  Domain errors carry the structured argument the class takes; the
  free text of a message is not kept.\<close>

type_synonym uuid = nat
type_synonym timestamp = int

datatype user_id = UserId uuid
datatype transaction_id = TransactionId uuid
datatype category_id = CategoryId uuid
datatype insight_id = InsightId uuid
datatype session_id = SessionId uuid
datatype password_reset_token_id = PasswordResetTokenId uuid
datatype recurring_rule_id = RecurringRuleId uuid
datatype alert_id = AlertId uuid

datatype plan = FREE | DEMO
datatype transaction_type = TT_INCOME | TT_EXPENSE
datatype category_type = CT_INCOME | CT_EXPENSE
datatype transaction_priority = TP_LOW | TP_MEDIUM | TP_HIGH
datatype recurrence = R_NONE | R_WEEKLY | R_MONTHLY | R_YEARLY
datatype period = P_WEEKLY | P_MONTHLY
datatype insight_status = IS_PENDING | IS_QUEUED | IS_PROCESSING | IS_COMPLETED | IS_FAILED
datatype context_quality = CQ_FULL | CQ_PARTIAL | CQ_NONE
datatype audit_event_type =
    USER_REGISTERED | USER_LOGIN | USER_LOGOUT | PASSWORD_CHANGED
  | PASSWORD_RESET_REQUESTED | PASSWORD_RESET_CONFIRMED | SESSION_REVOKED
  | TRANSACTION_CREATED | TRANSACTION_UPDATED | TRANSACTION_DELETED
datatype rule_status = RS_ACTIVE | RS_PAUSED
datatype outbox_status = OS_PENDING | OS_SENT | OS_FAILED

datatype quota_resource = Q_TRANSACTIONS | Q_INSIGHTS

datatype exn =
    InvalidEmailError string
  | InvalidCurrencyError string
  | InvalidMoneyError
  | WeakPasswordError
  | InvalidTransactionTextError
  | CategoryNameAlreadyExistsError string
  | InvalidCursorError
  | InvalidRecurrenceScheduleError
  | CategoryParentNotFoundError string
  | CategoryParentIsLeafError category_id
  | CategoryTypeMismatchError
  | CategoryIsGroupError category_id
  | FileTooLargeError int int
  | ValueError
  | OverflowError
  | KeyError
  | TypeError
  | IndexError
  | DecimalOverflow
  | TransactionNotFoundError
  | QuotaExceededError quota_resource nat nat
  | StorageError
  | AlertNotFoundError
  | InsightNotFoundError
  | InsightAlreadyTerminalError insight_status
  | InsufficientTransactionsError nat nat

text \<open>A \<open>StrEnum\<close> is built from its value, as in \<open>TransactionType(raw)\<close>; an unknown value
  raises \<open>ValueError\<close>.\<close>

definition transaction_type_of :: "string \<Rightarrow> exn + transaction_type" where
  "transaction_type_of s = (if s = ''income'' then Inr TT_INCOME
     else if s = ''expense'' then Inr TT_EXPENSE else Inl ValueError)"

fun transaction_type_value :: "transaction_type \<Rightarrow> string" where
  "transaction_type_value TT_INCOME = ''income''"
| "transaction_type_value TT_EXPENSE = ''expense''"

definition recurrence_of :: "string \<Rightarrow> exn + recurrence" where
  "recurrence_of s = (if s = ''none'' then Inr R_NONE else if s = ''weekly'' then Inr R_WEEKLY
     else if s = ''monthly'' then Inr R_MONTHLY else if s = ''yearly'' then Inr R_YEARLY
     else Inl ValueError)"

definition rule_status_of :: "string \<Rightarrow> exn + rule_status" where
  "rule_status_of s = (if s = ''active'' then Inr RS_ACTIVE
     else if s = ''paused'' then Inr RS_PAUSED else Inl ValueError)"

definition category_type_of :: "string \<Rightarrow> exn + category_type" where
  "category_type_of s = (if s = ''income'' then Inr CT_INCOME
     else if s = ''expense'' then Inr CT_EXPENSE else Inl ValueError)"

definition plan_of_value :: "string \<Rightarrow> exn + plan" where
  "plan_of_value s = (if s = ''free'' then Inr FREE else if s = ''demo'' then Inr DEMO else Inl ValueError)"

definition period_of :: "string \<Rightarrow> exn + period" where
  "period_of s = (if s = ''weekly'' then Inr P_WEEKLY
     else if s = ''monthly'' then Inr P_MONTHLY else Inl ValueError)"

definition insight_status_of :: "string \<Rightarrow> exn + insight_status" where
  "insight_status_of s = (if s = ''pending'' then Inr IS_PENDING
     else if s = ''queued'' then Inr IS_QUEUED else if s = ''processing'' then Inr IS_PROCESSING
     else if s = ''completed'' then Inr IS_COMPLETED else if s = ''failed'' then Inr IS_FAILED
     else Inl ValueError)"

definition context_quality_of :: "string \<Rightarrow> exn + context_quality" where
  "context_quality_of s = (if s = ''full'' then Inr CQ_FULL else if s = ''partial'' then Inr CQ_PARTIAL
     else if s = ''none'' then Inr CQ_NONE else Inl ValueError)"

fun plan_value :: "plan \<Rightarrow> string" where
  "plan_value FREE = ''free''"
| "plan_value DEMO = ''demo''"

fun category_type_value :: "category_type \<Rightarrow> string" where
  "category_type_value CT_INCOME = ''income''"
| "category_type_value CT_EXPENSE = ''expense''"

fun recurrence_value :: "recurrence \<Rightarrow> string" where
  "recurrence_value R_NONE = ''none''"
| "recurrence_value R_WEEKLY = ''weekly''"
| "recurrence_value R_MONTHLY = ''monthly''"
| "recurrence_value R_YEARLY = ''yearly''"

fun rule_status_value :: "rule_status \<Rightarrow> string" where
  "rule_status_value RS_ACTIVE = ''active''"
| "rule_status_value RS_PAUSED = ''paused''"

fun period_value :: "period \<Rightarrow> string" where
  "period_value P_WEEKLY = ''weekly''"
| "period_value P_MONTHLY = ''monthly''"

fun insight_status_value :: "insight_status \<Rightarrow> string" where
  "insight_status_value IS_PENDING = ''pending''"
| "insight_status_value IS_QUEUED = ''queued''"
| "insight_status_value IS_PROCESSING = ''processing''"
| "insight_status_value IS_COMPLETED = ''completed''"
| "insight_status_value IS_FAILED = ''failed''"

fun context_quality_value :: "context_quality \<Rightarrow> string" where
  "context_quality_value CQ_FULL = ''full''"
| "context_quality_value CQ_PARTIAL = ''partial''"
| "context_quality_value CQ_NONE = ''none''"

lemma enum_roundtrips [simp]:
  "plan_of_value (plan_value p) = Inr p"
  "category_type_of (category_type_value ct) = Inr ct"
  "recurrence_of (recurrence_value r) = Inr r"
  "rule_status_of (rule_status_value rs) = Inr rs"
  "period_of (period_value pd) = Inr pd"
  "insight_status_of (insight_status_value st) = Inr st"
  "context_quality_of (context_quality_value q) = Inr q"
  subgoal by (cases p) (simp_all add: plan_of_value_def)
  subgoal by (cases ct) (simp_all add: category_type_of_def)
  subgoal by (cases r) (simp_all add: recurrence_of_def)
  subgoal by (cases rs) (simp_all add: rule_status_of_def)
  subgoal by (cases pd) (simp_all add: period_of_def)
  subgoal by (cases st) (simp_all add: insight_status_of_def)
  subgoal by (cases q) (simp_all add: context_quality_of_def)
  done

lemma rule_status_value_inject [simp]:
  "rule_status_value a = rule_status_value b \<longleftrightarrow> a = b"
  by (cases a; cases b; simp)

lemma transaction_type_roundtrip [simp]:
  "transaction_type_of (transaction_type_value t) = Inr t"
  by (cases t) (simp_all add: transaction_type_of_def)

instantiation user_id :: linorder
begin

definition less_eq_user_id :: "user_id \<Rightarrow> user_id \<Rightarrow> bool" where
  "less_eq_user_id a b = (case_user_id id a \<le> case_user_id id b)"

definition less_user_id :: "user_id \<Rightarrow> user_id \<Rightarrow> bool" where
  "less_user_id a b = (case_user_id id a < case_user_id id b)"

instance
  by standard (auto simp: less_eq_user_id_def less_user_id_def split: user_id.splits)

end

end
