(* ===== verification/Money.thy ===== *)
theory Money
  imports PyDecimal Values
begin

text \<open>app/domain/value_objects/money.py, email.py and password.py: the ISO 4217 table,
  \<open>Currency\<close>, \<open>Money\<close> with the checks of its \<open>__post_init__\<close> and \<open>from_string\<close>, \<open>Email\<close> and
  \<open>RawPassword\<close>.  The facts say what a constructed value guarantees, which inputs construct one,
  and that printing and reading an amount give it back.\<close>

definition iso_4217 :: "(string \<times> nat) list" where
  "iso_4217 =
    [(''JPY'', 0), (''KRW'', 0), (''VND'', 0), (''IDR'', 0), (''CLP'', 0), (''ISK'', 0),
     (''UGX'', 0), (''RWF'', 0), (''GNF'', 0), (''PYG'', 0),
     (''USD'', 2), (''EUR'', 2), (''GBP'', 2), (''CHF'', 2), (''CAD'', 2), (''AUD'', 2),
     (''NZD'', 2), (''CNY'', 2), (''HKD'', 2), (''TWD'', 2), (''SGD'', 2), (''MYR'', 2),
     (''PHP'', 2), (''THB'', 2), (''INR'', 2), (''PKR'', 2), (''BDT'', 2), (''LKR'', 2),
     (''NPR'', 2), (''SEK'', 2), (''NOK'', 2), (''DKK'', 2), (''PLN'', 2), (''CZK'', 2),
     (''HUF'', 2), (''RON'', 2), (''BGN'', 2), (''HRK'', 2), (''RSD'', 2), (''UAH'', 2),
     (''RUB'', 2), (''TRY'', 2), (''MXN'', 2), (''BRL'', 2), (''ARS'', 2), (''COP'', 2),
     (''PEN'', 2), (''VEF'', 2), (''ZAR'', 2), (''EGP'', 2), (''NGN'', 2), (''KES'', 2),
     (''GHS'', 2), (''MAD'', 2), (''SAR'', 2), (''AED'', 2), (''QAR'', 2), (''ILS'', 2),
     (''GEL'', 2), (''AMD'', 2), (''AZN'', 2), (''KZT'', 2), (''UZS'', 2), (''MNT'', 2),
     (''KWD'', 3), (''BHD'', 3), (''OMR'', 3), (''JOD'', 3), (''IQD'', 3), (''TND'', 3),
     (''LYD'', 3)]"

datatype currency = Currency (cur_code: string) (minor_unit_digits: nat)

definition mk_currency :: "string \<Rightarrow> exn + currency" where
  "mk_currency code =
     (let normalized = upper (strip code)
      in case map_of iso_4217 normalized of
           None \<Rightarrow> Inl (InvalidCurrencyError normalized)
         | Some digits \<Rightarrow> Inr (Currency normalized digits))"

datatype money = Money (amount: decimal) (currency: currency)

text \<open>The checks of \<open>Money.__post_init__\<close>; a \<open>normalize\<close> that overflows raises
  \<open>decimal.Overflow\<close>.\<close>

definition mk_money :: "decimal \<Rightarrow> currency \<Rightarrow> exn + money" where
  "mk_money amt cur =
     (if \<not> is_finite amt then Inl InvalidMoneyError
      else if dec_val amt < 0 then Inl InvalidMoneyError
      else (case normalize amt of
              None \<Rightarrow> Inl DecimalOverflow
            | Some (Dec _ _ exponent) \<Rightarrow>
                (let actual_places = (if exponent < 0 then - exponent else 0)
                 in if actual_places > int (minor_unit_digits cur) then Inl InvalidMoneyError
                    else Inr (Money amt cur))
            | Some _ \<Rightarrow> Inl InvalidMoneyError))"

definition money_from_string :: "string \<Rightarrow> currency \<Rightarrow> exn + money" where
  "money_from_string raw cur =
     (case parse_decimal raw of
        None \<Rightarrow> Inl InvalidMoneyError
      | Some amt \<Rightarrow> mk_money amt cur)"

section \<open>Currencies\<close>

definition valid_currency :: "currency \<Rightarrow> bool" where
  "valid_currency c = (mk_currency (cur_code c) = Inr c)"

lemma mk_currency_valid: "mk_currency raw = Inr c \<Longrightarrow> valid_currency c"
  by (auto simp: mk_currency_def valid_currency_def Let_def strip_upper split: option.splits)

lemma mk_currency_code [simp]: "valid_currency c \<Longrightarrow> mk_currency (cur_code c) = Inr c"
  by (simp add: valid_currency_def)

lemma minor_units_range: "mk_currency raw = Inr c \<Longrightarrow> minor_unit_digits c \<in> {0, 2, 3}"
proof -
  assume a: "mk_currency raw = Inr c"
  have "list_all (\<lambda>p. snd p \<in> {0, 2, 3}) iso_4217" by (simp add: iso_4217_def)
  then show ?thesis
    using a map_of_SomeD [of iso_4217 "upper (strip raw)"]
    by (fastforce simp: mk_currency_def Let_def list_all_iff split: option.splits)
qed

section \<open>Amounts\<close>

definition valid_money :: "money \<Rightarrow> bool" where
  "valid_money m = (valid_currency (currency m) \<and> mk_money (amount m) (currency m) = Inr m)"

lemma mk_money_same: "mk_money a c = Inr m \<Longrightarrow> m = Money a c"
  by (auto simp: mk_money_def Let_def split: if_splits option.splits decimal.splits)

lemma mk_money_valid: "mk_money a c = Inr m \<Longrightarrow> valid_currency c \<Longrightarrow> valid_money m"
  using mk_money_same by (fastforce simp: valid_money_def)

lemma mk_money_finite: "mk_money a c = Inr m \<Longrightarrow> is_finite a \<and> 0 \<le> dec_val a"
  by (auto simp: mk_money_def split: if_splits)

lemma money_from_string_print:
  assumes "valid_money m"
  shows "money_from_string (dec_str (amount m)) (currency m) = Inr m"
proof -
  have "mk_money (amount m) (currency m) = Inr m" using assms by (simp add: valid_money_def)
  moreover obtain s c e where "amount m = Dec s c e"
    using mk_money_finite [OF calculation] by (cases "amount m") auto
  ultimately show ?thesis by (simp add: money_from_string_def del: dec_str.simps)
qed

lemma mk_money_exact:
  assumes "context_exact c e"
  shows "mk_money (Dec False c e) cur = Inr (Money (Dec False c e) cur) \<longleftrightarrow>
    minor_integral (Dec False c e) (minor_unit_digits cur)"
proof -
  let ?n = "minor_unit_digits cur"
  obtain c' e' where n: "normalize (Dec False c e) = Some (Dec False c' e')"
    "of_nat c * pow10 e = of_nat c' * pow10 e'" "e' < 0 \<Longrightarrow> c' mod 10 \<noteq> 0"
    using normalize_exact [OF assms] by blast
  have "minor_integral (Dec False c e) ?n \<longleftrightarrow> (\<exists>m::int. of_nat c' * pow10 e' * 10 ^ ?n = of_int m)"
    by (simp add: minor_integral_def dec_val_def n(2))
  also have "\<dots> \<longleftrightarrow> - int ?n \<le> e'"
  proof
    assume "\<exists>m::int. of_nat c' * pow10 e' * 10 ^ ?n = of_int m"
    then show "- int ?n \<le> e'" using exp_of_integral n(3) by (cases "e' < 0") auto
  qed (rule integral_of_exp)
  finally have i: "minor_integral (Dec False c e) ?n \<longleftrightarrow> - int ?n \<le> e'" .
  have "0 \<le> dec_val (Dec False c e)" by (simp add: dec_val_def less_imp_le)
  then show ?thesis unfolding i by (auto simp: mk_money_def n(1) Let_def simp del: normalize.simps)
qed

section \<open>E-mail addresses and passwords\<close>

datatype email = Email (email_value: string)

text \<open>\<open>^[^@\s]+@[^@\s]+\.[^@\s]+$\<close> on a stripped string: one \<open>@\<close>, no white space, and a dot with
  something on both sides after it.\<close>

definition email_matches :: "string \<Rightarrow> bool" where
  "email_matches s =
     (let user = takeWhile (\<lambda>c. c \<noteq> CHR ''@'') s; rest = dropWhile (\<lambda>c. c \<noteq> CHR ''@'') s;
          host = tl rest
      in user \<noteq> [] \<and> rest \<noteq> [] \<and> list_all (\<lambda>c. \<not> is_space c) user \<and>
         list_all (\<lambda>c. \<not> is_space c \<and> c \<noteq> CHR ''@'') host \<and>
         length host \<ge> 3 \<and> CHR ''.'' \<in> set (butlast (tl host)))"

definition mk_email :: "string \<Rightarrow> exn + email" where
  "mk_email raw =
     (let normalized = lower (strip raw)
      in if email_matches normalized then Inr (Email normalized)
         else Inl (InvalidEmailError normalized))"

lemma mk_email_idem: "mk_email raw = Inr e \<Longrightarrow> mk_email (email_value e) = Inr e"
  by (auto simp: mk_email_def Let_def strip_lower split: if_splits)

lemma mk_email_case: "lower (strip a) = lower (strip b) \<Longrightarrow> mk_email a = mk_email b"
  by (simp add: mk_email_def)

datatype raw_password = RawPassword string

definition min_password_length :: nat where "min_password_length = 8"
definition max_password_length :: nat where "max_password_length = 72"

definition mk_raw_password :: "string \<Rightarrow> exn + raw_password" where
  "mk_raw_password v =
     (if length v < min_password_length then Inl WeakPasswordError
      else if length v > max_password_length then Inl WeakPasswordError
      else Inr (RawPassword v))"

section \<open>Properties\<close>

text \<open>For a non-negative amount the decimal context can hold, \<open>Money\<close> is constructed exactly when
  the amount is a whole number of the currency's minor units.\<close>

theorem money_iff_minor_units:
  assumes "context_exact c e"
  shows "mk_money (Dec False c e) cur = Inr (Money (Dec False c e) cur) \<longleftrightarrow>
    minor_integral (Dec False c e) (minor_unit_digits cur)"
  by (rule mk_money_exact [OF assms])

lemma money_iff_minor_units_witness:
  "mk_money (Dec False 1999 (- 2)) (Currency ''USD'' 2) = Inr (Money (Dec False 1999 (- 2)) (Currency ''USD'' 2))
     \<longleftrightarrow> minor_integral (Dec False 1999 (- 2)) (minor_unit_digits (Currency ''USD'' 2))"
  by (rule money_iff_minor_units)
    (simp add: context_exact_def nat_str.simps dec_prec_def dec_emin_def dec_emax_def)

text \<open>An amount beyond the 28 digits of the decimal context is rounded before its places are
  counted, so the check passes although the amount is not a whole number of cents, and the stored
  amount keeps all its digits.\<close>

theorem money_precision_gap:
  "mk_money (Dec False 100000000000000000000000000001 (- 27)) (Currency ''USD'' 2) =
     Inr (Money (Dec False 100000000000000000000000000001 (- 27)) (Currency ''USD'' 2)) \<and>
   \<not> minor_integral (Dec False 100000000000000000000000000001 (- 27)) 2"
proof
  have n: "normalize (Dec False 100000000000000000000000000001 (- 27)) = Some (Dec False 1 2)"
    by (simp add: dec_fix_def nat_str.simps dec_prec_def dec_emin_def dec_emax_def Let_def
        round_half_even_def strip_zeros.simps)
  show "mk_money (Dec False 100000000000000000000000000001 (- 27)) (Currency ''USD'' 2) =
     Inr (Money (Dec False 100000000000000000000000000001 (- 27)) (Currency ''USD'' 2))"
    unfolding mk_money_def n by (simp add: dec_val_def pow10_def)
  show "\<not> minor_integral (Dec False 100000000000000000000000000001 (- 27)) 2"
  proof
    assume "minor_integral (Dec False 100000000000000000000000000001 (- 27)) 2"
    then have "- int 2 \<le> - 27"
      using exp_of_integral [of 100000000000000000000000000001 "- 27" 2]
      by (auto simp: minor_integral_def dec_val_def)
    then show False by simp
  qed
qed

text \<open>C25 Printing the amount of a constructed \<open>Money\<close> and reading it back with its currency's code
  gives the same value: the command a recurring rule sends creates exactly the rule's amount.\<close>

theorem money_print_read:
  assumes "mk_currency raw = Inr cur" "money_from_string s cur = Inr m"
  shows "bindR (mk_currency (cur_code (currency m))) (money_from_string (dec_str (amount m))) = Inr m"
proof -
  have v: "valid_currency cur" using assms(1) by (rule mk_currency_valid)
  have "valid_money m"
    using assms(2) mk_money_valid [OF _ v] by (auto simp: money_from_string_def split: option.splits)
  moreover from this have "valid_currency (currency m)" by (simp add: valid_money_def)
  ultimately show ?thesis by (simp add: money_from_string_print)
qed

lemma money_print_read_witness:
  "bindR (mk_currency (cur_code (Currency ''USD'' 2)))
     (money_from_string (dec_str (Dec False 5 0))) = Inr (Money (Dec False 5 0) (Currency ''USD'' 2))"
proof -
  have c: "mk_currency '' usd'' = Inr (Currency ''USD'' 2)"
    by code_simp
  have m: "money_from_string ''5'' (Currency ''USD'' 2) = Inr (Money (Dec False 5 0) (Currency ''USD'' 2))"
    by (simp add: money_from_string_def parse_decimal_def strip_def is_space_def split_sign_def
        parse_body_def is_digit_def parse_exponent_def digits_val_def digit_val_def mk_money_def
        dec_fix_def nat_str.simps dec_prec_def dec_emin_def dec_emax_def dec_val_def pow10_def
        strip_zeros.simps Let_def)
  from money_print_read [OF c m] show ?thesis by simp
qed

text \<open>An address that is accepted is stored in a form that is accepted again unchanged, and two
  spellings that differ in case or surrounding blanks are the same address.\<close>

theorem email_normal_form:
  "(mk_email raw = Inr e \<longrightarrow> mk_email (email_value e) = Inr e) \<and>
   (lower (strip raw) = lower (strip raw') \<longrightarrow> mk_email raw = mk_email raw')"
  using mk_email_idem mk_email_case by blast

lemma email_normal_form_witness:
  "mk_email '' A@b.co'' = Inr (Email ''a@b.co'') \<and> mk_email ''a@b.co'' = Inr (Email ''a@b.co'')"
proof -
  have "mk_email '' A@b.co'' = Inr (Email ''a@b.co'')"
    by code_simp
  then show ?thesis using email_normal_form [of "'' A@b.co''" "Email ''a@b.co''" "[]"] by simp
qed

end
