(* ===== verification/PyDate.thy ===== *)
theory PyDate
  imports Values "HOL-Library.Product_Lexorder"
begin

text \<open>Python's \<open>datetime.date\<close> and \<open>calendar.monthrange\<close> as far as the code uses them: the
  proleptic Gregorian calendar between years 1 and 9999, construction with its \<open>ValueError\<close>,
  ordering, \<open>toordinal\<close>, \<open>weekday\<close> and the addition of a non-negative number of days with its
  \<open>OverflowError\<close>.\<close>

named_theorems date_defs "definitions of the calendar"

datatype date = Date (date_year: int) (date_month: int) (date_day: int)

text \<open>An aware UTC \<open>datetime\<close>: the date and the microseconds since midnight, ordered
  lexicographically.\<close>

type_synonym datetime = "date \<times> int"

definition is_leap :: "int \<Rightarrow> bool" where
  "is_leap y = (y mod 4 = 0 \<and> (y mod 100 \<noteq> 0 \<or> y mod 400 = 0))"

definition days_in_month :: "int \<Rightarrow> int \<Rightarrow> int" where
  "days_in_month y m =
     (if m = 2 then (if is_leap y then 29 else 28)
      else if m = 4 \<or> m = 6 \<or> m = 9 \<or> m = 11 then 30 else 31)"

definition monthrange_days :: "int \<Rightarrow> int \<Rightarrow> exn + int" where
  "monthrange_days y m = (if 1 \<le> m \<and> m \<le> 12 then Inr (days_in_month y m) else Inl ValueError)"

definition valid_date :: "date \<Rightarrow> bool" where
  "valid_date d = (1 \<le> date_year d \<and> date_year d \<le> 9999 \<and> 1 \<le> date_month d \<and> date_month d \<le> 12
     \<and> 1 \<le> date_day d \<and> date_day d \<le> days_in_month (date_year d) (date_month d))"

definition mk_date :: "int \<Rightarrow> int \<Rightarrow> int \<Rightarrow> exn + date" where
  "mk_date y m d = (if valid_date (Date y m d) then Inr (Date y m d) else Inl ValueError)"

instantiation date :: linorder
begin

definition less_eq_date :: "date \<Rightarrow> date \<Rightarrow> bool" where
  "less_eq_date a b = (date_year a < date_year b \<or> date_year a = date_year b \<and>
     (date_month a < date_month b \<or> date_month a = date_month b \<and> date_day a \<le> date_day b))"

definition less_date :: "date \<Rightarrow> date \<Rightarrow> bool" where
  "less_date a b = (date_year a < date_year b \<or> date_year a = date_year b \<and>
     (date_month a < date_month b \<or> date_month a = date_month b \<and> date_day a < date_day b))"

instance
proof
  fix a b c :: date
  show "(a < b) = (a \<le> b \<and> \<not> b \<le> a)" by (auto simp: less_eq_date_def less_date_def)
  show "a \<le> a" by (simp add: less_eq_date_def)
  show "a \<le> b \<Longrightarrow> b \<le> c \<Longrightarrow> a \<le> c" by (auto simp: less_eq_date_def)
  show "a \<le> b \<Longrightarrow> b \<le> a \<Longrightarrow> a = b" by (cases a; cases b) (auto simp: less_eq_date_def)
  show "a \<le> b \<or> b \<le> a" by (auto simp: less_eq_date_def)
qed

end

lemma date_less_simps [simp]:
  "Date y m d < Date y' m' d' \<longleftrightarrow> y < y' \<or> y = y' \<and> (m < m' \<or> m = m' \<and> d < d')"
  "Date y m d \<le> Date y' m' d' \<longleftrightarrow> y < y' \<or> y = y' \<and> (m < m' \<or> m = m' \<and> d \<le> d')"
  by (auto simp: less_eq_date_def less_date_def)

lemma valid_date_Date [simp]:
  "valid_date (Date y m d) \<longleftrightarrow>
     1 \<le> y \<and> y \<le> 9999 \<and> 1 \<le> m \<and> m \<le> 12 \<and> 1 \<le> d \<and> d \<le> days_in_month y m"
  by (auto simp: valid_date_def)

lemma mk_date_Inr_iff: "mk_date y m d = Inr r \<longleftrightarrow> r = Date y m d \<and> valid_date (Date y m d)"
  by (auto simp: mk_date_def)

lemma days_in_month_bounds: "28 \<le> days_in_month y m" "days_in_month y m \<le> 31"
  by (auto simp: days_in_month_def)

section \<open>Ordinals and weekdays\<close>

definition days_before_year :: "int \<Rightarrow> int" where
  "days_before_year y = (y - 1) * 365 + (y - 1) div 4 - (y - 1) div 100 + (y - 1) div 400"

definition days_before_month :: "int \<Rightarrow> int \<Rightarrow> int" where
  "days_before_month y m =
     (if m \<le> 1 then 0 else if m = 2 then 31
      else (if is_leap y then 1 else 0) +
        (if m = 3 then 59 else if m = 4 then 90 else if m = 5 then 120 else if m = 6 then 151
         else if m = 7 then 181 else if m = 8 then 212 else if m = 9 then 243
         else if m = 10 then 273 else if m = 11 then 304 else 334))"

definition toordinal :: "date \<Rightarrow> int" where
  "toordinal d = days_before_year (date_year d) + days_before_month (date_year d) (date_month d)
     + date_day d"

definition weekday :: "date \<Rightarrow> int" where
  "weekday d = (toordinal d + 6) mod 7"

definition max_ordinal :: int where
  "max_ordinal = 3652059"

definition next_day :: "date \<Rightarrow> date" where
  "next_day d =
     (if date_day d < days_in_month (date_year d) (date_month d)
      then Date (date_year d) (date_month d) (date_day d + 1)
      else if date_month d < 12 then Date (date_year d) (date_month d + 1) 1
      else Date (date_year d + 1) 1 1)"

definition add_days :: "date \<Rightarrow> nat \<Rightarrow> exn + date" where
  "add_days d n =
     (if toordinal d + int n > max_ordinal then Inl OverflowError
      else (case (next_day ^^ n) d of Date y m k \<Rightarrow> mk_date y m k))"

lemma month_cases:
  assumes "1 \<le> m" "m \<le> (12::int)"
  shows "m = 1 \<or> m = 2 \<or> m = 3 \<or> m = 4 \<or> m = 5 \<or> m = 6 \<or> m = 7 \<or> m = 8 \<or> m = 9 \<or> m = 10
    \<or> m = 11 \<or> m = 12"
  using assms by arith

lemma days_before_month_Suc:
  assumes "1 \<le> m" "m < 12"
  shows "days_before_month y (m + 1) = days_before_month y m + days_in_month y m"
  using month_cases [of m] assms
  by (auto simp: days_before_month_def days_in_month_def)

lemma days_before_month_step:
  assumes "1 \<le> m" "m < m'" "m' \<le> 12"
  shows "days_before_month y m + days_in_month y m \<le> days_before_month y m'"
  using assms(2,3)
proof (induction m' rule: int_gr_induct)
  case base
  then show ?case using assms(1) by (simp add: days_before_month_Suc)
next
  case (step i)
  then show ?case
    using assms(1) days_before_month_Suc [of i y] days_in_month_bounds(1) [of y i] by simp
qed

lemma div_step:
  assumes "0 < (k::int)"
  shows "y div k = (y - 1) div k + (if y mod k = 0 then 1 else 0)"
proof (cases "y mod k = 0")
  case True
  then obtain q where q: "y = k * q" by (auto simp: mod_eq_0_iff_dvd elim: dvdE)
  have "(k * q - 1) div k = q - 1"
    using assms by (intro int_div_pos_eq [where r = "k - 1"]) (auto simp: right_diff_distrib)
  then show ?thesis using assms q by simp
next
  case False
  define q r where "q = y div k" and "r = y mod k"
  then have y: "y = k * q + r" by simp
  have "0 \<le> r" "r < k" using assms by (simp_all add: r_def)
  moreover have "r \<noteq> 0" using False by (simp add: r_def)
  ultimately have "(y - 1) div k = q"
    by (intro int_div_pos_eq [where r = "r - 1"]) (use y in auto)
  then show ?thesis using False q_def by simp
qed

lemma leap_mods:
  "y mod 400 = 0 \<Longrightarrow> y mod 100 = (0::int)"
  "y mod 100 = 0 \<Longrightarrow> y mod 4 = (0::int)"
  using dvd_trans [of 100 400 y] dvd_trans [of 4 100 y] by (simp_all add: mod_eq_0_iff_dvd)

lemma days_before_year_Suc:
  "days_before_year (y + 1) = days_before_year y + 365 + (if is_leap y then 1 else 0)"
proof -
  define a b c where "a = (y - 1) div 4" and "b = (y - 1) div 100" and "c = (y - 1) div 400"
  define p q r where "p = (y mod 4 = 0)" and "q = (y mod 100 = 0)" and "r = (y mod 400 = 0)"
  have eqs: "y div 4 = a + (if p then 1 else 0)" "y div 100 = b + (if q then 1 else 0)"
    "y div 400 = c + (if r then 1 else 0)"
    unfolding a_def b_def c_def p_def q_def r_def by (rule div_step; simp)+
  have leap: "is_leap y = (p \<and> (\<not> q \<or> r))" "r \<Longrightarrow> q" "q \<Longrightarrow> p"
    using leap_mods [of y] by (simp_all add: is_leap_def p_def q_def r_def)
  have "days_before_year (y + 1) = y * 365 + y div 4 - y div 100 + y div 400"
    by (simp add: days_before_year_def)
  moreover have "days_before_year y = (y - 1) * 365 + a - b + c"
    by (simp add: days_before_year_def a_def b_def c_def)
  ultimately show ?thesis
    using leap by (cases p; cases q; cases r) (simp_all add: eqs)
qed

lemma days_before_year_mono:
  assumes "y < y'"
  shows "days_before_year y + 365 + (if is_leap y then 1 else 0) \<le> days_before_year y'"
  using assms
proof (induction y' rule: int_gr_induct)
  case base
  then show ?case by (simp add: days_before_year_Suc)
next
  case (step i)
  then show ?case by (simp add: days_before_year_Suc split: if_splits)
qed

lemma days_before_year_end:
  assumes "1 \<le> m" "m \<le> 12"
  shows "days_before_month y m + days_in_month y m \<le> 365 + (if is_leap y then 1 else 0)"
  using month_cases [OF assms] by (auto simp: days_before_month_def days_in_month_def)

lemma days_before_month_nonneg: "0 \<le> days_before_month y m"
  by (simp add: days_before_month_def)

lemma toordinal_less:
  assumes "valid_date a" "valid_date b" "a < b"
  shows "toordinal a < toordinal b"
proof -
  obtain y m d y' m' d' where ab: "a = Date y m d" "b = Date y' m' d'"
    by (cases a; cases b) auto
  consider "y < y'" | "y = y'" "m < m'" | "y = y'" "m = m'" "d < d'"
    using assms(3) ab by auto
  then show ?thesis
  proof cases
    case 1
    then show ?thesis
      using days_before_year_mono [OF 1] days_before_year_end [of m y] days_before_month_nonneg [of y' m']
        assms ab by (simp add: toordinal_def)
  next
    case 2
    then show ?thesis
      using days_before_month_step [of m m' y] assms ab by (simp add: toordinal_def)
  next
    case 3
    then show ?thesis using ab by (simp add: toordinal_def)
  qed
qed

lemma toordinal_less_iff:
  assumes "valid_date a" "valid_date b"
  shows "toordinal a < toordinal b \<longleftrightarrow> a < b"
  using toordinal_less [OF assms] toordinal_less [OF assms(2,1)]
  by (metis less_le_not_le linorder_neqE not_less_iff_gr_or_eq)

lemma toordinal_le_iff:
  assumes "valid_date a" "valid_date b"
  shows "toordinal a \<le> toordinal b \<longleftrightarrow> a \<le> b"
  using toordinal_less_iff [OF assms(2,1)] by (metis linorder_not_less)

lemma toordinal_max: "valid_date d \<Longrightarrow> toordinal d \<le> max_ordinal"
proof -
  assume v: "valid_date d"
  have v': "valid_date (Date 9999 12 31)" by (simp add: days_in_month_def)
  have "toordinal (Date 9999 12 31) = max_ordinal"
    by (simp add: toordinal_def max_ordinal_def days_before_year_def days_before_month_def is_leap_def)
  moreover have "d \<le> Date 9999 12 31"
    using v days_in_month_bounds(2) [of "date_year d" "date_month d"]
    by (cases d) auto
  ultimately show "toordinal d \<le> max_ordinal"
    using toordinal_le_iff [OF v v'] by simp
qed

lemma toordinal_next_day:
  assumes "1 \<le> date_month d" "date_month d \<le> 12"
    "date_day d \<le> days_in_month (date_year d) (date_month d)"
  shows "toordinal (next_day d) = toordinal d + 1"
proof (cases d)
  case (Date y m k)
  show ?thesis
  proof (cases "k < days_in_month y m")
    case True
    then show ?thesis using Date by (simp add: next_day_def toordinal_def)
  next
    case False
    then have k: "k = days_in_month y m" using assms Date by simp
    show ?thesis
    proof (cases "m < 12")
      case True
      then show ?thesis using Date False k assms days_before_month_Suc [of m y]
        by (simp add: next_day_def toordinal_def)
    next
      case False
      then have "m = 12" using assms Date by simp
      then show ?thesis using Date k days_before_year_Suc [of y]
        by (simp add: next_day_def toordinal_def days_before_month_def days_in_month_def)
    qed
  qed
qed

definition calendar_day :: "date \<Rightarrow> bool" where
  "calendar_day d = (1 \<le> date_month d \<and> date_month d \<le> 12 \<and> 1 \<le> date_day d
     \<and> date_day d \<le> days_in_month (date_year d) (date_month d))"

lemma valid_calendar_day: "valid_date d \<Longrightarrow> calendar_day d"
  by (simp add: valid_date_def calendar_day_def)

lemma calendar_next_day: "calendar_day d \<Longrightarrow> calendar_day (next_day d)"
  using days_in_month_bounds(1) [of "date_year d" "date_month d + 1"]
    days_in_month_bounds(1) [of "date_year d + 1" 1]
  by (auto simp: calendar_day_def next_day_def)

lemma next_days:
  "calendar_day d \<Longrightarrow> calendar_day ((next_day ^^ n) d) \<and>
     toordinal ((next_day ^^ n) d) = toordinal d + int n \<and>
     date_year d \<le> date_year ((next_day ^^ n) d)"
proof (induction n)
  case (Suc n)
  let ?e = "(next_day ^^ n) d"
  have e: "calendar_day ?e" "toordinal ?e = toordinal d + int n" "date_year d \<le> date_year ?e"
    using Suc by auto
  then have "toordinal (next_day ?e) = toordinal ?e + 1"
    by (intro toordinal_next_day) (auto simp: calendar_day_def)
  moreover have "date_year ?e \<le> date_year (next_day ?e)"
    by (simp add: next_day_def)
  ultimately show ?case using e calendar_next_day [of ?e] by simp
qed simp

lemma toordinal_beyond:
  assumes "calendar_day d" "9999 < date_year d"
  shows "max_ordinal < toordinal d"
proof -
  have "days_before_year 10000 = max_ordinal"
    by (simp add: days_before_year_def max_ordinal_def)
  moreover have "days_before_year 10000 \<le> days_before_year (date_year d)"
    using days_before_year_mono [of 10000 "date_year d"] assms(2)
    by (cases "date_year d = 10000") (auto split: if_splits)
  ultimately show ?thesis
    using assms days_before_month_nonneg [of "date_year d" "date_month d"]
    by (simp add: toordinal_def calendar_day_def)
qed

lemma mk_date_fields:
  "(case d of Date y m k \<Rightarrow> mk_date y m k) = (if valid_date d then Inr d else Inl ValueError)"
  by (cases d) (simp add: mk_date_def)

lemma add_days_valid:
  assumes "valid_date d"
  shows "toordinal d + int n \<le> max_ordinal \<Longrightarrow>
      \<exists>r. add_days d n = Inr r \<and> valid_date r \<and> toordinal r = toordinal d + int n"
    and "add_days d n = Inr r \<Longrightarrow> valid_date r \<and> toordinal r = toordinal d + int n"
proof -
  let ?r = "(next_day ^^ n) d"
  have r: "calendar_day ?r" "toordinal ?r = toordinal d + int n" "1 \<le> date_year ?r"
    using next_days [OF valid_calendar_day [OF assms], of n] assms by (auto simp: valid_date_def)
  have v: "valid_date ?r" if "toordinal d + int n \<le> max_ordinal"
    using toordinal_beyond [of ?r] r that
    by (simp add: valid_date_def calendar_day_def) (meson not_le)
  show "toordinal d + int n \<le> max_ordinal \<Longrightarrow>
      \<exists>r. add_days d n = Inr r \<and> valid_date r \<and> toordinal r = toordinal d + int n"
    using v r by (simp add: add_days_def mk_date_fields)
  show "valid_date r \<and> toordinal r = toordinal d + int n" if "add_days d n = Inr r"
    using that v r by (auto simp: add_days_def mk_date_fields split: if_splits)
qed

lemma add_days_Inl: "add_days d n = Inl e \<Longrightarrow> valid_date d \<Longrightarrow> max_ordinal < toordinal d + int n"
  using add_days_valid(1) [of d n] by fastforce

lemma weekday_bounds: "0 \<le> weekday d" "weekday d < 7"
  by (simp_all add: weekday_def)

end
