(* ===== verification/Categories.thy ===== *)
theory Categories
  imports Money PyDate
begin

text \<open>Categories: the entity of app/domain/entities/category.py, the queries of
  SqlaCategoryRepository and SqlaCategoryListReader, \<open>CreateCategoryUseCase\<close> and
  \<open>ListCategoriesUseCase\<close>.  A group has no parent and a leaf has one; the invariant \<open>categories_wf\<close>
  says that the forest has depth at most two, that a leaf has its group's type and that a user's
  category names are unique.\<close>

record category =
  cat_id :: category_id
  cat_name :: string
  cat_icon :: "string option"
  cat_color :: "string option"
  cat_is_system :: bool
  cat_user :: "user_id option"
  cat_parent :: "category_id option"
  cat_type :: category_type
  cat_created_at :: datetime

definition is_group :: "category \<Rightarrow> bool" where
  "is_group c = (cat_parent c = None)"

definition is_leaf :: "category \<Rightarrow> bool" where
  "is_leaf c = (cat_parent c \<noteq> None)"

definition validate_can_be_parent :: "category \<Rightarrow> exn + unit" where
  "validate_can_be_parent c =
     (if is_leaf c then Inl (CategoryParentIsLeafError (cat_id c)) else Inr ())"

definition validate_assignable :: "category \<Rightarrow> exn + unit" where
  "validate_assignable c =
     (if is_group c then Inl (CategoryIsGroupError (cat_id c)) else Inr ())"

section \<open>Queries\<close>

definition get_category :: "category_id \<Rightarrow> category list \<Rightarrow> category option" where
  "get_category i rows = find_by (\<lambda>c. cat_id c = i) rows"

definition get_user_category_by_name ::
  "user_id \<Rightarrow> string \<Rightarrow> category list \<Rightarrow> category option" where
  "get_user_category_by_name u name rows =
     find_by (\<lambda>c. cat_user c = Some u \<and> cat_name c = name) rows"

definition category_visible :: "user_id \<Rightarrow> category \<Rightarrow> bool" where
  "category_visible u c = (cat_is_system c \<or> cat_user c = Some u)"

text \<open>\<open>ORDER BY is_system DESC, name ASC\<close>\<close>

fun lex_le :: "string \<Rightarrow> string \<Rightarrow> bool" where
  "lex_le [] t = True"
| "lex_le (c # s) [] = False"
| "lex_le (c # s) (d # t) =
     ((of_char c :: nat) < of_char d \<or> c = d \<and> lex_le s t)"

definition category_before :: "category \<Rightarrow> category \<Rightarrow> bool" where
  "category_before a b =
     (if cat_is_system a \<noteq> cat_is_system b then cat_is_system a else lex_le (cat_name a) (cat_name b))"

fun insert_category :: "category \<Rightarrow> category list \<Rightarrow> category list" where
  "insert_category c [] = [c]"
| "insert_category c (d # ds) =
     (if category_before c d then c # d # ds else d # insert_category c ds)"

definition list_for_user :: "user_id \<Rightarrow> category list \<Rightarrow> category list" where
  "list_for_user u rows = foldr insert_category (filter (category_visible u) rows) []"

definition get_by_id_for_user ::
  "category_id \<Rightarrow> user_id \<Rightarrow> category list \<Rightarrow> category option" where
  "get_by_id_for_user i u rows = find_by (\<lambda>c. cat_id c = i \<and> category_visible u c) rows"

section \<open>CreateCategoryUseCase\<close>

record create_category_command =
  cc_user :: user_id
  cc_name :: string
  cc_type :: category_type
  cc_parent :: "category_id option"
  cc_icon :: "string option"
  cc_color :: "string option"

definition check_parent :: "category list \<Rightarrow> create_category_command \<Rightarrow> exn + unit" where
  "check_parent rows cmd =
     (case cc_parent cmd of
        None \<Rightarrow> Inr ()
      | Some pid \<Rightarrow>
          (case get_category pid rows of
             None \<Rightarrow> Inl (CategoryParentNotFoundError (uuid_str (case_category_id id pid)))
           | Some parent \<Rightarrow>
               bindR (validate_can_be_parent parent)
                 (\<lambda>_. guardR (cat_type parent = cc_type cmd) CategoryTypeMismatchError)))"

text \<open>\<open>snapshot\<close> is what the request's queries read; \<open>rows\<close> is the table at the flush, where the
  unique index on (user, name) may meet a row another request has committed meanwhile.\<close>

definition create_category ::
  "create_category_command \<Rightarrow> category_id \<Rightarrow> datetime \<Rightarrow> category list \<Rightarrow> category list \<Rightarrow>
     exn + category_id \<times> category list" where
  "create_category cmd new_id now snapshot rows =
     bindR (check_parent snapshot cmd) (\<lambda>_.
       (case get_user_category_by_name (cc_user cmd) (cc_name cmd) snapshot of
          Some _ \<Rightarrow> Inl (CategoryNameAlreadyExistsError (cc_name cmd))
        | None \<Rightarrow>
            (let c = \<lparr>cat_id = new_id, cat_name = cc_name cmd, cat_icon = cc_icon cmd,
                      cat_color = cc_color cmd, cat_is_system = False,
                      cat_user = Some (cc_user cmd), cat_parent = cc_parent cmd,
                      cat_type = cc_type cmd, cat_created_at = now\<rparr>
             in if get_user_category_by_name (cc_user cmd) (cc_name cmd) rows \<noteq> None
                then Inl (CategoryNameAlreadyExistsError [])
                else Inr (new_id, upsert cat_id c rows))))"

section \<open>The forest\<close>

definition parent_ok :: "category list \<Rightarrow> category \<Rightarrow> bool" where
  "parent_ok rows c =
     (case cat_parent c of None \<Rightarrow> True
      | Some p \<Rightarrow> (\<exists>g\<in>set rows. cat_id g = p \<and> is_group g \<and> cat_type g = cat_type c))"

definition categories_wf :: "category list \<Rightarrow> bool" where
  "categories_wf rows =
     (distinct (map cat_id rows) \<and> (\<forall>c\<in>set rows. parent_ok rows c) \<and>
      (\<forall>c\<in>set rows. \<forall>d\<in>set rows. cat_user c \<noteq> None \<and> cat_user c = cat_user d \<and>
         cat_name c = cat_name d \<longrightarrow> c = d))"

lemma check_parent_ok:
  assumes "check_parent rows cmd = Inr ()"
  shows "cc_parent cmd = None \<or> (\<exists>g\<in>set rows. Some (cat_id g) = cc_parent cmd \<and> is_group g \<and>
    cat_type g = cc_type cmd)"
  using assms find_by_Some
  by (fastforce simp: check_parent_def get_category_def validate_can_be_parent_def bindR_Inr_iff
      is_group_def is_leaf_def split: option.splits if_splits)

lemma create_category_Inr:
  assumes "create_category cmd i now snapshot rows = Inr (j, rows')"
  shows "j = i" "check_parent snapshot cmd = Inr ()"
    "get_user_category_by_name (cc_user cmd) (cc_name cmd) rows = None"
    "\<exists>c. rows' = upsert cat_id c rows \<and> cat_id c = i \<and> cat_name c = cc_name cmd \<and>
       cat_user c = Some (cc_user cmd) \<and> cat_parent c = cc_parent cmd \<and> cat_type c = cc_type cmd \<and>
       \<not> cat_is_system c \<and> cat_created_at c = now"
  using assms
  by (auto simp: create_category_def bindR_Inr_iff Let_def split: option.splits if_splits)

lemma create_category_wf:
  assumes "create_category cmd i now snapshot rows = Inr (j, rows')"
    and "categories_wf rows" "i \<notin> cat_id ` set rows" "set snapshot \<subseteq> set rows"
  shows "categories_wf rows'"
proof -
  obtain c where c: "rows' = upsert cat_id c rows" "cat_id c = i" "cat_name c = cc_name cmd"
    "cat_user c = Some (cc_user cmd)" "cat_parent c = cc_parent cmd" "cat_type c = cc_type cmd"
    using create_category_Inr(4) [OF assms(1)] by blast
  have rows': "rows' = rows @ [c]" using c(1,2) assms(3) by (simp add: upsert_def)
  have pc: "parent_ok rows' c"
    unfolding rows' parent_ok_def
    using check_parent_ok [OF create_category_Inr(2) [OF assms(1)]] assms(4) c(5,6)
    by (auto split: option.splits)
  have pd: "parent_ok rows' d" if "d \<in> set rows" for d
    using assms(2) that rows' by (fastforce simp: categories_wf_def parent_ok_def split: option.splits)
  have uniq: "x = y" if x: "x \<in> set rows'" and y: "y \<in> set rows'"
    and same: "cat_user x \<noteq> None" "cat_user x = cat_user y" "cat_name x = cat_name y" for x y
  proof -
    have new: "\<not> (cat_user d = cat_user c \<and> cat_name d = cat_name c)" if "d \<in> set rows" for d
      using create_category_Inr(3) [OF assms(1)] that c
      by (auto simp: get_user_category_by_name_def find_by_None)
    have old: "x \<in> set rows \<Longrightarrow> y \<in> set rows \<Longrightarrow> x = y"
      using assms(2) same unfolding categories_wf_def by blast
    consider "x = c" "y = c" | "x = c" "y \<in> set rows" | "x \<in> set rows" "y = c"
      | "x \<in> set rows" "y \<in> set rows"
      using x y by (auto simp: rows')
    then show ?thesis
      by cases (use new [of x] new [of y] same old in auto)
  qed
  have "distinct (map cat_id rows')" using assms(2,3) c(2) by (simp add: rows' categories_wf_def)
  moreover have "\<forall>d\<in>set rows'. parent_ok rows' d" using pc pd by (auto simp: rows')
  ultimately show ?thesis unfolding categories_wf_def using uniq by blast
qed

lemma insert_category_set: "set (insert_category c ds) = insert c (set ds)"
  by (induction ds) auto

lemma list_for_user_set: "set (list_for_user u rows) = {c \<in> set rows. category_visible u c}"
proof -
  have "set (foldr insert_category cs []) = set cs" for cs
    by (induction cs) (auto simp: insert_category_set)
  then show ?thesis by (auto simp: list_for_user_def)
qed

section \<open>Properties\<close>

text \<open>C24 Creating a category keeps the forest: ids stay unique, every leaf hangs under a group of its
  own type, and no user has two categories of one name, even when another request has committed
  between this request's reads and its flush.\<close>

theorem create_category_keeps_forest:
  assumes "categories_wf rows" "set snapshot \<subseteq> set rows" "new_id \<notin> cat_id ` set rows"
    and "create_category cmd new_id now snapshot rows = Inr (i, rows')"
  shows "categories_wf rows' \<and> i = new_id \<and> new_id \<in> cat_id ` set rows'"
proof -
  have "new_id \<in> cat_id ` set rows'"
    using create_category_Inr(4) [OF assms(4)] upsert_mem by force
  then show ?thesis
    using create_category_wf [OF assms(4,1,3,2)] create_category_Inr(1) [OF assms(4)] by simp
qed

definition sample_group :: category where
  "sample_group = \<lparr>cat_id = CategoryId 1, cat_name = ''Food'', cat_icon = None, cat_color = None,
     cat_is_system = False, cat_user = Some (UserId 1), cat_parent = None, cat_type = CT_EXPENSE,
     cat_created_at = (Date 2024 1 1, 0)\<rparr>"

definition sample_leaf_command :: create_category_command where
  "sample_leaf_command = \<lparr>cc_user = UserId 2, cc_name = ''Lunch'', cc_type = CT_EXPENSE,
     cc_parent = Some (CategoryId 1), cc_icon = None, cc_color = None\<rparr>"

lemma create_category_keeps_forest_witness:
  "categories_wf (snd (projr (create_category sample_leaf_command (CategoryId 2) (Date 2024 1 2, 0)
     [sample_group] [sample_group])))"
proof -
  obtain rows' where r: "create_category sample_leaf_command (CategoryId 2) (Date 2024 1 2, 0)
      [sample_group] [sample_group] = Inr (CategoryId 2, rows')"
    by (simp add: create_category_def check_parent_def get_category_def sample_leaf_command_def
        sample_group_def validate_can_be_parent_def is_leaf_def get_user_category_by_name_def Let_def)
  have wf: "categories_wf [sample_group]"
    by (simp add: categories_wf_def parent_ok_def sample_group_def)
  have fresh: "CategoryId 2 \<notin> cat_id ` set [sample_group]" by (simp add: sample_group_def)
  show ?thesis
    using create_category_keeps_forest [OF wf subset_refl fresh r] by (simp add: r)
qed

text \<open>The parent of a new category is looked up by its id alone: a user who knows the id of
  another user's private group can hang a leaf under it, although that group is not visible to
  them.\<close>

theorem foreign_group_as_parent:
  "\<not> category_visible (UserId 2) sample_group \<and>
   (\<exists>rows'. create_category sample_leaf_command (CategoryId 2) (Date 2024 1 2, 0)
      [sample_group] [sample_group] = Inr (CategoryId 2, rows'))"
  by (simp add: create_category_def check_parent_def get_category_def sample_leaf_command_def
      sample_group_def validate_can_be_parent_def is_leaf_def get_user_category_by_name_def Let_def
      category_visible_def)

end
