(* ===== verification/Transactions.thy ===== *)
theory Transactions
  imports Categories
begin

text \<open>Transactions: the entity with \<open>apply_update\<close>, the queries of SqlaTransactionRepository, the
  quota of SqlaQuotaCheck, and the create, update, delete and get use cases, run in the unit of
  work of one request (commit on success, rollback on an exception).  A merged entity is pending
  until the commit: queries read only the flushed rows, since the sessions are built with
  autoflush off.\<close>

record transaction =
  tx_id :: transaction_id
  tx_user :: user_id
  tx_amount :: money
  tx_date :: date
  tx_type :: transaction_type
  tx_merchant :: "string option"
  tx_notes :: "string option"
  tx_category :: "category_id option"
  tx_created_at :: datetime
  tx_updated_at :: "datetime option"
  tx_rule :: "recurring_rule_id option"

record audit_event =
  ev_type :: audit_event_type
  ev_user :: "user_id option"
  ev_at :: datetime
  ev_ip :: "string option"
  ev_user_agent :: "string option"

record ledger =
  ld_categories :: "category list"
  ld_rows :: "transaction list"
  ld_pending :: "transaction list"
  ld_audit :: "audit_event list"

section \<open>The entity\<close>

text \<open>The outer option is the \<open>_UNSET\<close> sentinel.\<close>

definition apply_update ::
  "money option \<Rightarrow> date option \<Rightarrow> transaction_type option \<Rightarrow> string option option \<Rightarrow>
   string option option \<Rightarrow> category_id option option \<Rightarrow> datetime \<Rightarrow> transaction \<Rightarrow> transaction" where
  "apply_update amt dt ty merchant notes cat now t =
     (let t1 = (case amt of None \<Rightarrow> t | Some a \<Rightarrow> t\<lparr>tx_amount := a\<rparr>);
          t2 = (case dt of None \<Rightarrow> t1 | Some d \<Rightarrow> t1\<lparr>tx_date := d\<rparr>);
          t3 = (case ty of None \<Rightarrow> t2 | Some y \<Rightarrow> t2\<lparr>tx_type := y\<rparr>);
          t4 = (case merchant of None \<Rightarrow> t3 | Some m \<Rightarrow> t3\<lparr>tx_merchant := m\<rparr>);
          t5 = (case notes of None \<Rightarrow> t4 | Some n \<Rightarrow> t4\<lparr>tx_notes := n\<rparr>);
          t6 = (case cat of None \<Rightarrow> t5 | Some c \<Rightarrow> t5\<lparr>tx_category := c\<rparr>);
          changed = (amt \<noteq> None \<or> dt \<noteq> None \<or> ty \<noteq> None \<or> merchant \<noteq> None \<or> notes \<noteq> None
                     \<or> cat \<noteq> None)
      in if changed then t6\<lparr>tx_updated_at := Some now\<rparr> else t6)"

lemma apply_update_keeps [simp]:
  "tx_id (apply_update amt dt ty me no ca now t) = tx_id t"
  "tx_user (apply_update amt dt ty me no ca now t) = tx_user t"
  "tx_created_at (apply_update amt dt ty me no ca now t) = tx_created_at t"
  "tx_rule (apply_update amt dt ty me no ca now t) = tx_rule t"
  by (simp_all add: apply_update_def Let_def split: option.split)

section \<open>The repository\<close>

definition get_tx_by_id :: "transaction_id \<Rightarrow> user_id \<Rightarrow> ledger \<Rightarrow> transaction option" where
  "get_tx_by_id i u s = find_by (\<lambda>t. tx_id t = i \<and> tx_user t = u) (ld_rows s)"

definition get_by_ids :: "transaction_id list \<Rightarrow> user_id \<Rightarrow> ledger \<Rightarrow> transaction list" where
  "get_by_ids ids u s =
     List.map_filter (\<lambda>i. find_by (\<lambda>t. tx_id t = i) (filter (\<lambda>t. tx_user t = u \<and> tx_id t \<in> set ids) (ld_rows s)))
       ids"

definition save_tx :: "transaction \<Rightarrow> ledger \<Rightarrow> ledger" where
  "save_tx t s = s\<lparr>ld_pending := upsert tx_id t (ld_pending s)\<rparr>"

definition delete_tx :: "transaction_id \<Rightarrow> user_id \<Rightarrow> ledger \<Rightarrow> bool \<times> ledger" where
  "delete_tx i u s =
     (let hit = (\<lambda>t. tx_id t = i \<and> tx_user t = u)
      in (filter hit (ld_rows s) \<noteq> [], s\<lparr>ld_rows := filter (\<lambda>t. \<not> hit t) (ld_rows s)\<rparr>))"

definition record_event :: "audit_event_type \<Rightarrow> user_id \<Rightarrow> datetime \<Rightarrow> ledger \<Rightarrow> ledger" where
  "record_event ty u now s =
     s\<lparr>ld_audit := ld_audit s @ [\<lparr>ev_type = ty, ev_user = Some u, ev_at = now, ev_ip = None,
       ev_user_agent = None\<rparr>]\<rparr>"

section \<open>SqlaQuotaCheck\<close>

definition plan_limit :: "plan \<Rightarrow> quota_resource \<Rightarrow> nat" where
  "plan_limit p r = (case p of
       FREE \<Rightarrow> (case r of Q_TRANSACTIONS \<Rightarrow> 500 | Q_INSIGHTS \<Rightarrow> 30)
     | DEMO \<Rightarrow> (case r of Q_TRANSACTIONS \<Rightarrow> 5000 | Q_INSIGHTS \<Rightarrow> 300))"

definition month_start :: "int \<Rightarrow> int \<Rightarrow> datetime" where
  "month_start y m = (Date y m 1, 0)"

definition next_month_start :: "int \<Rightarrow> int \<Rightarrow> datetime" where
  "next_month_start y m = (if m = 12 then month_start (y + 1) 1 else month_start y (m + 1))"

definition count_in_month :: "('r \<Rightarrow> user_id) \<Rightarrow> ('r \<Rightarrow> datetime) \<Rightarrow> user_id \<Rightarrow> int \<Rightarrow> int \<Rightarrow> 'r list \<Rightarrow> nat" where
  "count_in_month owner created u y m rows =
     length (filter (\<lambda>r. owner r = u \<and> month_start y m \<le> created r \<and> created r < next_month_start y m) rows)"

definition check_quota ::
  "('r \<Rightarrow> user_id) \<Rightarrow> ('r \<Rightarrow> datetime) \<Rightarrow> quota_resource \<Rightarrow> user_id \<Rightarrow> plan \<Rightarrow> datetime \<Rightarrow> 'r list \<Rightarrow> exn + unit"
  where
  "check_quota owner created resource u p now rows =
     (let limit = plan_limit p resource;
          n = count_in_month owner created u (date_year (fst now)) (date_month (fst now)) rows
      in if n \<ge> limit then Inl (QuotaExceededError resource (n + 1) limit) else Inr ())"

section \<open>CreateTransactionUseCase\<close>

record create_transaction_command =
  ct_user :: user_id
  ct_raw_amount :: string
  ct_currency :: string
  ct_date :: date
  ct_type :: string
  ct_merchant :: "string option"
  ct_notes :: "string option"
  ct_raw_category :: "string option"
  ct_rule :: "recurring_rule_id option"

definition truthy :: "string option \<Rightarrow> bool" where
  "truthy s = (s \<noteq> None \<and> s \<noteq> Some [])"

definition category_id_of :: "string \<Rightarrow> exn + category_id" where
  "category_id_of raw = (case parse_uuid raw of None \<Rightarrow> Inl ValueError | Some u \<Rightarrow> Inr (CategoryId u))"

definition optional_category :: "string option \<Rightarrow> exn + category_id option" where
  "optional_category raw =
     (if truthy raw then bindR (category_id_of (the raw)) (\<lambda>c. Inr (Some c)) else Inr None)"

definition check_assignable :: "category_id option \<Rightarrow> user_id \<Rightarrow> category list \<Rightarrow> exn + unit" where
  "check_assignable ci u cats =
     (case ci of
        None \<Rightarrow> Inr ()
      | Some i \<Rightarrow>
          (case get_by_id_for_user i u cats of
             None \<Rightarrow> Inr ()
           | Some cat \<Rightarrow> validate_assignable cat))"

definition create_transaction ::
  "(user_id \<Rightarrow> plan) \<Rightarrow> create_transaction_command \<Rightarrow> transaction_id \<Rightarrow> datetime \<Rightarrow> ledger \<Rightarrow>
     exn + transaction_id \<times> ledger" where
  "create_transaction plan_of cmd new_id now s =
     bindR (check_quota tx_user tx_created_at Q_TRANSACTIONS (ct_user cmd) (plan_of (ct_user cmd)) now
              (ld_rows s)) (\<lambda>_.
     bindR (mk_currency (ct_currency cmd)) (\<lambda>cur.
     bindR (money_from_string (ct_raw_amount cmd) cur) (\<lambda>money.
     bindR (transaction_type_of (ct_type cmd)) (\<lambda>ty.
     bindR (optional_category (ct_raw_category cmd)) (\<lambda>ci.
     bindR (check_assignable ci (ct_user cmd) (ld_categories s)) (\<lambda>_.
       (let t = \<lparr>tx_id = new_id, tx_user = ct_user cmd, tx_amount = money, tx_date = ct_date cmd,
                 tx_type = ty, tx_merchant = ct_merchant cmd, tx_notes = ct_notes cmd,
                 tx_category = ci, tx_created_at = now, tx_updated_at = None, tx_rule = ct_rule cmd\<rparr>
        in Inr (new_id, record_event TRANSACTION_CREATED (ct_user cmd) now (save_tx t s)))))))))"

section \<open>UpdateTransactionUseCase, DeleteTransactionUseCase, GetTransactionUseCase\<close>

record update_transaction_command =
  ut_user :: user_id
  ut_transaction :: string
  ut_fields :: "string list"
  ut_raw_amount :: "string option"
  ut_currency :: "string option"
  ut_date :: "date option"
  ut_type :: "string option"
  ut_merchant :: "string option"
  ut_notes :: "string option"
  ut_raw_category :: "string option"

definition updated_amount :: "update_transaction_command \<Rightarrow> transaction \<Rightarrow> exn + money option" where
  "updated_amount cmd t =
     (if ''amount'' \<in> set (ut_fields cmd) \<or> ''currency'' \<in> set (ut_fields cmd)
      then bindR (if truthy (ut_currency cmd) then mk_currency (the (ut_currency cmd))
                  else Inr (currency (tx_amount t)))
             (\<lambda>cur. bindR (if truthy (ut_raw_amount cmd)
                          then money_from_string (the (ut_raw_amount cmd)) cur
                          else mk_money (amount (tx_amount t)) cur) (\<lambda>m. Inr (Some m)))
      else Inr None)"

definition update_transaction ::
  "update_transaction_command \<Rightarrow> datetime \<Rightarrow> ledger \<Rightarrow> exn + ledger" where
  "update_transaction cmd now s =
     (if ut_fields cmd = [] then Inr s
      else case parse_uuid (ut_transaction cmd) of
        None \<Rightarrow> Inl ValueError
      | Some u \<Rightarrow>
        (case get_tx_by_id (TransactionId u) (ut_user cmd) s of
           None \<Rightarrow> Inl TransactionNotFoundError
         | Some t \<Rightarrow>
             bindR (if ''category_id'' \<in> set (ut_fields cmd) \<and> ut_raw_category cmd \<noteq> None
                    then bindR (category_id_of (the (ut_raw_category cmd)))
                           (\<lambda>ci. check_assignable (Some ci) (ut_user cmd) (ld_categories s))
                    else Inr ()) (\<lambda>_.
             bindR (updated_amount cmd t) (\<lambda>amt.
             bindR (if ''type'' \<in> set (ut_fields cmd) \<and> truthy (ut_type cmd)
                    then bindR (transaction_type_of (the (ut_type cmd))) (\<lambda>y. Inr (Some y))
                    else Inr None) (\<lambda>ty.
             bindR (if ''category_id'' \<in> set (ut_fields cmd)
                    then bindR (optional_category (ut_raw_category cmd)) (\<lambda>c. Inr (Some c))
                    else Inr None) (\<lambda>ca.
               (let t' = apply_update amt
                      (if ''date'' \<in> set (ut_fields cmd) then ut_date cmd else None) ty
                      (if ''merchant'' \<in> set (ut_fields cmd) then Some (ut_merchant cmd) else None)
                      (if ''notes'' \<in> set (ut_fields cmd) then Some (ut_notes cmd) else None) ca now t
                in Inr (record_event TRANSACTION_UPDATED (tx_user t') now (save_tx t' s)))))))))"

definition delete_transaction ::
  "transaction_id \<Rightarrow> user_id \<Rightarrow> datetime \<Rightarrow> ledger \<Rightarrow> exn + ledger" where
  "delete_transaction i u now s =
     (case get_tx_by_id i u s of
        None \<Rightarrow> Inl TransactionNotFoundError
      | Some _ \<Rightarrow> Inr (record_event TRANSACTION_DELETED u now (snd (delete_tx i u s))))"

definition get_transaction :: "transaction_id \<Rightarrow> user_id \<Rightarrow> ledger \<Rightarrow> exn + transaction" where
  "get_transaction i u s =
     (case get_tx_by_id i u s of None \<Rightarrow> Inl TransactionNotFoundError | Some t \<Rightarrow> Inr t)"

section \<open>One request, one unit of work\<close>

definition commit :: "ledger \<Rightarrow> ledger" where
  "commit s = s\<lparr>ld_rows := fold (upsert tx_id) (ld_pending s) (ld_rows s), ld_pending := []\<rparr>"

text \<open>The session provider commits when the handler returns and rolls back when it raises.\<close>

definition run_request :: "(ledger \<Rightarrow> exn + ledger) \<Rightarrow> ledger \<Rightarrow> ledger" where
  "run_request f s = (case f s of Inl _ \<Rightarrow> s | Inr s' \<Rightarrow> commit s')"

datatype tx_request =
    ReqCreate create_transaction_command transaction_id datetime
  | ReqUpdate update_transaction_command datetime
  | ReqDelete transaction_id user_id datetime

fun request_user :: "tx_request \<Rightarrow> user_id" where
  "request_user (ReqCreate cmd _ _) = ct_user cmd"
| "request_user (ReqUpdate cmd _) = ut_user cmd"
| "request_user (ReqDelete _ u _) = u"

fun handle_request :: "(user_id \<Rightarrow> plan) \<Rightarrow> tx_request \<Rightarrow> ledger \<Rightarrow> exn + ledger" where
  "handle_request plan_of (ReqCreate cmd i now) s =
     bindR (create_transaction plan_of cmd i now s) (\<lambda>(_, s'). Inr s')"
| "handle_request plan_of (ReqUpdate cmd now) s = update_transaction cmd now s"
| "handle_request plan_of (ReqDelete i u now) s = delete_transaction i u now s"

text \<open>The identifier generator makes new ids, and the clock gives calendar instants.\<close>

fun fresh_request :: "ledger \<Rightarrow> tx_request \<Rightarrow> bool" where
  "fresh_request s (ReqCreate cmd i now) =
     (i \<notin> tx_id ` set (ld_rows s) \<and> valid_date (fst now) \<and> 0 \<le> snd now)"
| "fresh_request s _ = True"

inductive ledger_reach :: "(user_id \<Rightarrow> plan) \<Rightarrow> ledger \<Rightarrow> bool" for plan_of where
  empty: "ld_rows s = [] \<Longrightarrow> ld_pending s = [] \<Longrightarrow> ledger_reach plan_of s"
| request: "ledger_reach plan_of s \<Longrightarrow>
    fresh_request s r \<Longrightarrow>
    ledger_reach plan_of (run_request (handle_request plan_of r) s)"

section \<open>What a request does to the rows\<close>

lemma create_transaction_Inr:
  assumes "create_transaction plan_of cmd i now s = Inr (j, s')"
  obtains cur m ty ci t where
    "check_quota tx_user tx_created_at Q_TRANSACTIONS (ct_user cmd) (plan_of (ct_user cmd)) now
       (ld_rows s) = Inr ()"
    "mk_currency (ct_currency cmd) = Inr cur" "money_from_string (ct_raw_amount cmd) cur = Inr m"
    "transaction_type_of (ct_type cmd) = Inr ty" "optional_category (ct_raw_category cmd) = Inr ci"
    "check_assignable ci (ct_user cmd) (ld_categories s) = Inr ()"
    "t = \<lparr>tx_id = i, tx_user = ct_user cmd, tx_amount = m, tx_date = ct_date cmd,
          tx_type = ty, tx_merchant = ct_merchant cmd, tx_notes = ct_notes cmd,
          tx_category = ci, tx_created_at = now, tx_updated_at = None, tx_rule = ct_rule cmd\<rparr>"
    "j = i" "s' = record_event TRANSACTION_CREATED (ct_user cmd) now (save_tx t s)"
  using assms by (auto simp: create_transaction_def bindR_Inr_iff Let_def)

lemma get_tx_by_id_Some:
  "get_tx_by_id i u s = Some t \<Longrightarrow> t \<in> set (ld_rows s) \<and> tx_id t = i \<and> tx_user t = u"
  unfolding get_tx_by_id_def by (drule find_by_Some) simp

lemma update_transaction_Inr:
  assumes "update_transaction cmd now s = Inr s'"
  shows "ut_fields cmd = [] \<and> s' = s \<or>
    (\<exists>t t'. get_tx_by_id (tx_id t) (ut_user cmd) s = Some t \<and> tx_id t' = tx_id t \<and>
       tx_user t' = tx_user t \<and> tx_created_at t' = tx_created_at t \<and>
       s' = record_event TRANSACTION_UPDATED (tx_user t') now (save_tx t' s))"
proof (cases "ut_fields cmd = []")
  case True
  then show ?thesis using assms by (simp add: update_transaction_def)
next
  case False
  then obtain u t where t: "get_tx_by_id (TransactionId u) (ut_user cmd) s = Some t"
    using assms by (auto simp: update_transaction_def split: option.splits)
  moreover have "tx_id t = TransactionId u" using get_tx_by_id_Some [OF t] by simp
  moreover obtain u' t1 amt dt ty me no ca where u':
    "get_tx_by_id (TransactionId u') (ut_user cmd) s = Some t1"
    "s' = record_event TRANSACTION_UPDATED (tx_user (apply_update amt dt ty me no ca now t1)) now
        (save_tx (apply_update amt dt ty me no ca now t1) s)"
    using assms False
    by (simp add: update_transaction_def bindR_Inr_iff Let_def split: option.splits) blast
  moreover have "tx_id t1 = TransactionId u'" using get_tx_by_id_Some [OF u'(1)] by simp
  ultimately show ?thesis by (metis apply_update_keeps)
qed

lemma commit_save:
  "ld_pending s = [] \<Longrightarrow> ld_rows (commit (record_event ty u now (save_tx t s))) = upsert tx_id t (ld_rows s)"
  by (simp add: commit_def record_event_def save_tx_def upsert_def)

lemma commit_pending [simp]: "ld_pending (commit s) = []"
  by (simp add: commit_def)

lemma count_in_month_snoc:
  "count_in_month ow cr u y m (rows @ [r]) = count_in_month ow cr u y m rows +
     (if ow r = u \<and> month_start y m \<le> cr r \<and> cr r < next_month_start y m then 1 else 0)"
  by (simp add: count_in_month_def)

lemma count_in_month_map:
  assumes "\<And>r. r \<in> set rows \<Longrightarrow> ow (f r) = ow r \<and> cr (f r) = cr r"
  shows "count_in_month ow cr u y m (map f rows) = count_in_month ow cr u y m rows"
  using assms by (induction rows) (auto simp: count_in_month_def)

lemma count_in_month_filter:
  "count_in_month ow cr u y m (filter P rows) \<le> count_in_month ow cr u y m rows"
  by (induction rows) (auto simp: count_in_month_def)

text \<open>A month is the window of its own instants.\<close>

lemma month_window:
  assumes "1 \<le> m" "m \<le> 12" "valid_date (fst now)" "0 \<le> snd now"
  shows "month_start y m \<le> now \<and> now < next_month_start y m \<longleftrightarrow>
    date_year (fst now) = y \<and> date_month (fst now) = m"
proof -
  obtain y' m' d k where now: "now = (Date y' m' d, k)" by (cases now; cases "fst now") auto
  have v: "1 \<le> m'" "m' \<le> 12" "1 \<le> d" "0 \<le> k" using assms(3,4) now by auto
  show ?thesis
    using assms(1,2) v
    by (auto simp: now month_start_def next_month_start_def less_eq_prod_def less_prod_def)
qed

lemma request_rows:
  assumes "ld_pending s = []" "fresh_request s r"
  shows "ld_rows (run_request (handle_request plan_of r) s) = ld_rows s \<or>
    (\<exists>t. tx_user t = request_user r \<and> tx_id t \<notin> tx_id ` set (ld_rows s) \<and>
       check_quota tx_user tx_created_at Q_TRANSACTIONS (tx_user t) (plan_of (tx_user t))
         (tx_created_at t) (ld_rows s) = Inr () \<and>
       valid_date (fst (tx_created_at t)) \<and> 0 \<le> snd (tx_created_at t) \<and>
       ld_rows (run_request (handle_request plan_of r) s) = ld_rows s @ [t]) \<or>
    (\<exists>t t'. t \<in> set (ld_rows s) \<and> tx_user t = request_user r \<and> tx_id t' = tx_id t \<and>
       tx_user t' = tx_user t \<and> tx_created_at t' = tx_created_at t \<and>
       ld_rows (run_request (handle_request plan_of r) s) =
         map (\<lambda>x. if tx_id x = tx_id t then t' else x) (ld_rows s)) \<or>
    (\<exists>i. ld_rows (run_request (handle_request plan_of r) s) =
         filter (\<lambda>x. \<not> (tx_id x = i \<and> tx_user x = request_user r)) (ld_rows s))"
proof (cases "handle_request plan_of r s")
  case (Inr s')
  show ?thesis
  proof (cases r)
    case (ReqCreate cmd i now)
    then obtain j where c: "create_transaction plan_of cmd i now s = Inr (j, s')"
      using Inr by (auto simp: bindR_Inr_iff)
    show ?thesis
      by (rule create_transaction_Inr [OF c], rule disjI2, rule disjI1)
        (use ReqCreate Inr assms in \<open>auto simp: run_request_def commit_save upsert_def\<close>)
  next
    case (ReqUpdate cmd now)
    then have "update_transaction cmd now s = Inr s'" using Inr by simp
    from update_transaction_Inr [OF this] show ?thesis
    proof (elim disjE exE conjE)
      assume "s' = s"
      then show ?thesis using Inr assms by (simp add: run_request_def commit_def)
    next
      fix t t'
      assume t: "get_tx_by_id (tx_id t) (ut_user cmd) s = Some t" "tx_id t' = tx_id t"
        "tx_user t' = tx_user t" "tx_created_at t' = tx_created_at t"
        "s' = record_event TRANSACTION_UPDATED (tx_user t') now (save_tx t' s)"
      have "t \<in> set (ld_rows s)" "tx_user t = ut_user cmd" using get_tx_by_id_Some [OF t(1)] by auto
      moreover have "ld_rows (run_request (handle_request plan_of r) s) =
          map (\<lambda>x. if tx_id x = tx_id t then t' else x) (ld_rows s)"
        using Inr t assms \<open>t \<in> _\<close> by (auto simp: run_request_def commit_save upsert_def)
      ultimately show ?thesis using ReqUpdate t
        by (intro disjI2 [OF disjI2 [OF disjI1]] exI [of _ t] exI [of _ t']) simp
    qed
  next
    case (ReqDelete i u now)
    then show ?thesis using Inr assms
      by (intro disjI2) (auto simp: run_request_def delete_transaction_def delete_tx_def commit_def
        record_event_def Let_def split: option.splits)
  qed
qed (simp add: run_request_def)

lemma request_pending: "ld_pending s = [] \<Longrightarrow> ld_pending (run_request f s) = []"
  by (simp add: run_request_def split: sum.splits)

definition ledger_inv :: "(user_id \<Rightarrow> plan) \<Rightarrow> ledger \<Rightarrow> bool" where
  "ledger_inv plan_of s = (ld_pending s = [] \<and> distinct (map tx_id (ld_rows s)) \<and>
     (\<forall>u y m. 1 \<le> m \<and> m \<le> 12 \<longrightarrow> count_in_month tx_user tx_created_at u y m (ld_rows s)
        \<le> plan_limit (plan_of u) Q_TRANSACTIONS))"

lemma quota_step:
  assumes "check_quota ow cr R u p now rows = Inr ()" "ow t = u" "cr t = now"
    and "valid_date (fst now)" "0 \<le> snd now" "1 \<le> m" "m \<le> 12"
    and "count_in_month ow cr v y m rows \<le> plan_limit (q v) R" "q u = p"
  shows "count_in_month ow cr v y m (rows @ [t]) \<le> plan_limit (q v) R"
  using assms month_window [OF assms(6,7,4,5)]
  by (auto simp: count_in_month_snoc check_quota_def Let_def split: if_splits)

lemma ledger_inv_request:
  assumes "ledger_inv plan_of s" "fresh_request s r"
  shows "ledger_inv plan_of (run_request (handle_request plan_of r) s)" (is "ledger_inv _ ?s")
proof -
  have p: "ld_pending s = []" "distinct (map tx_id (ld_rows s))"
    and q: "\<And>u y m. 1 \<le> m \<Longrightarrow> m \<le> 12 \<Longrightarrow> count_in_month tx_user tx_created_at u y m (ld_rows s)
        \<le> plan_limit (plan_of u) Q_TRANSACTIONS"
    using assms(1) by (auto simp: ledger_inv_def)
  have uniq: "x = t" if "x \<in> set (ld_rows s)" "t \<in> set (ld_rows s)" "tx_id x = tx_id t" for x t
    using that p(2) by (metis distinct_map inj_onD)
  have "ld_pending ?s = []" using p(1) by (rule request_pending)
  moreover have "distinct (map tx_id (ld_rows ?s))"
    using request_rows [OF p(1) assms(2), of plan_of]
  proof (elim disjE exE conjE)
    fix t t'
    assume "tx_id t' = tx_id t"
      and rows: "ld_rows ?s = map (\<lambda>x. if tx_id x = tx_id t then t' else x) (ld_rows s)"
    then have "map tx_id (ld_rows ?s) = map tx_id (ld_rows s)" by (auto simp: rows)
    then show ?thesis using p(2) by simp
  qed (use p(2) in \<open>auto simp: distinct_map_filter\<close>)
  moreover have "count_in_month tx_user tx_created_at u y m (ld_rows ?s)
        \<le> plan_limit (plan_of u) Q_TRANSACTIONS" if m: "1 \<le> m" "m \<le> 12" for u y m
    using request_rows [OF p(1) assms(2), of plan_of]
  proof (elim disjE exE conjE)
    fix t
    assume a: "check_quota tx_user tx_created_at Q_TRANSACTIONS (tx_user t) (plan_of (tx_user t))
         (tx_created_at t) (ld_rows s) = Inr ()" "valid_date (fst (tx_created_at t))"
      "0 \<le> snd (tx_created_at t)" "ld_rows ?s = ld_rows s @ [t]"
    show ?thesis unfolding a(4)
      by (rule quota_step [where q = plan_of and u = "tx_user t" and t = t, OF a(1) _ _ a(2,3) m q [OF m]])
        simp_all
  next
    fix t t'
    assume t: "t \<in> set (ld_rows s)" "tx_user t' = tx_user t" "tx_created_at t' = tx_created_at t"
      and rows: "ld_rows ?s = map (\<lambda>x. if tx_id x = tx_id t then t' else x) (ld_rows s)"
    have "count_in_month tx_user tx_created_at u y m (ld_rows ?s) =
        count_in_month tx_user tx_created_at u y m (ld_rows s)"
      unfolding rows by (rule count_in_month_map) (use uniq t in auto)
    then show ?thesis using q [OF m] by simp
  next
    fix i
    assume "ld_rows ?s = filter (\<lambda>x. \<not> (tx_id x = i \<and> tx_user x = request_user r)) (ld_rows s)"
    then show ?thesis using q [OF m, of u y] count_in_month_filter le_trans by metis
  qed (use q [OF m] in simp)
  ultimately show ?thesis by (simp add: ledger_inv_def)
qed

lemma ledger_reach_inv: "ledger_reach plan_of s \<Longrightarrow> ledger_inv plan_of s"
proof (induction rule: ledger_reach.induct)
  case (empty s)
  then show ?case by (simp add: ledger_inv_def count_in_month_def)
qed (rule ledger_inv_request)

lemma ledger_reachable_request:
  "ledger_reach plan_of s \<Longrightarrow> fresh_request s r \<Longrightarrow>
     ledger_reach plan_of (run_request (handle_request plan_of r) s)"
  by (rule ledger_reach.request)

section \<open>Properties\<close>

text \<open>C21 In every state that requests reach, one after the other, no user has more transactions
  created in a month than the user's plan allows, and transaction ids are unique.\<close>

theorem monthly_quota_holds:
  assumes "ledger_reach plan_of s" "1 \<le> m" "m \<le> 12"
  shows "count_in_month tx_user tx_created_at u y m (ld_rows s) \<le> plan_limit (plan_of u) Q_TRANSACTIONS \<and>
    distinct (map tx_id (ld_rows s))"
  using ledger_reach_inv [OF assms(1)] assms(2,3) by (simp add: ledger_inv_def)

definition empty_ledger :: ledger where
  "empty_ledger = \<lparr>ld_categories = [], ld_rows = [], ld_pending = [], ld_audit = []\<rparr>"

definition sample_create :: "user_id \<Rightarrow> create_transaction_command" where
  "sample_create u = \<lparr>ct_user = u, ct_raw_amount = ''5'', ct_currency = ''JPY'',
     ct_date = Date 2024 3 1, ct_type = ''expense'', ct_merchant = None, ct_notes = None,
     ct_raw_category = None, ct_rule = None\<rparr>"

definition sample_tx :: "user_id \<Rightarrow> transaction_id \<Rightarrow> transaction" where
  "sample_tx u i = \<lparr>tx_id = i, tx_user = u, tx_amount = Money (Dec False 5 0) (Currency ''JPY'' 0),
     tx_date = Date 2024 3 1, tx_type = TT_EXPENSE, tx_merchant = None, tx_notes = None,
     tx_category = None, tx_created_at = (Date 2024 3 1, 0), tx_updated_at = None, tx_rule = None\<rparr>"

lemma sample_money: "money_from_string ''5'' (Currency ''JPY'' 0) = Inr (Money (Dec False 5 0) (Currency ''JPY'' 0))"
  "mk_currency ''JPY'' = Inr (Currency ''JPY'' 0)"
  by (simp_all add: money_from_string_def parse_decimal_def strip_def is_space_def split_sign_def
        parse_body_def is_digit_def parse_exponent_def digits_val_def digit_val_def mk_money_def
        dec_fix_def nat_str.simps dec_prec_def dec_emin_def dec_emax_def dec_val_def pow10_def
        strip_zeros.simps Let_def mk_currency_def upper_def upper_char_def iso_4217_def)

lemma sample_created:
  "handle_request (\<lambda>_. FREE) (ReqCreate (sample_create u) i (Date 2024 3 1, 0)) empty_ledger =
     Inr (record_event TRANSACTION_CREATED u (Date 2024 3 1, 0) (save_tx (sample_tx u i) empty_ledger))"
  by (simp add: create_transaction_def check_quota_def count_in_month_def empty_ledger_def sample_create_def
      sample_money plan_limit_def transaction_type_of_def optional_category_def truthy_def
      check_assignable_def sample_tx_def Let_def)

lemma sample_reach:
  "ledger_reach (\<lambda>_. FREE) (run_request (handle_request (\<lambda>_. FREE)
     (ReqCreate (sample_create u) i (Date 2024 3 1, 0))) empty_ledger)"
  by (intro ledger_reach.request ledger_reach.empty)
    (simp_all add: empty_ledger_def days_in_month_def)

lemma monthly_quota_holds_witness:
  "count_in_month tx_user tx_created_at (UserId 1) 2024 3 (ld_rows (run_request (handle_request (\<lambda>_. FREE)
     (ReqCreate (sample_create (UserId 1)) (TransactionId 7) (Date 2024 3 1, 0))) empty_ledger)) \<le> 500"
  using monthly_quota_holds [OF sample_reach [of "UserId 1" "TransactionId 7"], of 3 "UserId 1" 2024]
  by (simp add: plan_limit_def)

text \<open>A create, update or delete request of one user leaves every other user's transactions
  exactly as they are, in any state whose ids are unique.\<close>

theorem requests_isolate_users:
  assumes "ld_pending s = []" "distinct (map tx_id (ld_rows s))" "fresh_request s r"
  shows "filter (\<lambda>t. tx_user t \<noteq> request_user r) (ld_rows (run_request (handle_request plan_of r) s)) =
    filter (\<lambda>t. tx_user t \<noteq> request_user r) (ld_rows s)"
  using request_rows [OF assms(1,3), of plan_of]
proof (elim disjE exE conjE)
  fix t t'
  assume t: "t \<in> set (ld_rows s)" "tx_user t = request_user r" "tx_user t' = tx_user t"
    and rows: "ld_rows (run_request (handle_request plan_of r) s) =
      map (\<lambda>x. if tx_id x = tx_id t then t' else x) (ld_rows s)"
  have "x = t" if "x \<in> set (ld_rows s)" "tx_id x = tx_id t" for x
    using that t(1) assms(2) by (metis distinct_map inj_onD)
  then have "filter (\<lambda>t. tx_user t \<noteq> request_user r) (map (\<lambda>x. if tx_id x = tx_id t then t' else x) xs) =
      filter (\<lambda>t. tx_user t \<noteq> request_user r) xs" if "set xs \<subseteq> set (ld_rows s)" for xs
    using that t(2,3) by (induction xs) auto
  then show ?thesis unfolding rows by simp
next
  fix i
  assume "ld_rows (run_request (handle_request plan_of r) s) =
      filter (\<lambda>x. \<not> (tx_id x = i \<and> tx_user x = request_user r)) (ld_rows s)"
  then show ?thesis by (simp add: conj_commute) (rule filter_cong; auto)
qed (auto simp: filter_append)

lemma requests_isolate_users_witness:
  "filter (\<lambda>t. tx_user t \<noteq> UserId 1) (ld_rows (run_request (handle_request (\<lambda>_. FREE)
     (ReqDelete (TransactionId 7) (UserId 1) (Date 2024 3 1, 0)))
     (empty_ledger\<lparr>ld_rows := [sample_tx (UserId 2) (TransactionId 7)]\<rparr>))) =
   [sample_tx (UserId 2) (TransactionId 7)]"
  using requests_isolate_users [of "empty_ledger\<lparr>ld_rows := [sample_tx (UserId 2) (TransactionId 7)]\<rparr>"
      "ReqDelete (TransactionId 7) (UserId 1) (Date 2024 3 1, 0)" "\<lambda>_. FREE"]
  by (simp add: empty_ledger_def sample_tx_def)

text \<open>A transaction of another user can be neither read, changed nor deleted: each of the three
  use cases raises \<open>TransactionNotFoundError\<close>, and the failed request leaves the ledger, its audit
  trail included, as it was.\<close>

theorem foreign_transaction_not_found:
  assumes "\<forall>t\<in>set (ld_rows s). tx_id t = TransactionId k \<longrightarrow> tx_user t \<noteq> u"
    and "ut_user cmd = u" "parse_uuid (ut_transaction cmd) = Some k" "ut_fields cmd \<noteq> []"
  shows "get_transaction (TransactionId k) u s = Inl TransactionNotFoundError \<and>
    delete_transaction (TransactionId k) u now s = Inl TransactionNotFoundError \<and>
    update_transaction cmd now s = Inl TransactionNotFoundError \<and>
    run_request (handle_request plan_of (ReqDelete (TransactionId k) u now)) s = s \<and>
    run_request (handle_request plan_of (ReqUpdate cmd now)) s = s"
proof -
  have "get_tx_by_id (TransactionId k) u s = None"
    using assms(1) by (auto simp: get_tx_by_id_def find_by_None)
  then show ?thesis
    using assms(2-4) by (simp add: get_transaction_def delete_transaction_def update_transaction_def run_request_def)
qed

lemma foreign_transaction_not_found_witness:
  "get_transaction (TransactionId 0) (UserId 1) (empty_ledger\<lparr>ld_rows := [sample_tx (UserId 2) (TransactionId 0)]\<rparr>) =
     Inl TransactionNotFoundError"
proof -
  have "parse_uuid (uuid_str 0) = Some 0" by (rule parse_uuid_str) simp
  then show ?thesis
    using foreign_transaction_not_found
      [of "empty_ledger\<lparr>ld_rows := [sample_tx (UserId 2) (TransactionId 0)]\<rparr>" 0 "UserId 1"
        "\<lparr>ut_user = UserId 1, ut_transaction = uuid_str 0, ut_fields = [''notes''], ut_raw_amount = None,
          ut_currency = None, ut_date = None, ut_type = None, ut_merchant = None, ut_notes = None,
          ut_raw_category = None\<rparr>"]
    by (simp add: empty_ledger_def sample_tx_def)
qed

text \<open>A transaction may be filed under a category the user cannot see: the check that a category
  is not a group runs only when the category is visible, so another user's group category is
  stored although the user's own group would be refused.\<close>

theorem invisible_category_accepted:
  "check_assignable (Some (CategoryId 1)) (UserId 1) [sample_group] = Inl (CategoryIsGroupError (CategoryId 1)) \<and>
   check_assignable (Some (CategoryId 1)) (UserId 2) [sample_group] = Inr () \<and>
   \<not> category_visible (UserId 2) sample_group"
  by (simp add: check_assignable_def get_by_id_for_user_def sample_group_def category_visible_def
      validate_assignable_def is_group_def)

end
