(* ===== verification/PyNum.thy ===== *)
theory PyNum
  imports PyDecimal
begin

text \<open>Arithmetic of \<open>decimal.Decimal\<close> in the default context (28 digits, half to even) and of Python
  floats.  A finite float is its rational value; every float operation is the exact result rounded by
  \<open>fl\<close> to 53 bits, half to even, as IEEE binary64 prescribes.  Two things are outside: an exponent
  beyond the context or the float range (an amount of the application has at most 19 digits and is far from
  it; there the decimal operations give NaN here instead of raising), and infinities.  The statistics
  functions \<open>mean\<close> and \<open>pstdev\<close> compute exactly and round once.\<close>

section \<open>Decimal arithmetic\<close>

definition dec_zero :: decimal where "dec_zero = Dec False 0 0"

definition dec_rounded :: "bool \<Rightarrow> nat \<Rightarrow> int \<Rightarrow> decimal" where
  "dec_rounded s c e = (case dec_fix s c e of None \<Rightarrow> NotANumber | Some (c', e') \<Rightarrow> Dec s c' e')"

definition signed_coeff :: "bool \<Rightarrow> nat \<Rightarrow> int \<Rightarrow> int \<Rightarrow> int" where
  "signed_coeff s c e e' = (if s then - 1 else 1) * int c * 10 ^ nat (e - e')"

fun dec_add :: "decimal \<Rightarrow> decimal \<Rightarrow> decimal" where
  "dec_add (Dec s c e) (Dec s' c' e') =
     (let m = min e e'; r = signed_coeff s c e m + signed_coeff s' c' e' m
      in dec_rounded (if r = 0 then s \<and> s' else r < 0) (nat \<bar>r\<bar>) m)"
| "dec_add _ _ = NotANumber"

fun dec_minus :: "decimal \<Rightarrow> decimal" where
  "dec_minus (Dec s c e) = Dec (\<not> s) c e"
| "dec_minus d = d"

definition dec_sub :: "decimal \<Rightarrow> decimal \<Rightarrow> decimal" where
  "dec_sub a b = dec_add a (dec_minus b)"

fun dec_abs :: "decimal \<Rightarrow> decimal" where
  "dec_abs (Dec s c e) = dec_rounded False c e"
| "dec_abs (Infinite s) = Infinite False"
| "dec_abs NotANumber = NotANumber"

fun dec_mul :: "decimal \<Rightarrow> decimal \<Rightarrow> decimal" where
  "dec_mul (Dec s c e) (Dec s' c' e') = dec_rounded (s \<noteq> s') (c * c') (e + e')"
| "dec_mul _ _ = NotANumber"

function strip_to :: "nat \<Rightarrow> int \<Rightarrow> int \<Rightarrow> nat \<times> int" where
  "strip_to c e ideal = (if e < ideal \<and> c mod 10 = 0 then strip_to (c div 10) (e + 1) ideal else (c, e))"
  by pat_completeness auto

termination by (relation "measure (\<lambda>(c, e, ideal). nat (ideal - e))") auto

declare strip_to.simps [simp del]

text \<open>Long division to 29 or 30 digits with a sticky last digit, then one rounding; an exact quotient is
  stripped towards the ideal exponent.\<close>

fun dec_div :: "decimal \<Rightarrow> decimal \<Rightarrow> decimal" where
  "dec_div (Dec s c e) (Dec s' c' e') =
     (if c' = 0 then NotANumber
      else if c = 0 then dec_rounded (s \<noteq> s') 0 (e - e')
      else (let shift = int (length (nat_str c')) - int (length (nat_str c)) + dec_prec + 1;
                n = c * 10 ^ nat shift; m = c' * 10 ^ nat (- shift);
                q = n div m; x = e - e' - shift
            in if n mod m \<noteq> 0 then dec_rounded (s \<noteq> s') (if q mod 5 = 0 then q + 1 else q) x
               else (case strip_to q x (e - e') of (q', x') \<Rightarrow> dec_rounded (s \<noteq> s') q' x')))"
| "dec_div _ _ = NotANumber"

definition dec_of_nat :: "nat \<Rightarrow> decimal" where
  "dec_of_nat n = Dec False n 0"

definition dec_sum :: "decimal list \<Rightarrow> decimal" where
  "dec_sum = foldl dec_add dec_zero"

definition dec_max :: "decimal list \<Rightarrow> decimal" where
  "dec_max ds = (case ds of [] \<Rightarrow> dec_zero
     | d # ds' \<Rightarrow> foldl (\<lambda>m x. if dec_val m < dec_val x then x else m) d ds')"

section \<open>Floats\<close>

type_synonym pyfloat = rat

fun bit_length :: "nat \<Rightarrow> nat" where
  "bit_length n = (if n = 0 then 0 else Suc (bit_length (n div 2)))"

declare bit_length.simps [simp del]

definition pow2 :: "int \<Rightarrow> rat" where
  "pow2 e = (if 0 \<le> e then 2 ^ nat e else 1 / 2 ^ nat (- e))"

definition round_even :: "rat \<Rightarrow> int" where
  "round_even x = (let n = \<lfloor>x\<rfloor>; r = x - of_int n in if r > 1 / 2 \<or> r = 1 / 2 \<and> odd n then n + 1 else n)"

text \<open>The exponent of the last bit: the value divided by its power lies between 2 to the 52 and 2 to the 53.\<close>

definition float_exp :: "rat \<Rightarrow> int" where
  "float_exp x = (let (p, q) = quotient_of \<bar>x\<bar>;
       k = int (bit_length (nat p)) - int (bit_length (nat q)) - 53
     in max (if \<bar>x\<bar> < pow2 (k + 53) then k else k + 1) (- 1074))"

definition fl :: "rat \<Rightarrow> pyfloat" where
  "fl x = (if x = 0 then 0 else of_int (round_even (x / pow2 (float_exp x))) * pow2 (float_exp x))"

definition float_of_dec :: "decimal \<Rightarrow> pyfloat" where
  "float_of_dec d = fl (dec_val d)"

definition mean :: "pyfloat list \<Rightarrow> pyfloat" where
  "mean xs = fl (sum_list xs / of_nat (length xs))"

fun isqrt :: "nat \<Rightarrow> nat" where
  "isqrt n = (if n = 0 then 0 else (let r = 2 * isqrt (n div 4) in if (r + 1)\<^sup>2 \<le> n then r + 1 else r))"

declare isqrt.simps [simp del]

text \<open>The correctly rounded square root of a rational.\<close>

definition float_sqrt :: "rat \<Rightarrow> pyfloat" where
  "float_sqrt y = (if y \<le> 0 then 0
     else (let k = (float_exp y + 52) div 2 - 52; z = y / (pow2 k)\<^sup>2;
               n = isqrt (nat \<lfloor>z\<rfloor>); h = (of_nat n + 1 / 2)\<^sup>2
           in of_nat (if z > h \<or> z = h \<and> odd n then n + 1 else n) * pow2 k))"

definition pstdev :: "pyfloat list \<Rightarrow> pyfloat" where
  "pstdev xs = (let n = of_nat (length xs); mu = sum_list xs / n
     in float_sqrt (sum_list (map (\<lambda>x. (x - mu)\<^sup>2) xs) / n))"

section \<open>Formatting\<close>

definition fixed_str :: "nat \<Rightarrow> nat \<Rightarrow> string" where
  "fixed_str m n =
     (let ds = nat_str m; ds' = replicate (n + 1 - length ds) (CHR ''0'') @ ds; k = length ds' - n
      in if n = 0 then ds' else take k ds' @ ''.'' @ drop k ds')"

text \<open>The format \<open>.nf\<close> of a number with this value.\<close>

definition format_fixed :: "nat \<Rightarrow> rat \<Rightarrow> string" where
  "format_fixed n x = (if x < 0 then ''-'' else []) @ fixed_str (nat (round_even (\<bar>x\<bar> * 10 ^ n))) n"

text \<open>Number of digits before the decimal point.\<close>

definition dec_mag :: "rat \<Rightarrow> int" where
  "dec_mag x = (let (p, q) = quotient_of x; k = int (length (nat_str (nat p))) - int (length (nat_str (nat q)))
     in if x < pow10 k then k else k + 1)"

definition shortest_at :: "rat \<Rightarrow> nat \<Rightarrow> (nat \<times> int) option" where
  "shortest_at x n =
     (let e = dec_mag x - int n; c = nat \<lfloor>x / pow10 e\<rfloor>
      in case filter (\<lambda>m. fl (of_nat m * pow10 e) = x) [c, c + 1] of
           [] \<Rightarrow> None
         | [m] \<Rightarrow> Some (m, e)
         | m # m' # _ \<Rightarrow> Some (if x - of_nat m * pow10 e \<le> of_nat m' * pow10 e - x then m else m', e))"

fun shortest_from :: "rat \<Rightarrow> nat list \<Rightarrow> nat \<times> int" where
  "shortest_from x [] = (0, 0)"
| "shortest_from x (n # ns) = (case shortest_at x n of None \<Rightarrow> shortest_from x ns | Some r \<Rightarrow> r)"

text \<open>Seventeen digits always suffice.\<close>

definition shortest :: "rat \<Rightarrow> nat \<times> int" where
  "shortest x = shortest_from x [1..<18]"

definition float_repr :: "pyfloat \<Rightarrow> string" where
  "float_repr x = (if x < 0 then ''-'' else []) @
     (if x = 0 then ''0.0''
      else (let (m, e) = shortest \<bar>x\<bar>; ds = nat_str m; point = int (length ds) + e
            in if - 4 < point \<and> point \<le> 16
               then (if 0 \<le> e then ds @ replicate (nat e) (CHR ''0'') @ ''.0'' else fixed_str m (nat (- e)))
               else (let x10 = point - 1; es = nat_str (nat \<bar>x10\<bar>)
                     in take 1 ds @ (if length ds > 1 then ''.'' @ drop 1 ds else []) @ ''e'' @
                        (if x10 < 0 then ''-'' else ''+'') @ (if length es < 2 then ''0'' @ es else es))))"

text \<open>\<open>Decimal(str(x))\<close>.\<close>

definition dec_of_float :: "pyfloat \<Rightarrow> decimal" where
  "dec_of_float x = (case parse_decimal (float_repr x) of None \<Rightarrow> NotANumber | Some d \<Rightarrow> d)"

definition round_digits :: "pyfloat \<Rightarrow> nat \<Rightarrow> pyfloat" where
  "round_digits x n = fl (of_int (round_even (x * 10 ^ n)) / 10 ^ n)"

section \<open>Exact sums of amounts\<close>

text \<open>Lengths of digit strings bound the numbers they print.\<close>

lemma nat_str_bound: "n < 10 ^ k \<Longrightarrow> 0 < k \<Longrightarrow> length (nat_str n) \<le> k"
proof (induction k arbitrary: n)
  case (Suc k)
  show ?case
  proof (cases "n < 10")
    case False
    then have "n div 10 < 10 ^ k" using Suc.prems by (simp add: less_mult_imp_div_less mult.commute)
    moreover from this False have "0 < k" by (cases k) auto
    ultimately have "length (nat_str (n div 10)) \<le> k" by (rule Suc.IH)
    then show ?thesis using False by (subst nat_str.simps) simp
  qed (simp add: nat_str.simps)
qed simp

lemma dec_rounded_exact:
  assumes "n < 10 ^ 28" "- 100 \<le> e" "e \<le> 100"
  shows "dec_rounded s n e = Dec s n e"
proof (cases "n = 0")
  case True
  then show ?thesis using assms
    by (simp add: dec_rounded_def dec_fix_def dec_emin_def dec_emax_def dec_prec_def)
next
  case False
  have "length (nat_str n) \<le> 28" using nat_str_bound [of n 28] assms(1) by simp
  then have "context_exact n e" using False assms
    by (simp add: context_exact_def dec_prec_def dec_emin_def dec_emax_def)
  then show ?thesis by (simp add: dec_rounded_def dec_fix_exact)
qed

text \<open>An amount as a NUMERIC(19, 4) column returns it, in ten-thousandths.\<close>

definition db_amount :: "decimal \<Rightarrow> bool" where
  "db_amount d = (\<exists>c. d = Dec False c (- 4) \<and> c < 10 ^ 19)"

definition myriads :: "decimal \<Rightarrow> nat" where
  "myriads d = dec_coeff d"

lemma dec_val_Dec4: "dec_val (Dec s c (- 4)) = (if s then - 1 else 1) * of_nat c / 10000"
  by (simp add: dec_val_def pow10_def)

lemma dec_add_four:
  assumes "a + b < 10 ^ 28"
  shows "dec_add (Dec False a (- 4)) (Dec False b (- 4)) = Dec False (a + b) (- 4)"
    "dec_add dec_zero (Dec False b (- 4)) = Dec False b (- 4)"
proof -
  have "nat \<bar>int a + int b\<bar> = a + b" by simp
  then show "dec_add (Dec False a (- 4)) (Dec False b (- 4)) = Dec False (a + b) (- 4)"
    using dec_rounded_exact [OF assms, of "- 4"] by (simp add: signed_coeff_def Let_def nat_int_add)
  show "dec_add dec_zero (Dec False b (- 4)) = Dec False b (- 4)"
    using dec_rounded_exact [of b "- 4"] assms by (simp add: dec_zero_def signed_coeff_def Let_def)
qed

lemma foldl_dec_add:
  assumes "list_all db_amount ds" "a + sum_list (map myriads ds) < 10 ^ 28"
  shows "foldl dec_add (Dec False a (- 4)) ds = Dec False (a + sum_list (map myriads ds)) (- 4)"
  using assms
proof (induction ds arbitrary: a)
  case (Cons d ds)
  obtain c where c: "d = Dec False c (- 4)" using Cons.prems(1) by (auto simp: db_amount_def)
  then have "a + c < 10 ^ 28" using Cons.prems(2) by (simp add: myriads_def)
  then show ?case using Cons c dec_add_four(1) [of a c]
    by (simp add: myriads_def add.assoc)
qed simp

lemma myriads_bound:
  "list_all db_amount ds \<Longrightarrow> length ds \<le> 10 ^ 8 \<Longrightarrow> sum_list (map myriads ds) < 10 ^ 28"
proof -
  assume "list_all db_amount ds" "length ds \<le> 10 ^ 8"
  then have "sum_list (map myriads ds) \<le> length ds * 10 ^ 19"
  proof (induction ds)
    case (Cons d ds)
    then have "myriads d \<le> 10 ^ 19" by (auto simp: db_amount_def myriads_def)
    then show ?case using Cons by simp
  qed simp
  moreover have "length ds * 10 ^ 19 \<le> 10 ^ 8 * 10 ^ 19"
    using \<open>length ds \<le> 10 ^ 8\<close> by (rule mult_le_mono1)
  ultimately show ?thesis by simp
qed

lemma dec_sum_exact:
  assumes "list_all db_amount ds" "length ds \<le> 10 ^ 8" "ds \<noteq> []"
  shows "dec_sum ds = Dec False (sum_list (map myriads ds)) (- 4)"
proof -
  obtain d ds' where ds: "ds = d # ds'" using assms(3) by (cases ds) auto
  obtain c where c: "d = Dec False c (- 4)" "c < 10 ^ 19" using assms(1) by (auto simp: ds db_amount_def)
  have "dec_add dec_zero d = Dec False c (- 4)"
    using dec_add_four(2) [of 0 c] c by simp
  moreover have "c + sum_list (map myriads ds') < 10 ^ 28"
    using myriads_bound [OF assms(1,2)] by (simp add: ds c myriads_def)
  ultimately show ?thesis
    using foldl_dec_add [of ds' c] assms(1) by (simp add: dec_sum_def ds c myriads_def)
qed

lemma db_amount_val: "db_amount d \<Longrightarrow> dec_val d = of_nat (myriads d) / 10000"
  by (auto simp: db_amount_def myriads_def dec_val_Dec4)

lemma dec_sum_val:
  assumes "list_all db_amount ds" "length ds \<le> 10 ^ 8"
  shows "dec_val (dec_sum ds) = sum_list (map dec_val ds)"
proof (cases "ds = []")
  case False
  have "sum_list (map dec_val ds) = of_nat (sum_list (map myriads ds)) / 10000"
    using assms(1) by (induction ds) (simp_all add: db_amount_val add_divide_distrib)
  then show ?thesis using dec_sum_exact [OF assms False] by (simp add: dec_val_Dec4)
qed (simp add: dec_sum_def dec_zero_def dec_val_def)

text \<open>The difference of two totals is exact as well.\<close>

definition total_dec :: "decimal \<Rightarrow> bool" where
  "total_dec d \<longleftrightarrow> d = dec_zero \<or> (\<exists>n. d = Dec False n (- 4) \<and> n < 10 ^ 28)"

lemma dec_sum_total:
  "list_all db_amount ds \<Longrightarrow> length ds \<le> 10 ^ 8 \<Longrightarrow> total_dec (dec_sum ds)"
proof (cases "ds = []")
  case False
  assume "list_all db_amount ds" "length ds \<le> 10 ^ 8"
  then show ?thesis using dec_sum_exact [OF _ _ False] myriads_bound [of ds] by (simp add: total_dec_def)
qed (simp add: dec_sum_def total_dec_def)

lemma total_dec_cases:
  assumes "total_dec d"
  obtains n e where "d = Dec False n e" "e = 0 \<and> n = 0 \<or> e = - 4 \<and> n < 10 ^ 28"
  using assms by (auto simp: total_dec_def dec_zero_def)

lemma dec_sub_val:
  assumes "total_dec a" "total_dec b"
  shows "dec_val (dec_sub a b) = dec_val a - dec_val b"
proof -
  obtain n e where a: "a = Dec False n e" and e: "e = 0 \<and> n = 0 \<or> e = - 4 \<and> n < 10 ^ 28"
    using assms(1) by (rule total_dec_cases)
  obtain m f where b: "b = Dec False m f" and f: "f = 0 \<and> m = 0 \<or> f = - 4 \<and> m < 10 ^ 28"
    using assms(2) by (rule total_dec_cases)
  have n: "n < 10 ^ 28" and m: "m < 10 ^ 28" using e f by auto
  define r where "r = int n - int m"
  define x where "x = min e f"
  have sc: "signed_coeff False n e x = int n" "signed_coeff True m f x = - int m"
    using e f by (auto simp: signed_coeff_def x_def)
  have r: "nat \<bar>r\<bar> < 10 ^ 28" using n m by (simp add: r_def)
  have x: "- 100 \<le> x" "x \<le> 100" using e f by (auto simp: x_def)
  have "dec_sub a b = Dec (r < 0) (nat \<bar>r\<bar>) x"
    using dec_rounded_exact [OF r x, of "r < 0"] dec_rounded_exact [of 0 x False] x sc
    by (simp add: dec_sub_def a b Let_def x_def [symmetric] r_def)
  moreover have "(if r < 0 then - 1 else 1) * of_nat (nat \<bar>r\<bar>) = (of_int r :: rat)"
    by simp
  moreover have "of_int r * pow10 x = of_nat n * pow10 e - of_nat m * pow10 f"
    using e f by (auto simp: r_def x_def algebra_simps)
  ultimately show ?thesis by (simp add: a b dec_val_def)
qed

section \<open>Signs survive rounding\<close>

lemma pow2_pos [simp]: "0 < pow2 e"
  by (simp add: pow2_def)

lemma pow10_sign [simp]: "pow10 e \<noteq> 0" "\<not> pow10 e < 0" "0 \<le> pow10 e"
  using pow10_pos [of e] by linarith+

lemma round_even_sign: "0 \<le> x \<Longrightarrow> 0 \<le> round_even x" "x \<le> 0 \<Longrightarrow> round_even x \<le> 0"
proof -
  show "0 \<le> x \<Longrightarrow> 0 \<le> round_even x" by (auto simp: round_even_def Let_def)
  assume "x \<le> 0"
  then have "\<lfloor>x\<rfloor> \<le> 0" "\<lfloor>x\<rfloor> = 0 \<Longrightarrow> x = 0" by linarith+
  then show "round_even x \<le> 0" by (cases "\<lfloor>x\<rfloor> = 0") (auto simp: round_even_def Let_def)
qed

lemma fl_sign: "0 \<le> x \<Longrightarrow> 0 \<le> fl x" "x \<le> 0 \<Longrightarrow> fl x \<le> 0"
  by (auto simp: fl_def less_imp_le intro!: mult_nonneg_nonneg mult_nonpos_nonneg round_even_sign
      divide_nonneg_pos divide_nonpos_pos)

lemma fl_pos_imp: "0 < fl x \<Longrightarrow> 0 < x" "fl x < 0 \<Longrightarrow> x < 0"
  using fl_sign [of x] by linarith+

lemma dec_rounded_sign:
  "\<not> s \<Longrightarrow> 0 \<le> dec_val (dec_rounded s c e)" "s \<Longrightarrow> dec_val (dec_rounded s c e) \<le> 0"
  "dec_val (dec_rounded s 0 e) = 0"
  by (auto simp: dec_rounded_def dec_val_def less_imp_le dec_fix_def split: option.splits)

lemma signed_coeff_val: "m \<le> e \<Longrightarrow> of_int (signed_coeff s c e m) * pow10 m = dec_val (Dec s c e)"
proof -
  assume "m \<le> e"
  then obtain k where k: "e = m + int k" using zle_iff_zadd by blast
  show ?thesis unfolding k by (simp add: signed_coeff_def dec_val_def pow10_add)
qed

lemma dec_add_sign:
  assumes "dec_val (dec_add a b) \<noteq> 0"
  shows "0 < dec_val (dec_add a b) \<longleftrightarrow> 0 < dec_val a + dec_val b" "dec_val a + dec_val b \<noteq> 0"
proof -
  obtain s c e s' c' e' where ab: "a = Dec s c e" "b = Dec s' c' e'"
    using assms by (cases a; cases b) (auto simp: dec_val_def)
  define m where "m = min e e'"
  define r where "r = signed_coeff s c e m + signed_coeff s' c' e' m"
  have sum: "dec_val a + dec_val b = of_int r * pow10 m"
    by (simp add: ab r_def distrib_right signed_coeff_val m_def)
  have add: "dec_add a b = dec_rounded (if r = 0 then s \<and> s' else r < 0) (nat \<bar>r\<bar>) m"
    by (simp add: ab Let_def m_def [symmetric] r_def [symmetric])
  have r0: "r \<noteq> 0" using assms dec_rounded_sign(3) by (auto simp: add)
  then show "dec_val a + dec_val b \<noteq> 0" by (simp add: sum)
  show "0 < dec_val (dec_add a b) \<longleftrightarrow> 0 < dec_val a + dec_val b"
  proof (cases "r < 0")
    case True
    then have "dec_val (dec_add a b) \<le> 0" using dec_rounded_sign(2) by (simp add: add)
    then show ?thesis using True by (simp add: sum zero_less_mult_iff)
  next
    case False
    then have "0 \<le> dec_val (dec_add a b)" using r0 dec_rounded_sign(1) by (simp add: add)
    then show ?thesis using False r0 assms by (simp add: sum zero_less_mult_iff)
  qed
qed

lemma dec_val_minus [simp]: "dec_val (dec_minus d) = - dec_val d"
  by (cases d) (auto simp: dec_val_def)

lemma dec_sub_sign:
  "0 < dec_val (dec_sub a b) \<Longrightarrow> dec_val b < dec_val a"
  "dec_val (dec_sub a b) < 0 \<Longrightarrow> dec_val a < dec_val b"
  using dec_add_sign [of a "dec_minus b"] by (auto simp: dec_sub_def)

lemma dec_val_pos: "0 < dec_val d \<Longrightarrow> \<exists>c e. d = Dec False c e \<and> 0 < c"
  by (cases d) (auto simp: dec_val_def zero_less_mult_iff split: if_splits)

lemma dec_div_sign:
  assumes "0 < dec_val b"
  shows "0 < dec_val (dec_div a b) \<Longrightarrow> 0 < dec_val a" "dec_val (dec_div a b) < 0 \<Longrightarrow> dec_val a < 0"
proof -
  obtain c' e' where b: "b = Dec False c' e'" "0 < c'" using dec_val_pos [OF assms] by blast
  have shape: "\<exists>s c e n x. a = Dec s c e \<and> 0 < c \<and> dec_div a b = dec_rounded s n x"
    if nz: "dec_val (dec_div a b) \<noteq> 0"
  proof (cases a)
    case (Dec s c e)
    have "c \<noteq> 0"
    proof
      assume "c = 0"
      then have "dec_div a b = dec_rounded (s \<noteq> False) 0 (e - e')" using Dec b by simp
      then show False using nz dec_rounded_sign(3) by metis
    qed
    moreover from this have "\<exists>n x. dec_div a b = dec_rounded s n x"
      using Dec b by (simp add: Let_def split: prod.split) blast
    ultimately show ?thesis using Dec by blast
  qed (use nz b in \<open>simp_all add: dec_val_def\<close>)
  have val: "dec_val (Dec s c e) > 0 \<longleftrightarrow> \<not> s" "dec_val (Dec s c e) < 0 \<longleftrightarrow> s" if "0 < c" for s c e
    using that by (auto simp: dec_val_def zero_less_mult_iff mult_less_0_iff)
  show "0 < dec_val a" if "0 < dec_val (dec_div a b)"
  proof -
    have "dec_val (dec_div a b) \<noteq> 0" using that by simp
    from shape [OF this] obtain s c e n x where d: "a = Dec s c e" "0 < c" "dec_div a b = dec_rounded s n x"
      by blast
    have "\<not> s" using dec_rounded_sign(2) [of s n x] that unfolding d(3) by linarith
    show ?thesis using val(1) [OF d(2)] \<open>\<not> s\<close> d(1) by simp
  qed
  show "dec_val a < 0" if "dec_val (dec_div a b) < 0"
  proof -
    have "dec_val (dec_div a b) \<noteq> 0" using that by simp
    from shape [OF this] obtain s c e n x where d: "a = Dec s c e" "0 < c" "dec_div a b = dec_rounded s n x"
      by blast
    have "s" using dec_rounded_sign(1) [of s n x] that unfolding d(3) by linarith
    show ?thesis using val(2) [OF d(2)] \<open>s\<close> d(1) by simp
  qed
qed

end
