(* ===== verification/Aggregation.thy ===== *)
theory Aggregation
  imports Transactions PyNum "HOL-Library.List_Lexorder" "HOL-Library.Char_ord" "HOL-Library.Multiset"
begin

text \<open>Monthly figures: the reader SqlaBudgetSummaryReader of the insights context, the aggregation of
  monthly_aggregator.py with its text form, and the BudgetSummarySnapshot frozen into an insight.\<close>

section \<open>Rows\<close>

text \<open>BudgetTransactionRow and TransactionRow have the same fields.\<close>

record budget_row =
  br_amount :: decimal
  br_currency :: string
  br_type :: string
  br_category :: "string option"
  br_day :: int

text \<open>What a NUMERIC(19, 4) column returns for a stored amount.\<close>

definition numeric_column :: "decimal \<Rightarrow> decimal" where
  "numeric_column d = Dec (dec_val d < 0) (nat \<lfloor>\<bar>dec_val d\<bar> * 10000 + 1 / 2\<rfloor>) (- 4)"

definition budget_row_of :: "category list \<Rightarrow> transaction \<Rightarrow> budget_row" where
  "budget_row_of cats t =
     \<lparr>br_amount = numeric_column (amount (tx_amount t)), br_currency = cur_code (currency (tx_amount t)),
      br_type = transaction_type_value (tx_type t),
      br_category = (case tx_category t of None \<Rightarrow> None
        | Some c \<Rightarrow> map_option cat_name (get_category c cats)),
      br_day = date_day (tx_date t)\<rparr>"

definition fetch_budget_rows ::
  "transaction list \<Rightarrow> user_id \<Rightarrow> date \<Rightarrow> date \<Rightarrow> transaction list" where
  "fetch_budget_rows txs u first_day last_day =
     filter (\<lambda>t. tx_user t = u \<and> first_day \<le> tx_date t \<and> tx_date t \<le> last_day) txs"

definition read_month ::
  "category list \<Rightarrow> transaction list \<Rightarrow> user_id \<Rightarrow> int \<Rightarrow> int \<Rightarrow> exn + budget_row list" where
  "read_month cats txs u year month =
     bindR (mk_date year month 1) (\<lambda>first_day.
     bindR (monthrange_days year month) (\<lambda>days.
     bindR (mk_date year month days) (\<lambda>last_day.
       Inr (map (budget_row_of cats) (fetch_budget_rows txs u first_day last_day)))))"

fun months_back :: "int \<Rightarrow> int \<Rightarrow> nat \<Rightarrow> (int \<times> int) list" where
  "months_back year month 0 = []"
| "months_back year month (Suc n) =
     (let (y, m) = (if month - 1 = 0 then (year - 1, 12) else (year, month - 1))
      in (y, m) # months_back y m n)"

definition read_history_months ::
  "category list \<Rightarrow> transaction list \<Rightarrow> user_id \<Rightarrow> int \<Rightarrow> int \<Rightarrow> nat \<Rightarrow>
     exn + ((int \<times> int) \<times> budget_row list) list" where
  "read_history_months cats txs u before_year before_month n_months =
     (if n_months = 0 then Inr []
      else (let months = months_back before_year before_month n_months;
                (ey, em) = last months; (ly, lm) = hd months
            in bindR (mk_date ey em 1) (\<lambda>first_day.
               bindR (monthrange_days ly lm) (\<lambda>days.
               bindR (mk_date ly lm days) (\<lambda>last_day.
                 Inr (map (\<lambda>(y, m). ((y, m),
                     map (budget_row_of cats) (filter (\<lambda>t. date_year (tx_date t) = y \<and> date_month (tx_date t) = m)
                       (fetch_budget_rows txs u first_day last_day)))) months))))))"

section \<open>aggregate\<close>

record monthly_aggregation =
  ma_year :: int
  ma_month :: int
  ma_currency :: string
  ma_income :: decimal
  ma_expenses :: decimal
  ma_net_savings :: decimal
  ma_savings_rate :: pyfloat
  ma_volatility :: pyfloat
  ma_top_categories :: "(string \<times> decimal \<times> pyfloat) list"
  ma_count :: nat
  ma_avg_transaction :: decimal
  ma_income_sources :: nat
  ma_largest_expense :: decimal

definition group_by_currency :: "budget_row list \<Rightarrow> (string \<times> budget_row list) list" where
  "group_by_currency rows =
     foldl (\<lambda>d r. dict_set (br_currency r) (dict_get d (br_currency r) [] @ [r]) d) [] rows"

definition is_income :: "budget_row \<Rightarrow> bool" where
  "is_income t \<longleftrightarrow> br_type t = ''income''"

definition is_expense :: "budget_row \<Rightarrow> bool" where
  "is_expense t \<longleftrightarrow> br_type t = ''expense''"

definition labelled :: "budget_row \<Rightarrow> bool" where
  "labelled t \<longleftrightarrow> (case br_category t of None \<Rightarrow> False | Some c \<Rightarrow> c \<noteq> [])"

definition add_to :: "('k \<times> decimal) list \<Rightarrow> 'k \<Rightarrow> decimal \<Rightarrow> ('k \<times> decimal) list" where
  "add_to d k x = dict_set k (dec_add (dict_get d k dec_zero) x) d"

definition daily_expenses :: "budget_row list \<Rightarrow> (int \<times> decimal) list" where
  "daily_expenses txs = foldl (\<lambda>d t. if is_expense t then add_to d (br_day t) (br_amount t) else d) [] txs"

definition expense_volatility :: "budget_row list \<Rightarrow> pyfloat" where
  "expense_volatility txs =
     (let vals = map (\<lambda>(k, v). float_of_dec v) (daily_expenses txs)
      in if length vals \<ge> 2 then (let avg = mean vals in if avg > 0 then fl (pstdev vals / avg) else 0)
         else 0)"

definition category_totals :: "budget_row list \<Rightarrow> (string \<times> decimal) list" where
  "category_totals txs =
     foldl (\<lambda>d t. if is_expense t \<and> labelled t then add_to d (the (br_category t)) (br_amount t) else d) [] txs"

definition top_categories :: "budget_row list \<Rightarrow> decimal \<Rightarrow> (string \<times> decimal \<times> pyfloat) list" where
  "top_categories txs total_expenses =
     map (\<lambda>(cat, amt). (cat, amt,
            if 0 < dec_val total_expenses then float_of_dec (dec_div amt total_expenses) else 0))
       (take 5 (sort_key (\<lambda>(cat, amt). - dec_val amt) (category_totals txs)))"

definition currency_aggregation :: "int \<Rightarrow> int \<Rightarrow> string \<Rightarrow> budget_row list \<Rightarrow> monthly_aggregation" where
  "currency_aggregation year month ccy txs =
     (let incomes = map br_amount (filter is_income txs);
          expenses = map br_amount (filter is_expense txs);
          total_income = dec_sum incomes;
          total_expenses = dec_sum expenses;
          net = dec_sub total_income total_expenses
      in \<lparr>ma_year = year, ma_month = month, ma_currency = ccy,
          ma_income = total_income, ma_expenses = total_expenses, ma_net_savings = net,
          ma_savings_rate = (if 0 < dec_val total_income then float_of_dec (dec_div net total_income) else 0),
          ma_volatility = expense_volatility txs,
          ma_top_categories = top_categories txs total_expenses,
          ma_count = length txs,
          ma_avg_transaction = (if txs = [] then dec_zero
             else dec_div (dec_add total_income total_expenses) (dec_of_nat (length txs))),
          ma_income_sources = length (remdups (map (\<lambda>t. the (br_category t))
             (filter (\<lambda>t. is_income t \<and> labelled t) txs))),
          ma_largest_expense = dec_max expenses\<rparr>)"

definition aggregate :: "int \<Rightarrow> int \<Rightarrow> budget_row list \<Rightarrow> monthly_aggregation list" where
  "aggregate year month rows =
     map (\<lambda>(ccy, txs). currency_aggregation year month ccy txs) (sort_key fst (group_by_currency rows))"

section \<open>format_monthly_summary\<close>

definition month_names :: "string list" where
  "month_names = [[], ''January'', ''February'', ''March'', ''April'', ''May'', ''June'', ''July'',
     ''August'', ''September'', ''October'', ''November'', ''December'']"

fun join :: "string \<Rightarrow> string list \<Rightarrow> string" where
  "join sep [] = []"
| "join sep [s] = s"
| "join sep (s # ss) = s @ sep @ join sep ss"

definition newline :: string where "newline = [CHR 10]"

definition money_part :: "decimal \<Rightarrow> string \<Rightarrow> string" where
  "money_part d ccy = format_fixed 0 (dec_val d) @ '' '' @ ccy"

definition volatility_label :: "pyfloat \<Rightarrow> string" where
  "volatility_label v = (if v < fl (15 / 100) then ''low'' else if v < fl (30 / 100) then ''moderate'' else ''high'')"

definition category_lines :: "monthly_aggregation \<Rightarrow> string" where
  "category_lines a = join newline (map (\<lambda>(cat, amt, pct).
       ''- '' @ cat @ '': '' @ money_part amt (ma_currency a) @ '' ('' @
       format_fixed 1 (fl (pct * 100)) @ ''% of expenses)'') (take 5 (ma_top_categories a)))"

definition format_monthly_summary :: "monthly_aggregation list \<Rightarrow> string" where
  "format_monthly_summary aggs =
     (case aggs of [] \<Rightarrow> []
      | primary # _ \<Rightarrow>
          ''Monthly financial summary: '' @ month_names ! nat (ma_month primary) @ '' '' @ int_str (ma_year primary)
          @ ''.'' @ newline @ newline @
          ''Income: '' @ join '', '' (map (\<lambda>a. money_part (ma_income a) (ma_currency a)) aggs) @ '' | '' @
          ''Expenses: '' @ join '', '' (map (\<lambda>a. money_part (ma_expenses a) (ma_currency a)) aggs) @ '' | '' @
          ''Savings: '' @ join '', '' (map (\<lambda>a. money_part (ma_net_savings a) (ma_currency a)) aggs) @
          '' ('' @ float_repr (round_digits (fl (ma_savings_rate primary * 100)) 1) @ ''% rate).'' @ newline @
          ''Transactions: '' @ nat_str (ma_count primary) @ '' | '' @
          ''Avg transaction: '' @ format_fixed 1 (dec_val (ma_avg_transaction primary)) @ '' '' @ ma_currency primary
          @ ''.'' @ newline @
          ''Largest single expense: '' @ money_part (ma_largest_expense primary) (ma_currency primary)
          @ ''.'' @ newline @ newline @
          ''Spending breakdown:'' @ newline @
          join newline (map (\<lambda>a. if length aggs > 1
              then ''['' @ ma_currency a @ '']'' @ newline @ category_lines a else category_lines a) aggs)
          @ newline @ newline @
          ''Expense volatility: '' @ volatility_label (ma_volatility primary) @ ''.'' @ newline @
          ''Income sources: '' @ nat_str (ma_income_sources primary) @ ''.'')"

section \<open>BudgetSummarySnapshot\<close>

record currency_totals =
  cu_currency :: string
  cu_income :: decimal
  cu_expense :: decimal
  cu_count :: nat

type_synonym budget_snapshot = "currency_totals list"

definition count_of :: "('k \<times> nat) list \<Rightarrow> 'k \<Rightarrow> ('k \<times> nat) list" where
  "count_of d k = dict_set k (dict_get d k 0 + 1) d"

fun snapshot_step :: "(string \<times> nat) list \<times> (string \<times> decimal) list \<times> (string \<times> decimal) list \<Rightarrow>
    budget_row \<Rightarrow> (string \<times> nat) list \<times> (string \<times> decimal) list \<times> (string \<times> decimal) list" where
  "snapshot_step (counts, incomes, expenses) r =
     (if is_income r then (count_of counts (br_currency r), add_to incomes (br_currency r) (br_amount r), expenses)
      else (count_of counts (br_currency r), incomes, add_to expenses (br_currency r) (br_amount r)))"

definition aggregate_rows :: "budget_row list \<Rightarrow> budget_snapshot option" where
  "aggregate_rows rows =
     (if rows = [] then None
      else (let (counts, incomes, expenses) = foldl snapshot_step ([], [], []) rows
            in Some (map (\<lambda>ccy. \<lparr>cu_currency = ccy, cu_income = dict_get incomes ccy dec_zero,
                     cu_expense = dict_get expenses ccy dec_zero, cu_count = dict_get counts ccy 0\<rparr>)
                   (sort (map fst counts)))))"

text \<open>The JSON form: an object per currency, with the amounts printed.\<close>

record totals_json =
  tj_currency :: string
  tj_income :: string
  tj_expense :: string
  tj_count :: nat

definition snapshot_to_json :: "budget_snapshot \<Rightarrow> totals_json list" where
  "snapshot_to_json s = map (\<lambda>ct. \<lparr>tj_currency = cu_currency ct, tj_income = dec_str (cu_income ct),
     tj_expense = dec_str (cu_expense ct), tj_count = cu_count ct\<rparr>) s"

fun totals_of_json :: "totals_json list \<Rightarrow> budget_snapshot option" where
  "totals_of_json [] = Some []"
| "totals_of_json (j # js) =
     (case (parse_decimal (tj_income j), parse_decimal (tj_expense j), totals_of_json js) of
        (Some i, Some e, Some cs) \<Rightarrow>
          Some (\<lparr>cu_currency = tj_currency j, cu_income = i, cu_expense = e, cu_count = tj_count j\<rparr> # cs)
      | _ \<Rightarrow> None)"

text \<open>The outer option is \<open>decimal.InvalidOperation\<close>, the inner one the \<open>None\<close> the code returns.\<close>

definition snapshot_from_json :: "totals_json list option \<Rightarrow> budget_snapshot option option" where
  "snapshot_from_json raw = (case raw of None \<Rightarrow> Some None
     | Some [] \<Rightarrow> Some None | Some js \<Rightarrow> map_option Some (totals_of_json js))"

section \<open>The loops as filters\<close>

lemma map_fst_sort_key_fst: "map fst (sort_key fst xs) = sort (map fst xs)"
proof (rule properties_for_sort [symmetric])
  show "mset (map fst (sort_key fst xs)) = mset (map fst xs)" by (simp only: mset_map mset_sort)
qed simp

lemma sort_key_fst_entries:
  assumes "distinct (map fst d)"
  shows "sort_key fst d = map (\<lambda>c. (c, dict_get d c z)) (sort (map fst d))"
proof -
  have d: "distinct (map fst (sort_key fst d))" using assms
    by (simp add: map_fst_sort_key_fst)
  have "dict_get (sort_key fst d) c z = dict_get d c z" for c
  proof -
    have "map_of (sort_key fst d) = map_of d"
      by (rule map_of_inject_set [THEN iffD2]) (use d assms in simp_all)
    then show ?thesis by (simp add: dict_get_def)
  qed
  then show ?thesis using dict_entries [OF d, of z] by (simp add: map_fst_sort_key_fst)
qed

lemma group_fold:
  "group_by_currency rows = dict_fold (\<lambda>r. True) br_currency (\<lambda>v r. v @ [r]) [] [] rows"
  by (simp add: group_by_currency_def dict_fold_def)

lemma foldl_snoc: "foldl (\<lambda>v r. v @ [r]) v rows = v @ rows"
  by (induction rows arbitrary: v) auto

definition in_currency :: "string \<Rightarrow> budget_row list \<Rightarrow> budget_row list" where
  "in_currency c rows = filter (\<lambda>r. br_currency r = c) rows"

definition currencies :: "budget_row list \<Rightarrow> string list" where
  "currencies rows = sorted_list_of_set (br_currency ` set rows)"

lemma currencies_simps [simp]:
  "set (currencies rows) = br_currency ` set rows" "distinct (currencies rows)" "sorted (currencies rows)"
  by (simp_all add: currencies_def)

lemma sort_keys_currencies:
  assumes "distinct cs" "set cs = br_currency ` set rows"
  shows "sort cs = currencies rows"
  using assms by (metis currencies_def distinct_sort set_sort sorted_list_of_set.idem_if_sorted_distinct sorted_sort)

lemma aggregate_by_filter:
  "aggregate year month rows =
     map (\<lambda>c. currency_aggregation year month c (in_currency c rows)) (currencies rows)"
proof -
  let ?d = "group_by_currency rows"
  have d: "distinct (map fst ?d)" unfolding group_fold by (rule dict_fold_distinct) simp
  have k: "set (map fst ?d) = br_currency ` set rows"
    unfolding group_fold set_map dict_fold_keys by simp
  have g: "dict_get ?d c [] = in_currency c rows" for c
    unfolding group_fold dict_fold_get foldl_snoc by (simp add: in_currency_def)
  show ?thesis
    unfolding aggregate_def sort_key_fst_entries [OF d, of "[]"] sort_keys_currencies [OF d k] g
    by (simp add: comp_def)
qed

lemma currency_aggregation_simps [simp]:
  "ma_currency (currency_aggregation y m c txs) = c"
  "ma_year (currency_aggregation y m c txs) = y"
  "ma_month (currency_aggregation y m c txs) = m"
  "ma_count (currency_aggregation y m c txs) = length txs"
  "ma_income (currency_aggregation y m c txs) = dec_sum (map br_amount (filter is_income txs))"
  "ma_expenses (currency_aggregation y m c txs) = dec_sum (map br_amount (filter is_expense txs))"
  "ma_net_savings (currency_aggregation y m c txs) =
     dec_sub (dec_sum (map br_amount (filter is_income txs))) (dec_sum (map br_amount (filter is_expense txs)))"
  "ma_top_categories (currency_aggregation y m c txs) =
     top_categories txs (dec_sum (map br_amount (filter is_expense txs)))"
  by (simp_all add: currency_aggregation_def Let_def)

definition stored_rows :: "budget_row list \<Rightarrow> bool" where
  "stored_rows rows \<longleftrightarrow> length rows \<le> 10 ^ 8 \<and> list_all (\<lambda>r. db_amount (br_amount r)) rows"

definition amount_sum :: "(budget_row \<Rightarrow> bool) \<Rightarrow> budget_row list \<Rightarrow> rat" where
  "amount_sum P rows = sum_list (map (\<lambda>r. dec_val (br_amount r)) (filter P rows))"

lemma filtered_sum:
  assumes "stored_rows rows"
  shows "dec_val (dec_sum (map br_amount (filter P rows))) = amount_sum P rows"
    "total_dec (dec_sum (map br_amount (filter P rows)))"
proof -
  have "list_all db_amount (map br_amount (filter P rows))" "length (map br_amount (filter P rows)) \<le> 10 ^ 8"
    using assms le_trans [OF length_filter_le [of P rows], of "10 ^ 8"]
    by (auto simp: stored_rows_def list_all_iff)
  then show "dec_val (dec_sum (map br_amount (filter P rows))) = amount_sum P rows"
    "total_dec (dec_sum (map br_amount (filter P rows)))"
    by (simp_all only: dec_sum_val dec_sum_total) (simp add: amount_sum_def comp_def)
qed

lemma stored_in_currency: "stored_rows rows \<Longrightarrow> stored_rows (in_currency c rows)"
  using le_trans [OF length_filter_le, of rows] by (auto simp: stored_rows_def in_currency_def list_all_iff)

lemma length_filter_sum_partition:
  "finite K \<Longrightarrow> k ` set rows \<subseteq> K \<Longrightarrow> length rows = (\<Sum>c\<in>K. length (filter (\<lambda>r. k r = c) rows))"
proof (induction rows)
  case (Cons r rows)
  have "(\<Sum>c\<in>K. length (filter (\<lambda>r. k r = c) (r # rows))) =
      (\<Sum>c\<in>K. (if c = k r then 1 else 0) + length (filter (\<lambda>r. k r = c) rows))"
    by (rule sum.cong) auto
  also have "\<dots> = 1 + length rows"
    using Cons by (simp add: sum.distrib sum.delta)
  finally show ?case by simp
qed simp

lemma length_by_currency:
  "length rows = sum_list (map (\<lambda>c. length (in_currency c rows)) (currencies rows))"
proof -
  have "length rows = (\<Sum>c\<in>br_currency ` set rows. length (in_currency c rows))"
    unfolding in_currency_def
    by (rule length_filter_sum_partition) simp_all
  then show ?thesis by (simp add: sum_list_distinct_conv_sum_set)
qed

section \<open>Properties\<close>

text \<open>C28 Every currency of the month gets exactly one aggregation, in ascending order; income, expenses
  and net savings of an aggregation are the exact sums of the stored amounts in that currency (the
  28-digit context never rounds them), and the transaction counts add up to the number of rows.\<close>

theorem aggregate_is_exact:
  assumes "stored_rows rows"
  shows "map ma_currency (aggregate year month rows) = currencies rows \<and>
    sum_list (map ma_count (aggregate year month rows)) = length rows \<and>
    (\<forall>a\<in>set (aggregate year month rows).
       dec_val (ma_income a) = amount_sum (\<lambda>r. br_currency r = ma_currency a \<and> is_income r) rows \<and>
       dec_val (ma_expenses a) = amount_sum (\<lambda>r. br_currency r = ma_currency a \<and> is_expense r) rows \<and>
       dec_val (ma_net_savings a) = dec_val (ma_income a) - dec_val (ma_expenses a))"
proof -
  have sums: "dec_val (ma_income a) = amount_sum (\<lambda>r. br_currency r = ma_currency a \<and> is_income r) rows \<and>
       dec_val (ma_expenses a) = amount_sum (\<lambda>r. br_currency r = ma_currency a \<and> is_expense r) rows \<and>
       dec_val (ma_net_savings a) = dec_val (ma_income a) - dec_val (ma_expenses a)"
    if mem: "a \<in> set (aggregate year month rows)" for a
  proof -
    obtain c where a: "a = currency_aggregation year month c (in_currency c rows)"
      using mem unfolding aggregate_by_filter by auto
    show ?thesis
      unfolding a currency_aggregation_simps
      using filtered_sum [OF stored_in_currency [OF assms, of c]]
      by (simp add: dec_sub_val amount_sum_def in_currency_def conj_commute)
  qed
  show ?thesis
    using sums length_by_currency [of rows]
    by (simp add: aggregate_by_filter comp_def)
qed

definition sample_row :: "string \<Rightarrow> string \<Rightarrow> nat \<Rightarrow> string \<Rightarrow> budget_row" where
  "sample_row ccy ty n cat = \<lparr>br_amount = Dec False n (- 4), br_currency = ccy, br_type = ty,
     br_category = Some cat, br_day = 1\<rparr>"

definition sample_rows :: "budget_row list" where
  "sample_rows = [sample_row ''USD'' ''income'' 1000000 ''Salary'', sample_row ''USD'' ''expense'' 255000 ''Food'']"

lemma sample_rows_stored: "stored_rows sample_rows"
  by (simp add: stored_rows_def sample_rows_def sample_row_def db_amount_def)

lemma aggregate_is_exact_witness:
  "map (\<lambda>a. (ma_currency a, dec_val (ma_net_savings a))) (aggregate 2024 3 sample_rows) = [(''USD'', 149 / 2)]"
proof -
  have c: "currencies sample_rows = [''USD'']" by (simp add: currencies_def sample_rows_def sample_row_def)
  have i: "amount_sum (\<lambda>r. br_currency r = ''USD'' \<and> is_income r) sample_rows = 100"
    "amount_sum (\<lambda>r. br_currency r = ''USD'' \<and> is_expense r) sample_rows = 51 / 2"
    by (simp_all add: amount_sum_def sample_rows_def sample_row_def is_income_def is_expense_def dec_val_Dec4)
  note ex = aggregate_is_exact [OF sample_rows_stored, of 2024 3, unfolded c]
  then obtain a where a: "aggregate 2024 3 sample_rows = [a]" "ma_currency a = ''USD''" by auto
  then show ?thesis using ex i by simp
qed

text \<open>The budget summary frozen into an insight and the aggregation shown to the model are computed by
  two separate loops and agree on every currency: same currencies, same totals digit for digit, same
  counts.\<close>

theorem snapshot_agrees_with_aggregate:
  assumes "\<forall>r\<in>set rows. is_income r \<or> is_expense r"
  shows "aggregate_rows rows = (if rows = [] then None
    else Some (map (\<lambda>a. \<lparr>cu_currency = ma_currency a, cu_income = ma_income a,
      cu_expense = ma_expenses a, cu_count = ma_count a\<rparr>) (aggregate year month rows)))"
proof -
  define counts where "counts = dict_fold (\<lambda>r. True) br_currency (\<lambda>n r. n + 1) (0::nat) [] rows"
  define incomes where "incomes = dict_fold is_income br_currency (\<lambda>v r. dec_add v (br_amount r)) dec_zero [] rows"
  define expenses where "expenses = dict_fold (\<lambda>r. \<not> is_income r) br_currency (\<lambda>v r. dec_add v (br_amount r)) dec_zero [] rows"
  have "foldl snapshot_step (a, b, c) rs =
      (dict_fold (\<lambda>r. True) br_currency (\<lambda>n r. n + 1) 0 a rs,
       dict_fold is_income br_currency (\<lambda>v r. dec_add v (br_amount r)) dec_zero b rs,
       dict_fold (\<lambda>r. \<not> is_income r) br_currency (\<lambda>v r. dec_add v (br_amount r)) dec_zero c rs)" for a b c rs
    by (induction rs arbitrary: a b c) (simp_all add: dict_fold_def count_of_def add_to_def)
  then have loop: "foldl snapshot_step ([], [], []) rows = (counts, incomes, expenses)"
    by (simp add: counts_def incomes_def expenses_def)
  have count: "dict_get counts c 0 = length (in_currency c rows)" for c
  proof -
    have "foldl (\<lambda>n r. n + 1) k rs = k + length rs" for k :: nat and rs :: "budget_row list"
      by (induction rs arbitrary: k) auto
    then show ?thesis unfolding counts_def dict_fold_get by (simp add: in_currency_def)
  qed
  have total: "foldl (\<lambda>v r. dec_add v (br_amount r)) dec_zero rs = dec_sum (map br_amount rs)" for rs
    by (simp add: dec_sum_def foldl_map)
  have income: "dict_get incomes c dec_zero = dec_sum (map br_amount (filter is_income (in_currency c rows)))" for c
    unfolding incomes_def dict_fold_get total dict_get_Nil by (simp add: in_currency_def conj_commute)
  have expense: "dict_get expenses c dec_zero = dec_sum (map br_amount (filter is_expense (in_currency c rows)))" for c
  proof -
    have "filter (\<lambda>r. \<not> is_income r \<and> br_currency r = c) rows = filter is_expense (in_currency c rows)"
      using assms by (auto simp: in_currency_def is_income_def is_expense_def intro!: filter_cong)
    then show ?thesis unfolding expenses_def dict_fold_get total dict_get_Nil by simp
  qed
  have "distinct (map fst counts)" "set (map fst counts) = br_currency ` set rows"
    unfolding counts_def set_map dict_fold_keys by (simp_all add: dict_fold_distinct)
  then have "sort (map fst counts) = currencies rows" by (rule sort_keys_currencies)
  then show ?thesis
    by (simp add: aggregate_rows_def loop aggregate_by_filter comp_def income expense count)
qed

lemma snapshot_agrees_with_aggregate_witness:
  "aggregate_rows sample_rows = Some (map (\<lambda>a. \<lparr>cu_currency = ma_currency a, cu_income = ma_income a,
      cu_expense = ma_expenses a, cu_count = ma_count a\<rparr>) (aggregate 2024 3 sample_rows))"
  using snapshot_agrees_with_aggregate [of sample_rows 2024 3]
  by (simp add: sample_rows_def sample_row_def is_income_def is_expense_def)

section \<open>Top categories\<close>

definition category_sum :: "budget_row list \<Rightarrow> string \<Rightarrow> decimal" where
  "category_sum txs cat =
     dec_sum (map br_amount (filter (\<lambda>t. (is_expense t \<and> labelled t) \<and> the (br_category t) = cat) txs))"

lemma category_totals_fold:
  "category_totals txs = dict_fold (\<lambda>t. is_expense t \<and> labelled t) (\<lambda>t. the (br_category t))
     (\<lambda>v t. dec_add v (br_amount t)) dec_zero [] txs"
  by (simp add: category_totals_def dict_fold_def add_to_def cong: if_cong)

lemma category_totals_entries:
  "distinct (map fst (category_totals txs))"
  "(cat, amt) \<in> set (category_totals txs) \<Longrightarrow> amt = category_sum txs cat"
  "fst ` set (category_totals txs) = (\<lambda>t. the (br_category t)) ` set (filter (\<lambda>t. is_expense t \<and> labelled t) txs)"
proof -
  show d: "distinct (map fst (category_totals txs))"
    unfolding category_totals_fold by (rule dict_fold_distinct) simp
  show "amt = category_sum txs cat" if "(cat, amt) \<in> set (category_totals txs)"
  proof -
    have "amt = dict_get (category_totals txs) cat dec_zero" by (rule dict_get_mem [OF d that, symmetric])
    also have "\<dots> = category_sum txs cat"
      unfolding category_totals_fold dict_fold_get by (simp add: category_sum_def dec_sum_def foldl_map)
    finally show ?thesis .
  qed
  show "fst ` set (category_totals txs) = (\<lambda>t. the (br_category t)) ` set (filter (\<lambda>t. is_expense t \<and> labelled t) txs)"
    unfolding category_totals_fold dict_fold_keys by simp
qed

lemma sorted_take_drop:
  "sorted xs \<Longrightarrow> x \<in> set (take n xs) \<Longrightarrow> y \<in> set (drop n xs) \<Longrightarrow> x \<le> y"
  by (metis append_take_drop_id sorted_append)



section \<open>History\<close>

definition month_index :: "int \<Rightarrow> int \<Rightarrow> int" where
  "month_index y m = 12 * y + m - 1"

lemma month_index_year:
  "month_index y m \<le> month_index y' m' \<Longrightarrow> 1 \<le> m \<Longrightarrow> m' \<le> 12 \<Longrightarrow> y \<le> y' \<and> (y = y' \<longrightarrow> m \<le> m')"
  unfolding month_index_def by linarith

lemma months_back_nth:
  "1 \<le> m \<Longrightarrow> m \<le> 12 \<Longrightarrow> i < n \<Longrightarrow>
     (case months_back y m n ! i of (y', m') \<Rightarrow>
        1 \<le> m' \<and> m' \<le> 12 \<and> month_index y' m' = month_index y m - 1 - int i)"
proof (induction n arbitrary: y m i)
  case (Suc n)
  obtain y1 m1 where s: "(if m - 1 = 0 then (y - 1, 12) else (y, m - 1)) = (y1, m1)" by fastforce
  then have b: "1 \<le> m1" "m1 \<le> 12" "month_index y1 m1 = month_index y m - 1"
    using Suc.prems by (auto simp: month_index_def split: if_splits)
  show ?case
  proof (cases i)
    case 0
    then show ?thesis using s b by simp
  next
    case (Suc j)
    then show ?thesis
      using Suc.IH [OF b(1,2), of j y1] Suc.prems s b by (simp add: Suc algebra_simps split: prod.splits)
  qed
qed simp

lemma months_back_length [simp]: "length (months_back y m n) = n"
  by (induction n arbitrary: y m) (auto split: prod.splits)

text \<open>The history an insight is compared with consists of the n months before its period, most recent
  first and without repetition, and the rows of each are those a separate read of that month returns.\<close>

theorem history_is_past_months:
  assumes dates: "\<forall>t\<in>set txs. valid_date (tx_date t)" and month: "1 \<le> m" "m \<le> 12"
    and h: "read_history_months cats txs u y m n = Inr h"
  shows "map fst h = months_back y m n \<and> distinct (months_back y m n) \<and>
    (\<forall>((y', m'), rows)\<in>set h. read_month cats txs u y' m' = Inr rows)"
proof (cases "n = 0")
  case True
  then show ?thesis using h by (simp add: read_history_months_def)
next
  case False
  let ?ms = "months_back y m n"
  have ne: "?ms \<noteq> []" using False by (metis length_0_conv months_back_length)
  obtain ey em where last: "last ?ms = (ey, em)" by fastforce
  obtain ly lm where hd: "hd ?ms = (ly, lm)" by fastforce
  let ?d1 = "Date ey em 1" and ?d2 = "Date ly lm (days_in_month ly lm)"
  have v: "valid_date ?d1" "valid_date ?d2" and
    hm: "h = map (\<lambda>(y, m). ((y, m), map (budget_row_of cats)
        (filter (\<lambda>t. date_year (tx_date t) = y \<and> date_month (tx_date t) = m)
          (fetch_budget_rows txs u ?d1 ?d2)))) ?ms"
    using h False last hd
    by (auto simp: read_history_months_def mk_date_def monthrange_days_def bindR_Inr_iff Let_def split: if_splits)
  have idx: "1 \<le> m' \<and> m' \<le> 12 \<and> month_index ey em \<le> month_index y' m' \<and>
      month_index y' m' \<le> month_index ly lm" if mem: "(y', m') \<in> set ?ms" for y' m'
  proof -
    obtain i where i: "i < n" "?ms ! i = (y', m')" using mem by (auto simp: in_set_conv_nth)
    have "?ms ! (n - 1) = (ey, em)" "?ms ! 0 = (ly, lm)"
      using last hd ne False by (simp_all add: last_conv_nth hd_conv_nth)
    then show ?thesis
      using months_back_nth [OF month i(1), of y] i
        months_back_nth [OF month, of "n - 1" n y] months_back_nth [OF month, of 0 n y] False
      by auto
  qed
  have "distinct ?ms"
    unfolding distinct_conv_nth
  proof (intro allI impI)
    fix i j
    assume "i < length ?ms" "j < length ?ms" "i \<noteq> j"
    then show "?ms ! i \<noteq> ?ms ! j"
      using months_back_nth [OF month, of i n y] months_back_nth [OF month, of j n y] by auto
  qed
  moreover have "read_month cats txs u y' m' = Inr rows" if mem: "((y', m'), rows) \<in> set h" for y' m' rows
  proof -
    have ym: "(y', m') \<in> set ?ms" and
      rows: "rows = map (budget_row_of cats) (filter (\<lambda>t. date_year (tx_date t) = y' \<and> date_month (tx_date t) = m')
          (fetch_budget_rows txs u ?d1 ?d2))"
      using mem by (auto simp: hm)
    have ey: "(ey, em) \<in> set ?ms" "(ly, lm) \<in> set ?ms" using last hd ne last_in_set hd_in_set by metis+
    note b = idx [OF ym] idx [OF ey(1)] idx [OF ey(2)]
    have yr: "ey \<le> y' \<and> (ey = y' \<longrightarrow> em \<le> m')" "y' \<le> ly \<and> (y' = ly \<longrightarrow> m' \<le> lm)"
      using b month_index_year [of ey em y' m'] month_index_year [of y' m' ly lm] by auto
    then have vd: "valid_date (Date y' m' 1)" "valid_date (Date y' m' (days_in_month y' m'))"
      using v b days_in_month_bounds [of y' m'] by (auto simp: valid_date_def)
    have "?d1 \<le> d \<and> d \<le> ?d2 \<and> date_year d = y' \<and> date_month d = m' \<longleftrightarrow>
        Date y' m' 1 \<le> d \<and> d \<le> Date y' m' (days_in_month y' m')" if "valid_date d" for d
    proof (cases d)
      case (Date a b' c)
      have "?d1 \<le> Date y' m' 1" "Date y' m' (days_in_month y' m') \<le> ?d2"
        using yr by (auto simp: less_eq_date_def)
      then show ?thesis using that b
        unfolding Date valid_date_def less_eq_date_def by auto
    qed
    then have "rows = map (budget_row_of cats)
        (fetch_budget_rows txs u (Date y' m' 1) (Date y' m' (days_in_month y' m')))"
      unfolding rows fetch_budget_rows_def filter_filter using dates
      by (intro arg_cong [of _ _ "map _"] filter_cong) auto
    then show ?thesis using vd b by (simp add: read_month_def mk_date_def monthrange_days_def)
  qed
  ultimately show ?thesis by (auto simp: hm comp_def case_prod_beta)
qed

definition past_tx :: transaction where
  "past_tx = sample_tx (UserId 1) (TransactionId 7)"

lemma past_history:
  "read_history_months [] [past_tx] (UserId 1) 2024 4 2 =
     Inr [((2024, 3), [budget_row_of [] past_tx]), ((2024, 2), [])]"
  by (simp add: read_history_months_def numeral_2_eq_2 mk_date_def monthrange_days_def days_in_month_def is_leap_def
      fetch_budget_rows_def past_tx_def sample_tx_def)

lemma history_is_past_months_witness:
  "read_month [] [past_tx] (UserId 1) 2024 3 = Inr [budget_row_of [] past_tx]"
proof -
  have "\<forall>t\<in>set [past_tx]. valid_date (tx_date t)"
    by (simp add: past_tx_def sample_tx_def days_in_month_def)
  from history_is_past_months [OF this _ _ past_history] show ?thesis by simp
qed

definition finite_snapshot :: "budget_snapshot \<Rightarrow> bool" where
  "finite_snapshot s \<longleftrightarrow> list_all (\<lambda>c. is_finite (cu_income c) \<and> is_finite (cu_expense c)) s"

lemma totals_json_roundtrip:
  "finite_snapshot s \<Longrightarrow> totals_of_json (snapshot_to_json s) = Some s"
proof (induction s)
  case (Cons c s)
  have fin: "parse_decimal (dec_str d) = Some d" if "is_finite d" for d
    using that by (cases d) (simp_all del: dec_str.simps)
  show ?case using Cons by (simp add: finite_snapshot_def snapshot_to_json_def fin)
qed (simp add: snapshot_to_json_def)

text \<open>The JSON form of a snapshot that goes to the database reads back as the same snapshot, with every
  amount's digits and exponent.\<close>

theorem snapshot_json_roundtrip:
  assumes "finite_snapshot s" "s \<noteq> []"
  shows "snapshot_from_json (Some (snapshot_to_json s)) = Some (Some s)"
  using totals_json_roundtrip [OF assms(1)] assms(2)
  by (cases s) (simp_all add: snapshot_from_json_def snapshot_to_json_def del: totals_of_json.simps)

lemma snapshot_json_roundtrip_witness:
  "snapshot_from_json (Some (snapshot_to_json
     [\<lparr>cu_currency = ''USD'', cu_income = Dec False 1000000 (- 4), cu_expense = Dec False 0 0, cu_count = 1\<rparr>])) =
   Some (Some [\<lparr>cu_currency = ''USD'', cu_income = Dec False 1000000 (- 4), cu_expense = Dec False 0 0, cu_count = 1\<rparr>])"
  by (rule snapshot_json_roundtrip) (simp_all add: finite_snapshot_def)

end
