(* ===== verification/Sessions.thy ===== *)
theory Sessions
  imports Values PyStr
begin

text \<open>Login sessions and their Redis store (\<^verbatim>\<open>application/users/session.py\<close>,
  \<^verbatim>\<open>outbound/adapters/redis/session_store.py\<close>). A session is a string key with an expiry and a
  member of its user's sorted set, whose score is the time the session expires. Times are
  microseconds. The store's contract is a set of sessions that are alive at a time; the locale
  \<open>session_contract\<close> states it, its clients' lemmas are proved in it, and \<open>redis_sessions\<close>
  discharges it for the model of the code.\<close>

section \<open>Sessions and their JSON form\<close>

record session =
  se_id :: session_id
  se_user :: user_id
  se_expires :: timestamp
  se_agent :: string
  se_ip :: string

text \<open>The object stored as JSON; the text \<open>isoformat\<close> gives of an instant stands as the instant.\<close>

record session_json =
  sj_id :: string
  sj_user :: string
  sj_expires :: timestamp
  sj_agent :: string
  sj_ip :: string

fun session_uuid :: "session_id \<Rightarrow> uuid" where
  "session_uuid (SessionId u) = u"

fun user_uuid :: "user_id \<Rightarrow> uuid" where
  "user_uuid (UserId u) = u"

definition serialize :: "session \<Rightarrow> session_json" where
  "serialize s = \<lparr>sj_id = uuid_str (session_uuid (se_id s)), sj_user = uuid_str (user_uuid (se_user s)),
     sj_expires = se_expires s, sj_agent = se_agent s, sj_ip = se_ip s\<rparr>"

definition deserialize :: "session_json \<Rightarrow> exn + session" where
  "deserialize j = (case (parse_uuid (sj_id j), parse_uuid (sj_user j)) of
     (Some i, Some u) \<Rightarrow> Inr \<lparr>se_id = SessionId i, se_user = UserId u, se_expires = sj_expires j,
        se_agent = sj_agent j, se_ip = sj_ip j\<rparr>
   | _ \<Rightarrow> Inl ValueError)"

section \<open>The Redis store\<close>

record session_db =
  sd_keys :: "session_id \<Rightarrow> (session_json \<times> timestamp) option"
  sd_index :: "user_id \<Rightarrow> (session_id \<times> timestamp) list"

definition second :: int where "second = 1000000"

text \<open>\<open>int(delta.total_seconds())\<close>.\<close>

definition int_seconds :: "int \<Rightarrow> int" where
  "int_seconds d = (if 0 \<le> d then d div second else - ((- d) div second))"

definition live_key :: "session_db \<Rightarrow> timestamp \<Rightarrow> session_id \<Rightarrow> session_json option" where
  "live_key db now sid = (case sd_keys db sid of None \<Rightarrow> None
     | Some (j, e) \<Rightarrow> if now < e then Some j else None)"

definition save_session :: "timestamp \<Rightarrow> session \<Rightarrow> session_db \<Rightarrow> session_db" where
  "save_session now s db =
     (let ttl = int_seconds (se_expires s - now) in
      if ttl \<le> 0 then db
      else db\<lparr>sd_keys := (sd_keys db)(se_id s \<mapsto> (serialize s, now + ttl * second)),
        sd_index := (sd_index db)(se_user s :=
          filter (\<lambda>(_, score). \<not> (0 \<le> score \<and> score \<le> now))
            (dict_set (se_id s) (se_expires s) (sd_index db (se_user s))))\<rparr>)"

definition get_session ::
  "timestamp \<Rightarrow> session_id \<Rightarrow> user_id \<Rightarrow> session_db \<Rightarrow> exn + session option" where
  "get_session now sid uid db = (case live_key db now sid of None \<Rightarrow> Inr None
     | Some raw \<Rightarrow> bindR (deserialize raw) (\<lambda>s.
         if se_user s \<noteq> uid then Inr None
         else if se_expires s \<le> now then Inr None
         else Inr (Some s)))"

definition revoke_session :: "session_id \<Rightarrow> user_id \<Rightarrow> session_db \<Rightarrow> session_db" where
  "revoke_session sid uid db =
     db\<lparr>sd_keys := (sd_keys db)(sid := None),
        sd_index := (sd_index db)(uid := filter (\<lambda>(i, _). i \<noteq> sid) (sd_index db uid))\<rparr>"

text \<open>\<open>ZRANGEBYSCORE min=now max=+inf\<close>: by score, then by member.\<close>

definition active_ids :: "timestamp \<Rightarrow> user_id \<Rightarrow> session_db \<Rightarrow> session_id list" where
  "active_ids now uid db =
     map fst (sort_key snd (sort_key (\<lambda>(i, _). session_uuid i)
       (filter (\<lambda>(_, score). now \<le> score) (sd_index db uid))))"

fun deserialize_all :: "session_json option list \<Rightarrow> exn + session list" where
  "deserialize_all [] = Inr []"
| "deserialize_all (None # rs) = deserialize_all rs"
| "deserialize_all (Some j # rs) =
     bindR (deserialize j) (\<lambda>s. bindR (deserialize_all rs) (\<lambda>ss. Inr (s # ss)))"

definition list_active :: "timestamp \<Rightarrow> user_id \<Rightarrow> session_db \<Rightarrow> exn + session list" where
  "list_active now uid db = deserialize_all (map (live_key db now) (active_ids now uid db))"

definition revoke_all :: "user_id \<Rightarrow> session_db \<Rightarrow> session_db" where
  "revoke_all uid db =
     (let sids = map fst (sd_index db uid) in
      if sids = [] then db
      else db\<lparr>sd_keys := (\<lambda>i. if i \<in> set sids then None else sd_keys db i),
              sd_index := (sd_index db)(uid := [])\<rparr>)"

section \<open>The contract\<close>

text \<open>\<open>alive db t\<close> is the set of sessions alive at \<open>t\<close>; \<open>ok now db\<close> is the store's invariant at the
  current time, kept as time passes and by every operation; \<open>fresh sid db\<close> holds of an identifier
  the store has never seen, and \<open>fits\<close> of a session whose identifiers are 128-bit UUIDs.\<close>

locale session_contract =
  fixes alive :: "'db \<Rightarrow> timestamp \<Rightarrow> session set"
    and ok :: "timestamp \<Rightarrow> 'db \<Rightarrow> bool"
    and fresh :: "session_id \<Rightarrow> 'db \<Rightarrow> bool"
    and fits :: "session \<Rightarrow> bool"
    and save :: "timestamp \<Rightarrow> session \<Rightarrow> 'db \<Rightarrow> 'db"
    and get :: "timestamp \<Rightarrow> session_id \<Rightarrow> user_id \<Rightarrow> 'db \<Rightarrow> exn + session option"
    and revoke :: "session_id \<Rightarrow> user_id \<Rightarrow> 'db \<Rightarrow> 'db"
    and listing :: "timestamp \<Rightarrow> user_id \<Rightarrow> 'db \<Rightarrow> exn + session list"
    and revoke_every :: "user_id \<Rightarrow> 'db \<Rightarrow> 'db"
  assumes get_alive: "ok now db \<Longrightarrow> s \<in> alive db now \<Longrightarrow>
      get now (se_id s) (se_user s) db = Inr (Some s)"
    and get_dead: "ok now db \<Longrightarrow> \<forall>s\<in>alive db now. \<not> (se_id s = sid \<and> se_user s = uid) \<Longrightarrow>
      get now sid uid db = Inr None"
    and save_law: "ok now db \<Longrightarrow> fits s \<Longrightarrow> fresh (se_id s) db \<Longrightarrow> now \<le> t \<Longrightarrow>
      alive (save now s db) t = alive db t \<union>
        (if t < now + int_seconds (se_expires s - now) * second then {s} else {})"
    and revoke_law: "ok now db \<Longrightarrow> now \<le> t \<Longrightarrow>
      alive (revoke sid uid db) t = {s \<in> alive db t. se_id s \<noteq> sid}"
    and revoke_every_law: "ok now db \<Longrightarrow> now \<le> t \<Longrightarrow>
      alive (revoke_every uid db) t = {s \<in> alive db t. se_user s \<noteq> uid}"
    and listing_law: "ok now db \<Longrightarrow> \<exists>ss. listing now uid db = Inr ss \<and>
      set ss = {s \<in> alive db now. se_user s = uid}"
    and ok_later: "ok now db \<Longrightarrow> now \<le> t \<Longrightarrow> ok t db"
    and ok_save: "ok now db \<Longrightarrow> fits s \<Longrightarrow> fresh (se_id s) db \<Longrightarrow> ok now (save now s db)"
    and ok_revoke: "ok now db \<Longrightarrow> ok now (revoke sid uid db)"
    and ok_revoke_every: "ok now db \<Longrightarrow> ok now (revoke_every uid db)"
begin

lemma gone_after_revoke_every:
  assumes "ok now db" "now \<le> t"
  shows "get t sid uid (revoke_every uid db) = Inr None"
  by (rule get_dead [OF ok_later [OF ok_revoke_every [OF assms(1)] assms(2)]])
    (simp add: revoke_every_law [OF assms])

lemma others_after_revoke_every:
  assumes "ok now db" "now \<le> t" "uid' \<noteq> uid"
  shows "get t sid uid' (revoke_every uid db) = get t sid uid' db"
proof (cases "\<exists>s\<in>alive db t. se_id s = sid \<and> se_user s = uid'")
  case True
  then obtain s where s: "s \<in> alive db t" "se_id s = sid" "se_user s = uid'" by blast
  then have "s \<in> alive (revoke_every uid db) t" by (simp add: revoke_every_law [OF assms(1,2)] assms(3))
  from get_alive [OF ok_later [OF ok_revoke_every [OF assms(1)] assms(2)] this]
    get_alive [OF ok_later [OF assms(1,2)] s(1)]
  show ?thesis by (simp add: s(2,3))
next
  case False
  then have "get t sid uid' db = Inr None" by (intro get_dead [OF ok_later [OF assms(1,2)]]) simp
  moreover have "get t sid uid' (revoke_every uid db) = Inr None"
    using False by (intro get_dead [OF ok_later [OF ok_revoke_every [OF assms(1)] assms(2)]])
      (simp add: revoke_every_law [OF assms(1,2)])
  ultimately show ?thesis by simp
qed

lemma get_after_save:
  assumes "ok now db" "fits s" "fresh (se_id s) db" "now \<le> t"
    and "t < now + int_seconds (se_expires s - now) * second"
  shows "get t (se_id s) (se_user s) (save now s db) = Inr (Some s)"
  by (rule get_alive [OF ok_later [OF ok_save [OF assms(1-3)] assms(4)]])
    (simp add: save_law [OF assms(1-4)] assms(5))

lemma gone_after_revoke:
  assumes "ok now db" "now \<le> t"
  shows "get t sid uid (revoke sid uid' db) = Inr None"
  by (rule get_dead [OF ok_later [OF ok_revoke [OF assms(1)] assms(2)]])
    (simp add: revoke_law [OF assms])

end

section \<open>The store meets the contract\<close>

definition alive_sessions :: "session_db \<Rightarrow> timestamp \<Rightarrow> session set" where
  "alive_sessions db t = {s. \<exists>sid j e. sd_keys db sid = Some (j, e) \<and> t < e \<and> deserialize j = Inr s}"

definition fits_uuid :: "session \<Rightarrow> bool" where
  "fits_uuid s \<longleftrightarrow> session_uuid (se_id s) < 2 ^ 128 \<and> user_uuid (se_user s) < 2 ^ 128"

definition fresh_id :: "session_id \<Rightarrow> session_db \<Rightarrow> bool" where
  "fresh_id sid db \<longleftrightarrow> sd_keys db sid = None \<and> (\<forall>u. sid \<notin> fst ` set (sd_index db u))"

text \<open>Every key holds a session under its own identifier that lives no longer than the session, and
  while it is alive its user's sorted set has it; a member of a sorted set whose key exists is a
  session of that user, with its expiry as the score.\<close>

definition entry_ok :: "timestamp \<Rightarrow> session_db \<Rightarrow> session_id \<Rightarrow> session_json \<Rightarrow> timestamp \<Rightarrow> session \<Rightarrow> bool" where
  "entry_ok now db sid j e s \<longleftrightarrow> fits_uuid s \<and> j = serialize s \<and> se_id s = sid \<and> e \<le> se_expires s \<and>
     (now < e \<longrightarrow> (sid, se_expires s) \<in> set (sd_index db (se_user s))) \<and>
     (\<forall>u score. (sid, score) \<in> set (sd_index db u) \<longrightarrow> u = se_user s \<and> score = se_expires s)"

definition sessions_ok :: "timestamp \<Rightarrow> session_db \<Rightarrow> bool" where
  "sessions_ok now db \<longleftrightarrow>
     (\<forall>sid j e. sd_keys db sid = Some (j, e) \<longrightarrow> (\<exists>s. entry_ok now db sid j e s))"

lemma deserialize_serialize: "fits_uuid s \<Longrightarrow> deserialize (serialize s) = Inr s"
  by (cases "se_id s"; cases "se_user s")
    (simp add: deserialize_def serialize_def fits_uuid_def parse_uuid_str del: power_numeral)

lemma sessions_okD:
  "sessions_ok now db \<Longrightarrow> sd_keys db sid = Some (j, e) \<Longrightarrow> \<exists>s. entry_ok now db sid j e s"
  by (simp add: sessions_ok_def)

lemma entry_okD:
  assumes "entry_ok now db sid j e s"
  shows "fits_uuid s" "j = serialize s" "se_id s = sid" "e \<le> se_expires s" "deserialize j = Inr s"
    "now < e \<Longrightarrow> (sid, se_expires s) \<in> set (sd_index db (se_user s))"
    "(sid, score) \<in> set (sd_index db u) \<Longrightarrow> u = se_user s"
    "(sid, score) \<in> set (sd_index db u) \<Longrightarrow> score = se_expires s"
  using assms by (auto simp: entry_ok_def deserialize_serialize)

lemma alive_iff:
  assumes "sessions_ok now db"
  shows "s \<in> alive_sessions db t \<longleftrightarrow> fits_uuid s \<and>
    (\<exists>e. sd_keys db (se_id s) = Some (serialize s, e) \<and> t < e)"
proof
  assume "s \<in> alive_sessions db t"
  then obtain sid j e where k: "sd_keys db sid = Some (j, e)" "t < e" "deserialize j = Inr s"
    by (auto simp: alive_sessions_def)
  from sessions_okD [OF assms k(1)] obtain s' where s': "entry_ok now db sid j e s'" by blast
  show "fits_uuid s \<and> (\<exists>e. sd_keys db (se_id s) = Some (serialize s, e) \<and> t < e)"
    using k entry_okD [OF s'] by auto
next
  assume "fits_uuid s \<and> (\<exists>e. sd_keys db (se_id s) = Some (serialize s, e) \<and> t < e)"
  then show "s \<in> alive_sessions db t"
    unfolding alive_sessions_def using deserialize_serialize by blast
qed

lemma get_session_law:
  assumes "sessions_ok now db"
  shows "s \<in> alive_sessions db now \<Longrightarrow> get_session now (se_id s) (se_user s) db = Inr (Some s)"
    and "\<forall>s\<in>alive_sessions db now. \<not> (se_id s = sid \<and> se_user s = uid) \<Longrightarrow>
      get_session now sid uid db = Inr None"
proof -
  assume "s \<in> alive_sessions db now"
  then obtain e where s: "fits_uuid s" "sd_keys db (se_id s) = Some (serialize s, e)" "now < e"
    by (auto simp: alive_iff [OF assms])
  from sessions_okD [OF assms s(2)] obtain s' where s': "entry_ok now db (se_id s) (serialize s) e s'" by blast
  then have "now < se_expires s" using s(1,3) entry_okD(4,5) [OF s'] by (simp add: deserialize_serialize)
  then show "get_session now (se_id s) (se_user s) db = Inr (Some s)"
    using s by (simp add: get_session_def live_key_def deserialize_serialize)
next
  assume none: "\<forall>s\<in>alive_sessions db now. \<not> (se_id s = sid \<and> se_user s = uid)"
  show "get_session now sid uid db = Inr None"
  proof (cases "live_key db now sid")
    case (Some j)
    then obtain e where k: "sd_keys db sid = Some (j, e)" "now < e"
      by (auto simp: live_key_def split: option.splits prod.splits if_splits)
    from sessions_okD [OF assms k(1)] obtain s where "entry_ok now db sid j e s" by blast
    note s = entry_okD(5) [OF this] entry_okD(3) [OF this]
    then have "s \<in> alive_sessions db now" using k unfolding alive_sessions_def by blast
    then have "se_user s \<noteq> uid" using none s(2) by blast
    then show ?thesis by (simp add: get_session_def Some s(1))
  qed (simp add: get_session_def)
qed

lemma int_seconds_le: "0 < int_seconds d \<Longrightarrow> int_seconds d * second \<le> d"
  by (auto simp: int_seconds_def second_def split: if_splits)

lemma int_seconds_nonpos: "int_seconds d \<le> 0 \<Longrightarrow> now \<le> t \<Longrightarrow> \<not> t < now + int_seconds d * second"
  by (auto simp: second_def)

text \<open>A session that is saved with at least a second to live takes the key and the member.\<close>

lemma save_session_keys:
  "sd_keys (save_session now s db) i =
    (if 0 < int_seconds (se_expires s - now) \<and> i = se_id s
     then Some (serialize s, now + int_seconds (se_expires s - now) * second) else sd_keys db i)"
  by (simp add: save_session_def Let_def)

lemma dict_set_fresh_mem:
  assumes "k \<notin> fst ` set d"
  shows "x \<in> set (dict_set k v d) \<longleftrightarrow> x = (k, v) \<or> x \<in> set d"
  using dict_set_fresh [OF assms] by auto

lemma save_session_index:
  assumes "fresh_id (se_id s) db" "0 < int_seconds (se_expires s - now)"
  shows "x \<in> set (sd_index (save_session now s db) u) \<longleftrightarrow>
    (x \<in> set (sd_index db u) \<or> u = se_user s \<and> x = (se_id s, se_expires s)) \<and>
    (u = se_user s \<longrightarrow> \<not> (0 \<le> snd x \<and> snd x \<le> now))"
  using assms dict_set_fresh_mem [of "se_id s" "sd_index db (se_user s)" x "se_expires s"]
  by (auto simp: save_session_def Let_def fresh_id_def case_prod_beta)

lemma sessions_ok_save:
  assumes "sessions_ok now db" "fits_uuid s" "fresh_id (se_id s) db"
  shows "sessions_ok now (save_session now s db)"
proof (cases "0 < int_seconds (se_expires s - now)")
  case True
  note idx = save_session_index [OF assms(3) True]
  have le: "now + int_seconds (se_expires s - now) * second \<le> se_expires s"
    using int_seconds_le [OF True] by simp
  have pos: "now < se_expires s" using le True by (auto simp: second_def)
  have "\<exists>s'. entry_ok now (save_session now s db) sid j e s'"
    if k: "sd_keys (save_session now s db) sid = Some (j, e)" for sid j e
  proof (cases "sid = se_id s")
    case sid: True
    then have "j = serialize s" "e \<le> se_expires s" using k le True by (auto simp: save_session_keys)
    moreover have "(se_id s, score) \<notin> set (sd_index db u)" for score u
      using assms(3) by (force simp: fresh_id_def)
    ultimately have "entry_ok now (save_session now s db) sid j e s"
      using sid pos assms(2) by (auto simp: entry_ok_def idx)
    then show ?thesis by blast
  next
    case False
    then have "sd_keys db sid = Some (j, e)" using k by (simp add: save_session_keys)
    from sessions_okD [OF assms(1) this] obtain s' where s': "entry_ok now db sid j e s'" by blast
    have "entry_ok now (save_session now s db) sid j e s'"
      using s' False by (auto simp: entry_ok_def idx)
    then show ?thesis by blast
  qed
  then show ?thesis by (simp add: sessions_ok_def)
next
  case False
  then show ?thesis using assms(1) by (simp add: save_session_def Let_def)
qed

lemma sessions_ok_later: "sessions_ok now db \<Longrightarrow> now \<le> t \<Longrightarrow> sessions_ok t db"
  unfolding sessions_ok_def entry_ok_def by (meson le_less_trans)

lemma sessions_ok_revoke:
  assumes "sessions_ok now db"
  shows "sessions_ok now (revoke_session sid uid db)"
proof -
  have "\<exists>s. entry_ok now (revoke_session sid uid db) i j e s"
    if k: "sd_keys (revoke_session sid uid db) i = Some (j, e)" for i j e
  proof -
    have "i \<noteq> sid" "sd_keys db i = Some (j, e)"
      using k by (auto simp: revoke_session_def split: if_splits)
    with sessions_okD [OF assms this(2)] obtain s where "entry_ok now db i j e s" "i \<noteq> sid" by blast
    then have "entry_ok now (revoke_session sid uid db) i j e s"
      by (auto simp: entry_ok_def revoke_session_def split: if_splits)
    then show ?thesis by blast
  qed
  then show ?thesis by (simp add: sessions_ok_def)
qed

lemma revoke_all_keys:
  "sd_keys (revoke_all uid db) i =
    (if i \<in> fst ` set (sd_index db uid) then None else sd_keys db i)"
  by (auto simp: revoke_all_def Let_def)

lemma revoke_all_index: "sd_index (revoke_all uid db) u = (if u = uid then [] else sd_index db u)"
  by (auto simp: revoke_all_def Let_def)

lemma sessions_ok_revoke_all:
  assumes "sessions_ok now db"
  shows "sessions_ok now (revoke_all uid db)"
proof -
  have "\<exists>s. entry_ok now (revoke_all uid db) i j e s"
    if k: "sd_keys (revoke_all uid db) i = Some (j, e)" for i j e
  proof -
    have i: "i \<notin> fst ` set (sd_index db uid)" "sd_keys db i = Some (j, e)"
      using k by (auto simp: revoke_all_keys split: if_splits)
    from sessions_okD [OF assms this(2)] obtain s where s: "entry_ok now db i j e s" by blast
    moreover have "(i, score) \<notin> set (sd_index db uid)" for score using i(1) by (metis fst_conv imageI)
    ultimately have "entry_ok now (revoke_all uid db) i j e s"
      unfolding entry_ok_def revoke_all_index by (auto split: if_splits)
    then show ?thesis by blast
  qed
  then show ?thesis by (simp add: sessions_ok_def)
qed

lemma alive_save:
  assumes "sessions_ok now db" "fits_uuid s" "fresh_id (se_id s) db" "now \<le> t"
  shows "alive_sessions (save_session now s db) t = alive_sessions db t \<union>
    (if t < now + int_seconds (se_expires s - now) * second then {s} else {})"
proof (cases "0 < int_seconds (se_expires s - now)")
  case True
  let ?d = "now + int_seconds (se_expires s - now) * second"
  have "x \<in> alive_sessions (save_session now s db) t \<longleftrightarrow> x \<in> alive_sessions db t \<or> (x = s \<and> t < ?d)" for x
  proof (cases "se_id x = se_id s")
    case same: True
    have "x \<in> alive_sessions (save_session now s db) t \<longleftrightarrow> fits_uuid x \<and> serialize s = serialize x \<and> t < ?d"
      unfolding alive_iff [OF sessions_ok_save [OF assms(1-3)]] by (simp add: save_session_keys True same)
    moreover have "fits_uuid x \<and> serialize s = serialize x \<longleftrightarrow> x = s"
      using assms(2) deserialize_serialize [of s] deserialize_serialize [of x] by (metis sum.inject(2))
    moreover have "x \<notin> alive_sessions db t"
      unfolding alive_iff [OF assms(1)] using assms(3) by (simp add: same fresh_id_def)
    ultimately show ?thesis by blast
  next
    case False
    then show ?thesis
      unfolding alive_iff [OF sessions_ok_save [OF assms(1-3)]] alive_iff [OF assms(1)]
      by (auto simp: save_session_keys)
  qed
  then show ?thesis by auto
next
  case False
  then show ?thesis
    using int_seconds_nonpos [of "se_expires s - now" now t] assms(4) by (simp add: save_session_def Let_def)
qed

lemma alive_revoke:
  assumes "sessions_ok now db"
  shows "alive_sessions (revoke_session sid uid db) t = {s \<in> alive_sessions db t. se_id s \<noteq> sid}"
  unfolding set_eq_iff mem_Collect_eq alive_iff [OF sessions_ok_revoke [OF assms]] alive_iff [OF assms]
  by (auto simp: revoke_session_def)

lemma alive_indexed:
  assumes "sessions_ok now db" "now \<le> t" "s \<in> alive_sessions db t"
  shows "(se_id s, se_expires s) \<in> set (sd_index db (se_user s))" "t < se_expires s"
    "\<And>u score. (se_id s, score) \<in> set (sd_index db u) \<Longrightarrow> u = se_user s \<and> score = se_expires s"
proof -
  from assms(3) obtain e where k: "fits_uuid s" "sd_keys db (se_id s) = Some (serialize s, e)" "t < e"
    by (auto simp: alive_iff [OF assms(1)])
  from sessions_okD [OF assms(1) k(2)] obtain s' where s': "entry_ok now db (se_id s) (serialize s) e s'"
    by blast
  have "s' = s" using entry_okD(5) [OF s'] k(1) by (simp add: deserialize_serialize)
  then have s: "entry_ok now db (se_id s) (serialize s) e s" using s' by simp
  show "(se_id s, se_expires s) \<in> set (sd_index db (se_user s))"
    using entry_okD(6) [OF s] k(3) assms(2) by simp
  show "t < se_expires s" using entry_okD(4) [OF s] k(3) by simp
  show "u = se_user s \<and> score = se_expires s" if "(se_id s, score) \<in> set (sd_index db u)" for u score
    using entry_okD(7,8) [OF s that] by simp
qed

lemma alive_revoke_all:
  assumes "sessions_ok now db" "now \<le> t"
  shows "alive_sessions (revoke_all uid db) t = {s \<in> alive_sessions db t. se_user s \<noteq> uid}"
proof -
  have "s \<in> alive_sessions (revoke_all uid db) t \<longleftrightarrow>
      s \<in> alive_sessions db t \<and> se_id s \<notin> fst ` set (sd_index db uid)" for s
    unfolding alive_iff [OF sessions_ok_revoke_all [OF assms(1)]] alive_iff [OF assms(1)]
    by (auto simp: revoke_all_keys)
  moreover have "se_id s \<notin> fst ` set (sd_index db uid) \<longleftrightarrow> se_user s \<noteq> uid"
    if "s \<in> alive_sessions db t" for s
  proof
    assume "se_id s \<notin> fst ` set (sd_index db uid)"
    then show "se_user s \<noteq> uid" using alive_indexed(1) [OF assms that] by (metis fst_conv imageI)
  next
    assume "se_user s \<noteq> uid"
    then show "se_id s \<notin> fst ` set (sd_index db uid)"
      using alive_indexed(3) [OF assms that] by (metis imageE prod.collapse)
  qed
  ultimately show ?thesis by blast
qed

lemma deserialize_all_set:
  assumes "\<And>j. Some j \<in> set rs \<Longrightarrow> \<exists>s. deserialize j = Inr s"
  shows "\<exists>ss. deserialize_all rs = Inr ss \<and> set ss = {s. \<exists>j. Some j \<in> set rs \<and> deserialize j = Inr s}"
  using assms
proof (induction rs rule: deserialize_all.induct)
  case (3 j rs)
  obtain s where s: "deserialize j = Inr s" using "3.prems" by force
  obtain ss where "deserialize_all rs = Inr ss"
    "set ss = {s. \<exists>j. Some j \<in> set rs \<and> deserialize j = Inr s}"
    using "3.IH" "3.prems" by force
  then show ?case using s by (intro exI [of _ "s # ss"]) auto
qed auto

lemma active_ids_set: "set (active_ids now uid db) = {i. \<exists>score. (i, score) \<in> set (sd_index db uid) \<and> now \<le> score}"
  by (force simp: active_ids_def)

lemma list_active_law:
  assumes "sessions_ok now db"
  shows "\<exists>ss. list_active now uid db = Inr ss \<and> set ss = {s \<in> alive_sessions db now. se_user s = uid}"
proof -
  let ?rs = "map (live_key db now) (active_ids now uid db)"
  have live: "live_key db now i = Some j \<longleftrightarrow> (\<exists>e. sd_keys db i = Some (j, e) \<and> now < e)" for i j
    by (auto simp: live_key_def split: option.splits)
  have dec: "\<exists>s. deserialize j = Inr s \<and> se_id s = i \<and> s \<in> alive_sessions db now"
    if "live_key db now i = Some j" for i j
  proof -
    from that obtain e where k: "sd_keys db i = Some (j, e)" "now < e" by (auto simp: live)
    from sessions_okD [OF assms k(1)] obtain s where "entry_ok now db i j e s" by blast
    then have "deserialize j = Inr s" "se_id s = i" by (rule entry_okD)+
    then show ?thesis using k unfolding alive_sessions_def by blast
  qed
  have "\<exists>ss. deserialize_all ?rs = Inr ss \<and> set ss = {s. \<exists>j. Some j \<in> set ?rs \<and> deserialize j = Inr s}"
    by (rule deserialize_all_set) (use dec in force)
  moreover have "{s. \<exists>j. Some j \<in> set ?rs \<and> deserialize j = Inr s} = {s \<in> alive_sessions db now. se_user s = uid}"
  proof (intro equalityI subsetI)
    fix s assume "s \<in> {s. \<exists>j. Some j \<in> set ?rs \<and> deserialize j = Inr s}"
    then obtain i j score where i: "(i, score) \<in> set (sd_index db uid)" "live_key db now i = Some j"
      "deserialize j = Inr s" by (auto simp: active_ids_set dest!: sym [of "Some _"])
    with dec [OF i(2)] have "se_id s = i" "s \<in> alive_sessions db now" by auto
    then show "s \<in> {s \<in> alive_sessions db now. se_user s = uid}"
      using alive_indexed(3) [OF assms order_refl] i(1) by auto
  next
    fix s assume s: "s \<in> {s \<in> alive_sessions db now. se_user s = uid}"
    then have "se_id s \<in> set (active_ids now uid db)"
      using alive_indexed(1,2) [OF assms order_refl, of s] by (auto simp: active_ids_set)
    moreover have "live_key db now (se_id s) = Some (serialize s)" "deserialize (serialize s) = Inr s"
      using s by (auto simp: alive_iff [OF assms] live deserialize_serialize)
    ultimately show "s \<in> {s. \<exists>j. Some j \<in> set ?rs \<and> deserialize j = Inr s}" by force
  qed
  ultimately show ?thesis by (simp add: list_active_def)
qed

interpretation redis_sessions: session_contract alive_sessions sessions_ok fresh_id fits_uuid
    save_session get_session revoke_session list_active revoke_all
  by unfold_locales (simp_all add: get_session_law alive_save alive_revoke alive_revoke_all
      list_active_law sessions_ok_later sessions_ok_save sessions_ok_revoke sessions_ok_revoke_all)

definition empty_sessions :: session_db where
  "empty_sessions = \<lparr>sd_keys = Map.empty, sd_index = (\<lambda>_. [])\<rparr>"

lemma sessions_ok_empty [simp]: "sessions_ok now empty_sessions"
  by (simp add: sessions_ok_def empty_sessions_def)

text \<open>C36 The Redis session store implements a set of live sessions: with its invariant holding,
  saving a session of new identity adds exactly that session for its whole seconds to live, revoking
  removes the session of that identity, revoking all removes those of the user and of nobody else,
  the listing returns the user's live sessions, and every operation keeps the invariant.\<close>

theorem session_store_refines_set:
  assumes "sessions_ok now db" "fits_uuid s" "fresh_id (se_id s) db" "now \<le> t"
  shows "alive_sessions (save_session now s db) t = alive_sessions db t \<union>
        (if t < now + int_seconds (se_expires s - now) * second then {s} else {}) \<and>
      alive_sessions (revoke_session sid uid db) t = {x \<in> alive_sessions db t. se_id x \<noteq> sid} \<and>
      alive_sessions (revoke_all uid db) t = {x \<in> alive_sessions db t. se_user x \<noteq> uid} \<and>
      map_sum id set (list_active now uid db) = Inr {x \<in> alive_sessions db now. se_user x = uid} \<and>
      sessions_ok t (save_session now s db) \<and> sessions_ok t (revoke_session sid uid db) \<and>
      sessions_ok t (revoke_all uid db)"
  using redis_sessions.save_law [OF assms] redis_sessions.revoke_law [OF assms(1,4)]
    redis_sessions.revoke_every_law [OF assms(1,4)] redis_sessions.listing_law [OF assms(1), of uid]
    redis_sessions.ok_later [OF redis_sessions.ok_save [OF assms(1-3)] assms(4)]
    redis_sessions.ok_later [OF redis_sessions.ok_revoke [OF assms(1)] assms(4)]
    redis_sessions.ok_later [OF redis_sessions.ok_revoke_every [OF assms(1)] assms(4)]
  by auto

definition sample_session :: session where
  "sample_session = \<lparr>se_id = SessionId 5, se_user = UserId 7, se_expires = 3600000000,
     se_agent = ''curl'', se_ip = ''9.9.9.9''\<rparr>"

lemma session_store_refines_set_witness:
  "alive_sessions (save_session 0 sample_session empty_sessions) 10 = alive_sessions empty_sessions 10 \<union>
     (if (10::int) < 0 + int_seconds (se_expires sample_session - 0) * second then {sample_session} else {})"
  by (rule session_store_refines_set [of 0 empty_sessions sample_session 10 "SessionId 5" "UserId 7", THEN conjunct1])
    (simp_all add: fits_uuid_def sample_session_def fresh_id_def empty_sessions_def sessions_ok_def)

end
