(* ===== verification/Auth.thy ===== *)
theory Auth
  imports Sessions Money
begin

text \<open>Accounts, login and passwords: the use cases of \<^verbatim>\<open>application/users/use_cases\<close>, the user
  repository, the reset-token store and the audit log they write to, the JWT codec and
  \<open>resolve_identity\<close> (\<^verbatim>\<open>outbound/auth/jwt.py\<close>, \<^verbatim>\<open>inbound/http/auth/identity.py\<close>), and the
  controllers that compose them. The SQL part of the state is rolled back when a request fails;
  Redis and the mailer are not. bcrypt, SHA-256, the JWT library and PostgreSQL's \<open>INET\<close> input are
  parameters.\<close>

section \<open>State\<close>

datatype auth_error =
    DomainError exn
  | UserAlreadyExistsError string
  | InvalidCredentialsError
  | InvalidCurrentPasswordError
  | UserNotFoundError
  | InvalidPasswordResetTokenError
  | UnauthenticatedError
  | StorageFailure

record user =
  us_id :: user_id
  us_email :: email
  us_password_hash :: string
  us_created_at :: timestamp
  us_plan :: plan

record reset_token =
  rt_id :: password_reset_token_id
  rt_user :: user_id
  rt_hash :: string
  rt_expires :: timestamp

record auth_event =
  ae_type :: audit_event_type
  ae_user :: user_id
  ae_at :: timestamp
  ae_ip :: "string option"
  ae_agent :: "string option"

record auth_sql =
  aq_users :: "user list"
  aq_tokens :: "reset_token list"
  aq_audit :: "auth_event list"

record auth_state =
  as_sql :: auth_sql
  as_sessions :: session_db
  as_mail :: "(email \<times> string \<times> timestamp) list"

type_synonym 'a outcome_of = "(auth_error + 'a) \<times> auth_state"

text \<open>The request's SQL session commits when the handler returns and rolls back when it raises.\<close>

definition in_request :: "(auth_state \<Rightarrow> 'a outcome_of) \<Rightarrow> auth_state \<Rightarrow> 'a outcome_of" where
  "in_request f st = (case f st of
     (Inl e, st') \<Rightarrow> (Inl e, st'\<lparr>as_sql := as_sql st\<rparr>)
   | (Inr v, st') \<Rightarrow> (Inr v, st'))"

section \<open>Repositories\<close>

text \<open>\<open>merge\<close> and \<open>flush\<close>, against the primary key and the unique index on the lower-case address.\<close>

definition save_user :: "user \<Rightarrow> auth_sql \<Rightarrow> auth_error + auth_sql" where
  "save_user u q =
     (if list_ex (\<lambda>x. us_id x \<noteq> us_id u \<and>
          lower (email_value (us_email x)) = lower (email_value (us_email u))) (aq_users q)
      then Inl StorageFailure
      else Inr (q\<lparr>aq_users := upsert us_id u (aq_users q)\<rparr>))"

definition get_user :: "user_id \<Rightarrow> auth_sql \<Rightarrow> user option" where
  "get_user uid q = find_by (\<lambda>u. us_id u = uid) (aq_users q)"

definition get_by_email :: "email \<Rightarrow> auth_sql \<Rightarrow> user option" where
  "get_by_email e q = find_by (\<lambda>u. us_email u = e) (aq_users q)"

definition change_user_password :: "string \<Rightarrow> user \<Rightarrow> user" where
  "change_user_password new_hash u = u\<lparr>us_password_hash := new_hash\<rparr>"

definition save_token :: "reset_token \<Rightarrow> auth_sql \<Rightarrow> auth_error + auth_sql" where
  "save_token t q =
     (if list_ex (\<lambda>x. rt_id x = rt_id t \<or> rt_hash x = rt_hash t) (aq_tokens q) then Inl StorageFailure
      else Inr (q\<lparr>aq_tokens := aq_tokens q @ [t]\<rparr>))"

definition get_valid :: "timestamp \<Rightarrow> string \<Rightarrow> auth_sql \<Rightarrow> reset_token option" where
  "get_valid now h q = find_by (\<lambda>t. rt_hash t = h \<and> now < rt_expires t) (aq_tokens q)"

definition invalidate :: "password_reset_token_id \<Rightarrow> auth_sql \<Rightarrow> auth_sql" where
  "invalidate i q = q\<lparr>aq_tokens := filter (\<lambda>t. rt_id t \<noteq> i) (aq_tokens q)\<rparr>"

text \<open>The column \<open>ip\<close> has type \<open>INET\<close>; \<open>inet_ok\<close> says what it accepts.\<close>

definition record_auth_event :: "(string \<Rightarrow> bool) \<Rightarrow> auth_event \<Rightarrow> auth_sql \<Rightarrow> auth_error + auth_sql" where
  "record_auth_event inet_ok e q =
     (case ae_ip e of
        Some ip \<Rightarrow> if inet_ok ip then Inr (q\<lparr>aq_audit := aq_audit q @ [e]\<rparr>) else Inl StorageFailure
      | None \<Rightarrow> Inr (q\<lparr>aq_audit := aq_audit q @ [e]\<rparr>))"

section \<open>Use cases\<close>

definition dummy_hash :: string where
  "dummy_hash = ''$2b$12$FzSGbDqRa0dL0WzZiCQivuY.jetzzuJc1tFFi2JWBwMVVPjQOxtEG''"

definition lift_domain :: "exn + 'a \<Rightarrow> auth_error + 'a" where
  "lift_domain r = (case r of Inl e \<Rightarrow> Inl (DomainError e) | Inr x \<Rightarrow> Inr x)"

definition with_sql :: "auth_state \<Rightarrow> auth_error + auth_sql \<Rightarrow> (auth_state \<Rightarrow> 'a outcome_of) \<Rightarrow> 'a outcome_of" where
  "with_sql st r k = (case r of Inl e \<Rightarrow> (Inl e, st) | Inr q \<Rightarrow> k (st\<lparr>as_sql := q\<rparr>))"

definition create_user ::
  "(raw_password \<Rightarrow> string) \<Rightarrow> (string \<Rightarrow> bool) \<Rightarrow> timestamp \<Rightarrow> user_id \<Rightarrow> string \<Rightarrow> string
     \<Rightarrow> auth_state \<Rightarrow> user_id outcome_of" where
  "create_user hash_pw inet_ok now new_id raw_email raw_pw st =
     (case lift_domain (mk_email raw_email) of Inl e \<Rightarrow> (Inl e, st) | Inr addr \<Rightarrow>
      case lift_domain (mk_raw_password raw_pw) of Inl e \<Rightarrow> (Inl e, st) | Inr pw \<Rightarrow>
      if get_by_email addr (as_sql st) \<noteq> None then (Inl (UserAlreadyExistsError (email_value addr)), st)
      else let u = \<lparr>us_id = new_id, us_email = addr, us_password_hash = hash_pw pw,
                    us_created_at = now, us_plan = FREE\<rparr> in
        with_sql st (save_user u (as_sql st)) (\<lambda>st.
        with_sql st (record_auth_event inet_ok \<lparr>ae_type = USER_REGISTERED, ae_user = us_id u, ae_at = now,
            ae_ip = None, ae_agent = None\<rparr> (as_sql st)) (\<lambda>st.
        (Inr (us_id u), st))))"

definition login ::
  "(raw_password \<Rightarrow> string \<Rightarrow> bool) \<Rightarrow> (string \<Rightarrow> bool) \<Rightarrow> int \<Rightarrow> timestamp \<Rightarrow> session_id
     \<Rightarrow> string \<Rightarrow> string \<Rightarrow> string \<Rightarrow> string \<Rightarrow> auth_state \<Rightarrow> session outcome_of" where
  "login verify inet_ok session_ttl now new_sid raw_email raw_pw agent ip st =
     (case lift_domain (mk_email raw_email) of Inl e \<Rightarrow> (Inl e, st) | Inr addr \<Rightarrow>
      let u = get_by_email addr (as_sql st) in
      case lift_domain (mk_raw_password raw_pw) of Inl e \<Rightarrow> (Inl e, st) | Inr pw \<Rightarrow>
      case u of None \<Rightarrow> (let _ = verify pw dummy_hash in (Inl InvalidCredentialsError, st))
      | Some u \<Rightarrow>
        if \<not> verify pw (us_password_hash u) then (Inl InvalidCredentialsError, st)
        else let s = \<lparr>se_id = new_sid, se_user = us_id u, se_expires = now + session_ttl,
                      se_agent = agent, se_ip = ip\<rparr>;
                 st = st\<lparr>as_sessions := save_session now s (as_sessions st)\<rparr> in
          with_sql st (record_auth_event inet_ok \<lparr>ae_type = USER_LOGIN, ae_user = us_id u, ae_at = now,
              ae_ip = Some ip, ae_agent = Some agent\<rparr> (as_sql st)) (\<lambda>st. (Inr s, st)))"

definition logout ::
  "timestamp \<Rightarrow> session_id \<Rightarrow> user_id \<Rightarrow> auth_state \<Rightarrow> unit outcome_of" where
  "logout now sid uid st =
     (let st = st\<lparr>as_sessions := revoke_session sid uid (as_sessions st)\<rparr> in
      with_sql st (record_auth_event (\<lambda>_. True) \<lparr>ae_type = USER_LOGOUT, ae_user = uid, ae_at = now,
          ae_ip = None, ae_agent = None\<rparr> (as_sql st)) (\<lambda>st. (Inr (), st)))"

definition change_password ::
  "(raw_password \<Rightarrow> string) \<Rightarrow> (raw_password \<Rightarrow> string \<Rightarrow> bool) \<Rightarrow> timestamp \<Rightarrow> user_id \<Rightarrow> string \<Rightarrow> string
     \<Rightarrow> auth_state \<Rightarrow> unit outcome_of" where
  "change_password hash_pw verify now uid current new st =
     (case get_user uid (as_sql st) of None \<Rightarrow> (Inl UserNotFoundError, st) | Some u \<Rightarrow>
      case lift_domain (mk_raw_password current) of Inl e \<Rightarrow> (Inl e, st) | Inr cur \<Rightarrow>
      if \<not> verify cur (us_password_hash u) then (Inl InvalidCurrentPasswordError, st)
      else case lift_domain (mk_raw_password new) of Inl e \<Rightarrow> (Inl e, st) | Inr pw \<Rightarrow>
        with_sql st (save_user (change_user_password (hash_pw pw) u) (as_sql st)) (\<lambda>st.
        let st = st\<lparr>as_sessions := revoke_all uid (as_sessions st)\<rparr> in
        with_sql st (record_auth_event (\<lambda>_. True) \<lparr>ae_type = PASSWORD_CHANGED, ae_user = uid, ae_at = now,
            ae_ip = None, ae_agent = None\<rparr> (as_sql st)) (\<lambda>st. (Inr (), st))))"

definition token_ttl :: int where "token_ttl = 3600 * second"

definition start_password_reset ::
  "(string \<Rightarrow> string) \<Rightarrow> timestamp \<Rightarrow> password_reset_token_id \<Rightarrow> string \<Rightarrow> string
     \<Rightarrow> auth_state \<Rightarrow> unit outcome_of" where
  "start_password_reset sha256_hex now new_tid raw_token raw_email st =
     (case lift_domain (mk_email raw_email) of Inl e \<Rightarrow> (Inl e, st) | Inr addr \<Rightarrow>
      case get_by_email addr (as_sql st) of None \<Rightarrow> (Inr (), st)
      | Some u \<Rightarrow>
        with_sql st (save_token \<lparr>rt_id = new_tid, rt_user = us_id u, rt_hash = sha256_hex raw_token,
            rt_expires = now + token_ttl\<rparr> (as_sql st)) (\<lambda>st.
        let st = st\<lparr>as_mail := as_mail st @ [(addr, raw_token, now + token_ttl)]\<rparr> in
        with_sql st (record_auth_event (\<lambda>_. True) \<lparr>ae_type = PASSWORD_RESET_REQUESTED, ae_user = us_id u,
            ae_at = now, ae_ip = None, ae_agent = None\<rparr> (as_sql st)) (\<lambda>st. (Inr (), st))))"

definition confirm_password_reset ::
  "(string \<Rightarrow> string) \<Rightarrow> (raw_password \<Rightarrow> string) \<Rightarrow> timestamp \<Rightarrow> string \<Rightarrow> string
     \<Rightarrow> auth_state \<Rightarrow> unit outcome_of" where
  "confirm_password_reset sha256_hex hash_pw now token new st =
     (case get_valid now (sha256_hex token) (as_sql st) of
        None \<Rightarrow> (Inl InvalidPasswordResetTokenError, st)
      | Some t \<Rightarrow>
      case get_user (rt_user t) (as_sql st) of None \<Rightarrow> (Inl InvalidPasswordResetTokenError, st)
      | Some u \<Rightarrow>
      case lift_domain (mk_raw_password new) of Inl e \<Rightarrow> (Inl e, st) | Inr pw \<Rightarrow>
        with_sql st (save_user (change_user_password (hash_pw pw) u) (as_sql st)) (\<lambda>st.
        let st = st\<lparr>as_sql := invalidate (rt_id t) (as_sql st)\<rparr>;
            st = st\<lparr>as_sessions := revoke_all (us_id u) (as_sessions st)\<rparr> in
        with_sql st (record_auth_event (\<lambda>_. True) \<lparr>ae_type = PASSWORD_RESET_CONFIRMED, ae_user = us_id u,
            ae_at = now, ae_ip = None, ae_agent = None\<rparr> (as_sql st)) (\<lambda>st. (Inr (), st))))"

section \<open>Tokens and identity\<close>

text \<open>What \<open>jwt.decode\<close> gives: the string claims of a valid token, \<open>InvalidSignatureError\<close>, or
  another \<open>PyJWTError\<close> (expired, malformed, a required claim missing).\<close>

datatype jwt_result = JwtPayload "(string \<times> string) list" | JwtInvalidSignature | JwtError

record jwt_codec =
  jc_signing_key :: string
  jc_other_keys :: "string list"

definition verification_keys :: "jwt_codec \<Rightarrow> string list" where
  "verification_keys c = jc_signing_key c # jc_other_keys c"

definition jwt_payload :: "session \<Rightarrow> (string \<times> string) list" where
  "jwt_payload s = [(''sid'', uuid_str (session_uuid (se_id s))), (''uid'', uuid_str (user_uuid (se_user s)))]"

text \<open>\<open>jwt_encode claims exp key\<close> is \<open>jwt.encode\<close> and \<open>jwt_decode now token key\<close> is \<open>jwt.decode\<close>.\<close>

definition encode_session ::
  "((string \<times> string) list \<Rightarrow> timestamp \<Rightarrow> string \<Rightarrow> string) \<Rightarrow> jwt_codec \<Rightarrow> session \<Rightarrow> string" where
  "encode_session jwt_encode c s = jwt_encode (jwt_payload s) (se_expires s) (jc_signing_key c)"

fun decode_with :: "(string \<Rightarrow> jwt_result) \<Rightarrow> string list \<Rightarrow> (string \<times> string) list option" where
  "decode_with dec [] = None"
| "decode_with dec (k # ks) = (case dec k of
     JwtPayload p \<Rightarrow> Some p | JwtInvalidSignature \<Rightarrow> decode_with dec ks | JwtError \<Rightarrow> None)"

definition decode_session ::
  "(timestamp \<Rightarrow> string \<Rightarrow> string \<Rightarrow> jwt_result) \<Rightarrow> jwt_codec \<Rightarrow> timestamp \<Rightarrow> string \<Rightarrow> (user_id \<times> session_id) option" where
  "decode_session jwt_decode c now token =
     (case decode_with (jwt_decode now token) (verification_keys c) of None \<Rightarrow> None
      | Some p \<Rightarrow> (case (Option.bind (map_of p ''uid'') parse_uuid, Option.bind (map_of p ''sid'') parse_uuid) of
           (Some u, Some s) \<Rightarrow> Some (UserId u, SessionId s) | _ \<Rightarrow> None))"

definition resolve_identity ::
  "(timestamp \<Rightarrow> string \<Rightarrow> string \<Rightarrow> jwt_result) \<Rightarrow> jwt_codec \<Rightarrow> timestamp \<Rightarrow> string option \<Rightarrow> session_db
     \<Rightarrow> auth_error + user_id \<times> session_id" where
  "resolve_identity jwt_decode c now cookie db =
     (case cookie of None \<Rightarrow> Inl UnauthenticatedError
      | Some token \<Rightarrow> (case decode_session jwt_decode c now token of None \<Rightarrow> Inl UnauthenticatedError
        | Some (uid, sid) \<Rightarrow> (case get_session now sid uid db of
            Inl e \<Rightarrow> Inl (DomainError e)
          | Inr None \<Rightarrow> Inl UnauthenticatedError
          | Inr (Some _) \<Rightarrow> Inr (uid, sid))))"

section \<open>Controllers\<close>

text \<open>The address of the peer is \<open>unknown\<close> when the server does not have one.\<close>

definition peer_of :: "string option \<Rightarrow> string" where
  "peer_of client = (case client of Some host \<Rightarrow> host | None \<Rightarrow> ''unknown'')"

definition login_endpoint ::
  "((string \<times> string) list \<Rightarrow> timestamp \<Rightarrow> string \<Rightarrow> string) \<Rightarrow> jwt_codec
     \<Rightarrow> (raw_password \<Rightarrow> string \<Rightarrow> bool) \<Rightarrow> (string \<Rightarrow> bool) \<Rightarrow> int \<Rightarrow> timestamp \<Rightarrow> session_id
     \<Rightarrow> string \<Rightarrow> string \<Rightarrow> string option \<Rightarrow> string option \<Rightarrow> auth_state \<Rightarrow> (string \<times> string) outcome_of" where
  "login_endpoint jwt_encode c verify inet_ok session_ttl now new_sid raw_email raw_pw agent client =
     in_request (\<lambda>st.
       case login verify inet_ok session_ttl now new_sid raw_email raw_pw
          (case agent of Some a \<Rightarrow> a | None \<Rightarrow> '''') (peer_of client) st of
         (Inl e, st) \<Rightarrow> (Inl e, st)
       | (Inr s, st) \<Rightarrow> (Inr (uuid_str (user_uuid (se_user s)), encode_session jwt_encode c s), st))"

definition register_endpoint ::
  "((string \<times> string) list \<Rightarrow> timestamp \<Rightarrow> string \<Rightarrow> string) \<Rightarrow> jwt_codec
     \<Rightarrow> (raw_password \<Rightarrow> string) \<Rightarrow> (string \<Rightarrow> bool) \<Rightarrow> int \<Rightarrow> timestamp \<Rightarrow> user_id \<Rightarrow> session_id
     \<Rightarrow> string \<Rightarrow> string \<Rightarrow> string option \<Rightarrow> string option \<Rightarrow> auth_state \<Rightarrow> (string \<times> string) outcome_of" where
  "register_endpoint jwt_encode c hash_pw inet_ok session_ttl now new_id new_sid raw_email raw_pw agent client =
     in_request (\<lambda>st.
       case create_user hash_pw inet_ok now new_id raw_email raw_pw st of
         (Inl e, st) \<Rightarrow> (Inl e, st)
       | (Inr uid, st) \<Rightarrow>
         let a = (case agent of Some a \<Rightarrow> a | None \<Rightarrow> ''''); ip = peer_of client;
             s = \<lparr>se_id = new_sid, se_user = uid, se_expires = now + session_ttl, se_agent = a, se_ip = ip\<rparr>;
             st = st\<lparr>as_sessions := save_session now s (as_sessions st)\<rparr> in
         with_sql st (record_auth_event inet_ok \<lparr>ae_type = USER_REGISTERED, ae_user = uid, ae_at = now,
             ae_ip = Some ip, ae_agent = Some a\<rparr> (as_sql st)) (\<lambda>st.
         (Inr (uuid_str (user_uuid uid), encode_session jwt_encode c s), st)))"

text \<open>Logging out ends the caller's own session; the other endpoint takes any identifier.\<close>

definition logout_endpoint ::
  "timestamp \<Rightarrow> user_id \<times> session_id \<Rightarrow> auth_state \<Rightarrow> unit outcome_of" where
  "logout_endpoint now caller = in_request (logout now (snd caller) (fst caller))"

definition revoke_endpoint ::
  "timestamp \<Rightarrow> user_id \<times> session_id \<Rightarrow> session_id \<Rightarrow> auth_state \<Rightarrow> unit outcome_of" where
  "revoke_endpoint now caller target = in_request (logout now target (fst caller))"

definition list_sessions_endpoint ::
  "timestamp \<Rightarrow> user_id \<times> session_id \<Rightarrow> auth_state
     \<Rightarrow> auth_error + (string \<times> string \<times> string \<times> timestamp) list" where
  "list_sessions_endpoint now caller st =
     (case list_active now (fst caller) (as_sessions st) of
        Inl e \<Rightarrow> Inl (DomainError e)
      | Inr ss \<Rightarrow> Inr (map (\<lambda>s. (uuid_str (session_uuid (se_id s)), se_agent s, se_ip s, se_expires s)) ss))"

definition change_password_endpoint ::
  "(raw_password \<Rightarrow> string) \<Rightarrow> (raw_password \<Rightarrow> string \<Rightarrow> bool) \<Rightarrow> timestamp \<Rightarrow> user_id \<times> session_id
     \<Rightarrow> string \<Rightarrow> string \<Rightarrow> auth_state \<Rightarrow> unit outcome_of" where
  "change_password_endpoint hash_pw verify now caller current new =
     in_request (change_password hash_pw verify now (fst caller) current new)"

definition reset_request_endpoint ::
  "(string \<Rightarrow> string) \<Rightarrow> timestamp \<Rightarrow> password_reset_token_id \<Rightarrow> string \<Rightarrow> string
     \<Rightarrow> auth_state \<Rightarrow> unit outcome_of" where
  "reset_request_endpoint sha256_hex now new_tid raw_token raw_email =
     in_request (start_password_reset sha256_hex now new_tid raw_token raw_email)"

definition reset_confirm_endpoint ::
  "(string \<Rightarrow> string) \<Rightarrow> (raw_password \<Rightarrow> string) \<Rightarrow> timestamp \<Rightarrow> string \<Rightarrow> string
     \<Rightarrow> auth_state \<Rightarrow> unit outcome_of" where
  "reset_confirm_endpoint sha256_hex hash_pw now token new =
     in_request (confirm_password_reset sha256_hex hash_pw now token new)"

section \<open>Lemmas\<close>

lemma lift_domain_simps [simp]:
  "lift_domain (Inl e) = Inl (DomainError e)" "lift_domain (Inr x) = Inr x"
  by (simp_all add: lift_domain_def)

lemma with_sql_simps [simp]:
  "with_sql st (Inl e) k = (Inl e, st)" "with_sql st (Inr q) k = k (st\<lparr>as_sql := q\<rparr>)"
  by (simp_all add: with_sql_def)

lemma record_auth_event_silent [simp]:
  "ae_ip e = None \<Longrightarrow> record_auth_event inet_ok e q = Inr (q\<lparr>aq_audit := aq_audit q @ [e]\<rparr>)"
  by (simp add: record_auth_event_def)

text \<open>A JWT library that hands back the claims of a token it signed until the whole second the
  token expires in.\<close>

definition jwt_reads ::
  "((string \<times> string) list \<Rightarrow> timestamp \<Rightarrow> string \<Rightarrow> string) \<Rightarrow> (timestamp \<Rightarrow> string \<Rightarrow> string \<Rightarrow> jwt_result)
     \<Rightarrow> string \<Rightarrow> session \<Rightarrow> bool" where
  "jwt_reads jwt_encode jwt_decode key s \<longleftrightarrow>
     (\<forall>t < se_expires s div second * second.
        jwt_decode t (jwt_encode (jwt_payload s) (se_expires s) key) key = JwtPayload (jwt_payload s))"

lemma decode_encode_session:
  assumes "jwt_reads jwt_encode jwt_decode (jc_signing_key c) s" "fits_uuid s"
    and "t < se_expires s div second * second"
  shows "decode_session jwt_decode c t (encode_session jwt_encode c s) = Some (se_user s, se_id s)"
proof -
  have "decode_with (jwt_decode t (encode_session jwt_encode c s)) (verification_keys c) = Some (jwt_payload s)"
    using assms(1,3) by (simp add: verification_keys_def encode_session_def jwt_reads_def)
  then show ?thesis
    using assms(2) by (cases "se_id s"; cases "se_user s")
      (simp add: decode_session_def jwt_payload_def parse_uuid_str fits_uuid_def del: power_numeral)
qed

lemma resolve_identity_Inr:
  "resolve_identity jwt_decode c t cookie db = Inr (uid, sid) \<longleftrightarrow>
    (\<exists>token s. cookie = Some token \<and> decode_session jwt_decode c t token = Some (uid, sid) \<and>
      get_session t sid uid db = Inr (Some s))"
  by (auto simp: resolve_identity_def split: option.splits sum.splits prod.splits)

lemma login_success:
  assumes "login verify inet_ok session_ttl now sid raw_email raw_pw agent ip st = (Inr s, st')"
  shows "\<exists>u pw addr. mk_email raw_email = Inr addr \<and> mk_raw_password raw_pw = Inr pw \<and>
      u \<in> set (aq_users (as_sql st)) \<and> us_email u = addr \<and> verify pw (us_password_hash u) \<and>
      s = \<lparr>se_id = sid, se_user = us_id u, se_expires = now + session_ttl, se_agent = agent, se_ip = ip\<rparr> \<and>
      as_sessions st' = save_session now s (as_sessions st) \<and>
      aq_users (as_sql st') = aq_users (as_sql st)"
proof -
  obtain addr where a: "mk_email raw_email = Inr addr"
    using assms by (cases "mk_email raw_email") (auto simp: login_def)
  obtain pw where p: "mk_raw_password raw_pw = Inr pw"
    using assms a by (cases "mk_raw_password raw_pw") (auto simp: login_def Let_def)
  obtain u where u: "get_by_email addr (as_sql st) = Some u"
    using assms a p by (cases "get_by_email addr (as_sql st)") (auto simp: login_def Let_def)
  have v: "verify pw (us_password_hash u)"
    using assms a p u by (auto simp: login_def Let_def split: if_splits)
  have "u \<in> set (aq_users (as_sql st)) \<and> us_email u = addr"
    using find_by_Some [OF u [unfolded get_by_email_def]] by simp
  moreover have "inet_ok ip" using assms a p u v
    by (simp add: login_def Let_def record_auth_event_def split: if_splits)
  ultimately show ?thesis
    using assms a p u v by (auto simp: login_def Let_def record_auth_event_def)
qed

lemma change_password_success:
  assumes "change_password hash_pw verify now uid current new st = (Inr (), st')"
  shows "as_sessions st' = revoke_all uid (as_sessions st)"
  using assms
  by (auto simp: change_password_def Let_def with_sql_def split: option.splits sum.splits if_splits)

lemma confirm_password_reset_success:
  assumes "confirm_password_reset sha256_hex hash_pw now token new st = (Inr (), st')"
  shows "\<exists>t u pw q. get_valid now (sha256_hex token) (as_sql st) = Some t \<and>
      get_user (rt_user t) (as_sql st) = Some u \<and> mk_raw_password new = Inr pw \<and>
      save_user (change_user_password (hash_pw pw) u) (as_sql st) = Inr q \<and>
      aq_users (as_sql st') = aq_users q \<and>
      aq_tokens (as_sql st') = filter (\<lambda>x. rt_id x \<noteq> rt_id t) (aq_tokens (as_sql st)) \<and>
      as_sessions st' = revoke_all (us_id u) (as_sessions st)"
proof -
  obtain t where t: "get_valid now (sha256_hex token) (as_sql st) = Some t"
    using assms by (cases "get_valid now (sha256_hex token) (as_sql st)") (auto simp: confirm_password_reset_def)
  obtain u where u: "get_user (rt_user t) (as_sql st) = Some u"
    using assms t by (cases "get_user (rt_user t) (as_sql st)") (auto simp: confirm_password_reset_def)
  obtain pw where p: "mk_raw_password new = Inr pw"
    using assms t u by (cases "mk_raw_password new") (auto simp: confirm_password_reset_def)
  obtain q where q: "save_user (change_user_password (hash_pw pw) u) (as_sql st) = Inr q"
    using assms t u p by (cases "save_user (change_user_password (hash_pw pw) u) (as_sql st)")
      (auto simp: confirm_password_reset_def)
  have "aq_tokens q = aq_tokens (as_sql st)" using q by (auto simp: save_user_def split: if_splits)
  then show ?thesis using assms t u p q
    by (auto simp: confirm_password_reset_def Let_def invalidate_def)
qed

lemma in_request_Inr: "in_request f st = (Inr v, st') \<longleftrightarrow> f st = (Inr v, st')"
  by (auto simp: in_request_def split: prod.splits sum.splits)

section \<open>Properties\<close>

text \<open>C37 A login that succeeds was for a stored account whose hash accepts the password, and the token
  it hands out identifies that account, under the new session, until a second before the session
  expires. The JWT library is assumed to hand back the claims it signed.\<close>

theorem login_opens_session:
  assumes "login_endpoint jwt_encode c verify inet_ok session_ttl now sid raw_email raw_pw agent client st
      = (Inr (shown_id, token), st')"
    and "sessions_ok now (as_sessions st)" "fresh_id sid (as_sessions st)" "session_uuid sid < 2 ^ 128"
    and "\<forall>u\<in>set (aq_users (as_sql st)). user_uuid (us_id u) < 2 ^ 128"
    and "\<forall>s. jwt_reads jwt_encode jwt_decode (jc_signing_key c) s"
    and "now \<le> t" "t + second \<le> now + session_ttl"
  shows "\<exists>u pw. mk_email raw_email = Inr (us_email u) \<and> mk_raw_password raw_pw = Inr pw \<and>
      u \<in> set (aq_users (as_sql st)) \<and> verify pw (us_password_hash u) \<and>
      resolve_identity jwt_decode c t (Some token) (as_sessions st') = Inr (us_id u, sid)"
proof -
  let ?agent = "case agent of Some a \<Rightarrow> a | None \<Rightarrow> ''''"
  obtain s where s: "login verify inet_ok session_ttl now sid raw_email raw_pw ?agent (peer_of client) st = (Inr s, st')"
    "token = encode_session jwt_encode c s"
    using assms(1) by (auto simp: login_endpoint_def in_request_Inr split: prod.splits sum.splits)
  from login_success [OF s(1)] obtain u pw where u: "mk_email raw_email = Inr (us_email u)"
    "mk_raw_password raw_pw = Inr pw" "u \<in> set (aq_users (as_sql st))" "verify pw (us_password_hash u)"
    "as_sessions st' = save_session now s (as_sessions st)"
    and sf: "se_id s = sid" "se_user s = us_id u" "se_expires s = now + session_ttl" by auto
  have fits: "fits_uuid s" using assms(4,5) u(3) by (simp add: fits_uuid_def sf)
  have "t < now + int_seconds (se_expires s - now) * second" "t < se_expires s div second * second"
    using assms(7,8) by (auto simp: sf int_seconds_def second_def)
  then have "get_session t (se_id s) (se_user s) (as_sessions st') = Inr (Some s)"
    "decode_session jwt_decode c t token = Some (se_user s, se_id s)"
    using redis_sessions.get_after_save [OF assms(2) fits _ assms(7)] assms(3,6) s(2)
      decode_encode_session [OF _ fits] by (simp_all add: u(5) sf)
  then have "resolve_identity jwt_decode c t (Some token) (as_sessions st') = Inr (us_id u, sid)"
    by (auto simp: resolve_identity_Inr sf)
  then show ?thesis using u by blast
qed


text \<open>The endpoint that revokes a session does not ask whose it is: whoever is logged in ends any
  session whose identifier is known, and the audit log has a logout of the caller.\<close>

theorem any_caller_revokes_any_session:
  assumes "sessions_ok now (as_sessions st)" "now \<le> t"
  shows "fst (revoke_endpoint now (caller, own) target st) = Inr () \<and>
    resolve_identity jwt_decode c t cookie (as_sessions (snd (revoke_endpoint now (caller, own) target st)))
      \<noteq> Inr (victim, target) \<and>
    map ae_user (aq_audit (as_sql (snd (revoke_endpoint now (caller, own) target st)))) =
      map ae_user (aq_audit (as_sql st)) @ [caller]"
  using redis_sessions.gone_after_revoke [OF assms, of target victim caller]
  by (simp add: revoke_endpoint_def in_request_def logout_def Let_def resolve_identity_Inr)

text \<open>A failed login tells nothing about accounts: with a password that no account of the address
  accepts, the answer is the one given when there is no such account, and nothing is changed.\<close>

theorem login_reveals_no_account:
  assumes "mk_email raw_email = Inr addr"
    and "\<forall>u\<in>set (aq_users (as_sql st)). \<forall>pw. us_email u = addr \<and> mk_raw_password raw_pw = Inr pw
      \<longrightarrow> \<not> verify pw (us_password_hash u)"
  shows "login verify inet_ok session_ttl now sid raw_email raw_pw agent ip st =
    (fst (login verify inet_ok session_ttl now sid raw_email raw_pw agent ip
      (st\<lparr>as_sql := (as_sql st)\<lparr>aq_users := filter (\<lambda>u. us_email u \<noteq> addr) (aq_users (as_sql st))\<rparr>\<rparr>)), st)"
proof (cases "mk_raw_password raw_pw")
  case (Inr pw)
  have none: "get_by_email addr ((as_sql st)\<lparr>aq_users := filter (\<lambda>u. us_email u \<noteq> addr) (aq_users (as_sql st))\<rparr>) = None"
    by (simp add: get_by_email_def find_by_None)
  show ?thesis
  proof (cases "get_by_email addr (as_sql st)")
    case (Some u)
    then have "u \<in> set (aq_users (as_sql st))" "us_email u = addr"
      by (auto simp: get_by_email_def dest: find_by_Some)
    then show ?thesis using assms Inr by (simp add: login_def Let_def Some none)
  qed (simp add: login_def Let_def assms(1) Inr none)
qed (simp add: login_def assms(1))

lemma save_user_again:
  assumes "save_user (change_user_password h u) q = Inr q'" "get_user uid q = Some u"
    and "distinct (map us_id (aq_users q))"
  shows "\<exists>u'. get_user uid q' = Some u' \<and> us_id u' = uid \<and>
    (\<forall>h'. \<exists>q''. aq_users r = aq_users q' \<longrightarrow> save_user (change_user_password h' u') r = Inr q'')"
proof -
  let ?u = "change_user_password h u"
  have uid: "us_id u = uid" "u \<in> set (aq_users q)"
    using assms(2) by (auto simp: get_user_def dest: find_by_Some)
  have q': "aq_users q' = upsert us_id ?u (aq_users q)"
    and uniq: "\<not> list_ex (\<lambda>x. us_id x \<noteq> us_id ?u \<and>
        lower (email_value (us_email x)) = lower (email_value (us_email ?u))) (aq_users q)"
    using assms(1) by (auto simp: save_user_def split: if_splits)
  have mem: "?u \<in> set (aq_users q')" by (simp add: q' upsert_mem)
  have ids: "us_id ?u = uid" by (simp add: change_user_password_def uid)
  have same: "x = ?u" if "x \<in> set (aq_users q')" "us_id x = uid" for x
    using upsert_same [where key = us_id and r = ?u and rs = "aq_users q" and x = x] that by (simp add: q' ids)
  obtain u' where u': "get_user uid q' = Some u'"
    using mem ids by (cases "get_user uid q'") (auto simp: get_user_def find_by_None)
  then have "u' = ?u" using same by (auto simp: get_user_def dest!: find_by_Some)
  have "\<exists>q''. save_user (change_user_password h' u') r = Inr q''" if "aq_users r = aq_users q'" for h'
  proof -
    have "\<not> list_ex (\<lambda>x. us_id x \<noteq> uid \<and>
        lower (email_value (us_email x)) = lower (email_value (us_email u))) (aq_users q')"
      using uniq upsert_other [where key = us_id and r = ?u and rs = "aq_users q"]
      by (auto simp: list_ex_iff q' ids) (auto simp: change_user_password_def)
    then show ?thesis using \<open>u' = ?u\<close> that uid(1)
      by (simp add: save_user_def change_user_password_def)
  qed
  then show ?thesis using u' \<open>u' = ?u\<close> ids by blast
qed

text \<open>Confirming a password reset uses up one token only: any other valid token of the account
  still sets a new password, although the password has been reset since it was mailed.\<close>

theorem other_reset_token_survives:
  assumes "reset_confirm_endpoint sha256_hex hash_pw now token new st = (Inr (), st')"
    and "get_valid now (sha256_hex token) (as_sql st) = Some used"
    and "get_valid later (sha256_hex older) (as_sql st) = Some x" "rt_id x \<noteq> rt_id used"
    and "rt_user x = rt_user used" "mk_raw_password newer = Inr pw" "distinct (map us_id (aq_users (as_sql st)))"
    and "distinct (map rt_hash (aq_tokens (as_sql st)))"
  shows "fst (reset_confirm_endpoint sha256_hex hash_pw later older newer st') = Inr ()"
proof -
  have "confirm_password_reset sha256_hex hash_pw now token new st = (Inr (), st')"
    using assms(1) by (simp add: reset_confirm_endpoint_def in_request_Inr)
  from confirm_password_reset_success [OF this] assms(2) obtain u pw' q where
    u: "get_user (rt_user used) (as_sql st) = Some u" and
    q: "save_user (change_user_password (hash_pw pw') u) (as_sql st) = Inr q" and
    st': "aq_users (as_sql st') = aq_users q"
      "aq_tokens (as_sql st') = filter (\<lambda>t. rt_id t \<noteq> rt_id used) (aq_tokens (as_sql st))" by auto
  have x: "x \<in> set (aq_tokens (as_sql st))" "rt_hash x = sha256_hex older" "later < rt_expires x"
    using assms(3) by (auto simp: get_valid_def dest: find_by_Some)
  have "get_valid later (sha256_hex older) (as_sql st') \<noteq> None"
    using x assms(4) by (auto simp: get_valid_def find_by_None st'(2))
  then obtain y where y: "get_valid later (sha256_hex older) (as_sql st') = Some y" by blast
  then have "y \<in> set (aq_tokens (as_sql st))" "rt_hash y = sha256_hex older"
    by (auto simp: get_valid_def st'(2) dest!: find_by_Some)
  then have "y = x" using x assms(8) by (auto simp: distinct_map inj_on_def)
  from save_user_again [OF q u assms(7), of "as_sql st'"] obtain u' where
    u': "get_user (rt_user used) q = Some u'" and
    again: "\<And>h'. \<exists>q''. save_user (change_user_password h' u') (as_sql st') = Inr q''"
    using st'(1) by blast
  have g: "get_user (rt_user x) (as_sql st') = Some u'"
    using u' assms(5) by (simp add: get_user_def st'(1))
  obtain q'' where "save_user (change_user_password (hash_pw pw) u') (as_sql st') = Inr q''"
    using again by blast
  then show ?thesis
    using y \<open>y = x\<close> g assms(6)
    by (simp add: reset_confirm_endpoint_def in_request_def confirm_password_reset_def Let_def)
qed

text \<open>When the server has no peer address for a request, the word it stores in its place is not an
  address, so no login succeeds, whatever the password; and a correct password leaves a session
  behind in Redis whose token nobody has.\<close>

theorem login_without_peer_fails:
  assumes "\<not> inet_ok ''unknown''" "mk_email raw_email = Inr addr" "mk_raw_password raw_pw = Inr pw"
    and "get_by_email addr (as_sql st) = Some u" "verify pw (us_password_hash u)"
    and "sessions_ok now (as_sessions st)" "fresh_id sid (as_sessions st)"
    and "session_uuid sid < 2 ^ 128" "user_uuid (us_id u) < 2 ^ 128"
    and "now \<le> t" "t + second \<le> now + session_ttl"
  shows "let (r, st') = login_endpoint jwt_encode c verify inet_ok session_ttl now sid raw_email raw_pw agent None st
    in r = Inl StorageFailure \<and> as_sql st' = as_sql st \<and>
       map_sum id (map_option se_user) (get_session t sid (us_id u) (as_sessions st')) = Inr (Some (us_id u))"
proof -
  let ?s = "\<lparr>se_id = sid, se_user = us_id u, se_expires = now + session_ttl,
    se_agent = (case agent of Some a \<Rightarrow> a | None \<Rightarrow> ''''), se_ip = ''unknown''\<rparr>"
  have "get_session t (se_id ?s) (se_user ?s) (save_session now ?s (as_sessions st)) = Inr (Some ?s)"
    by (rule redis_sessions.get_after_save [OF assms(6) _ _ assms(10)])
      (use assms in \<open>auto simp: fits_uuid_def int_seconds_def second_def\<close>)
  then show ?thesis using assms(1-5)
    by (simp add: login_endpoint_def in_request_def login_def Let_def peer_of_def record_auth_event_def)
qed

section \<open>Witnesses\<close>

text \<open>One account, with two mailed reset tokens; a hasher that keeps the password, and a JWT library
  whose tokens are the two identifiers.\<close>

definition alice :: user where
  "alice = \<lparr>us_id = UserId 7, us_email = Email ''a@b.co'', us_password_hash = ''password'',
     us_created_at = 0, us_plan = FREE\<rparr>"

definition mailed :: "nat \<Rightarrow> string \<Rightarrow> reset_token" where
  "mailed i h = \<lparr>rt_id = PasswordResetTokenId i, rt_user = UserId 7, rt_hash = h, rt_expires = 3600000000\<rparr>"

definition sample_state :: auth_state where
  "sample_state = \<lparr>as_sql = \<lparr>aq_users = [alice], aq_tokens = [mailed 1 ''one'', mailed 2 ''two''],
     aq_audit = []\<rparr>, as_sessions = empty_sessions, as_mail = []\<rparr>"

definition keep_hash :: "raw_password \<Rightarrow> string" where
  "keep_hash pw = (case pw of RawPassword s \<Rightarrow> s)"

definition keep_verify :: "raw_password \<Rightarrow> string \<Rightarrow> bool" where
  "keep_verify pw h = (keep_hash pw = h)"

definition plain_encode :: "(string \<times> string) list \<Rightarrow> timestamp \<Rightarrow> string \<Rightarrow> string" where
  "plain_encode p e k = concat (map snd p)"

definition plain_decode :: "timestamp \<Rightarrow> string \<Rightarrow> string \<Rightarrow> jwt_result" where
  "plain_decode t token k = JwtPayload [(''sid'', take 36 token), (''uid'', drop 36 token)]"

definition sample_codec :: jwt_codec where
  "sample_codec = \<lparr>jc_signing_key = ''k'', jc_other_keys = []\<rparr>"

lemma plain_reads: "jwt_reads plain_encode plain_decode k s"
  by (simp add: jwt_reads_def plain_encode_def plain_decode_def jwt_payload_def length_uuid_str)

lemma sample_email: "mk_email ''a@b.co'' = Inr (Email ''a@b.co'')"
  by code_simp

lemma sample_password: "mk_raw_password ''password'' = Inr (RawPassword ''password'')"
  "mk_raw_password ''new-password'' = Inr (RawPassword ''new-password'')"
  by (simp_all add: mk_raw_password_def min_password_length_def max_password_length_def)

lemma sample_account: "get_by_email (Email ''a@b.co'') (as_sql sample_state) = Some alice"
  "get_user (UserId 7) (as_sql sample_state) = Some alice"
  by (simp_all add: get_by_email_def get_user_def sample_state_def alice_def)

lemma sample_sessions [simp]: "sessions_ok t (as_sessions sample_state)" "fresh_id i (as_sessions sample_state)"
  by (simp_all add: sample_state_def fresh_id_def empty_sessions_def sessions_ok_def)

lemma sample_login:
  "\<exists>shown token st'. login_endpoint plain_encode sample_codec keep_verify (\<lambda>_. True) 3600000000 0 (SessionId 5)
     ''a@b.co'' ''password'' None (Some ''9.9.9.9'') sample_state = (Inr (shown, token), st')"
  by (simp add: login_endpoint_def in_request_def login_def Let_def sample_email sample_password sample_account
      keep_verify_def keep_hash_def record_auth_event_def alice_def)

lemma login_opens_session_witness:
  "\<exists>shown token st' u pw. login_endpoint plain_encode sample_codec keep_verify (\<lambda>_. True) 3600000000 0 (SessionId 5)
     ''a@b.co'' ''password'' None (Some ''9.9.9.9'') sample_state = (Inr (shown, token), st') \<and>
   mk_email ''a@b.co'' = Inr (us_email u) \<and> mk_raw_password ''password'' = Inr pw \<and>
   u \<in> set (aq_users (as_sql sample_state)) \<and> keep_verify pw (us_password_hash u) \<and>
   resolve_identity plain_decode sample_codec 1000000 (Some token) (as_sessions st') = Inr (us_id u, SessionId 5)"
proof -
  obtain shown token st' where l: "login_endpoint plain_encode sample_codec keep_verify (\<lambda>_. True) 3600000000 0
     (SessionId 5) ''a@b.co'' ''password'' None (Some ''9.9.9.9'') sample_state = (Inr (shown, token), st')"
    using sample_login by blast
  show ?thesis
    using login_opens_session [OF l, of plain_decode 1000000] plain_reads l
    by (simp add: second_def) (simp add: sample_state_def alice_def)
qed

lemma sample_change: "\<exists>st'. change_password_endpoint keep_hash keep_verify 0 (UserId 7, SessionId 5)
     ''password'' ''new-password'' sample_state = (Inr (), st')"
  by (simp add: change_password_endpoint_def in_request_def change_password_def Let_def get_user_def
      sample_password keep_verify_def keep_hash_def save_user_def alice_def sample_state_def
      change_user_password_def)


lemma any_caller_revokes_any_session_witness:
  "fst (revoke_endpoint 0 (UserId 8, SessionId 9) (SessionId 5) sample_state) = Inr ()"
  by (rule any_caller_revokes_any_session [of 0 sample_state 1 "UserId 8" "SessionId 9" "SessionId 5"
      plain_decode sample_codec None "UserId 7", THEN conjunct1]) simp_all

lemma login_reveals_no_account_witness:
  "snd (login keep_verify (\<lambda>_. True) 3600000000 0 (SessionId 5) ''a@b.co'' ''new-password'' ''curl'' ''9.9.9.9''
     sample_state) = sample_state"
  by (subst login_reveals_no_account [OF sample_email])
    (simp_all add: sample_state_def alice_def sample_password keep_verify_def keep_hash_def)

lemma sample_reset: "\<exists>st'. reset_confirm_endpoint id keep_hash 0 ''one'' ''new-password'' sample_state = (Inr (), st')"
  by (simp add: reset_confirm_endpoint_def in_request_def confirm_password_reset_def Let_def
      sample_password save_user_def get_valid_def sample_state_def mailed_def alice_def change_user_password_def
      get_user_def)

lemma other_reset_token_survives_witness:
  "\<exists>st'. reset_confirm_endpoint id keep_hash 0 ''one'' ''new-password'' sample_state = (Inr (), st') \<and>
     fst (reset_confirm_endpoint id keep_hash 1 ''two'' ''password'' st') = Inr ()"
proof -
  obtain st' where r: "reset_confirm_endpoint id keep_hash 0 ''one'' ''new-password'' sample_state = (Inr (), st')"
    using sample_reset by blast
  have "fst (reset_confirm_endpoint id keep_hash 1 ''two'' ''password'' st') = Inr ()"
    by (rule other_reset_token_survives [OF r, of "mailed 1 ''one''" 1 "''two''" "mailed 2 ''two''"])
      (simp_all add: sample_password get_valid_def sample_state_def mailed_def)
  then show ?thesis using r by blast
qed

lemma login_without_peer_fails_witness:
  "let (r, st') = login_endpoint plain_encode sample_codec keep_verify (\<lambda>ip. ip = ''9.9.9.9'') 3600000000 0
       (SessionId 5) ''a@b.co'' ''password'' None None sample_state
   in r = Inl StorageFailure \<and> as_sql st' = as_sql sample_state \<and>
      map_sum id (map_option se_user) (get_session 1 (SessionId 5) (us_id alice) (as_sessions st')) =
        Inr (Some (us_id alice))"
  by (rule login_without_peer_fails [OF _ sample_email sample_password(1) sample_account(1)])
    (simp_all add: keep_verify_def keep_hash_def alice_def second_def)

end
