(* ===== verification/PyJson.thy ===== *)
theory PyJson
  imports PyStr
begin

text \<open>The JSON module and the URL-safe base64 codec of Python's standard library, as the code uses
  them: \<open>json.dumps\<close> with its defaults, \<open>json.loads\<close> (\<open>None\<close> is its \<open>JSONDecodeError\<close>), and
  \<open>base64.urlsafe_b64encode\<close> and \<open>urlsafe_b64decode\<close> (\<open>None\<close> is \<open>binascii.Error\<close>).  Strings are
  sequences of 8-bit characters; an escape of a larger code point is refused.  A number keeps the text
  it is written with.\<close>

datatype json =
    JNull
  | JBool bool
  | JNum string
  | JStr string
  | JList "json list"
  | JObj "(string \<times> json) list"

section \<open>Printing\<close>

text \<open>Strings are printed with the default \<open>ensure_ascii\<close>.\<close>

definition json_char :: "char \<Rightarrow> string" where
  "json_char c = (let n = (of_char c :: nat) in
     if n = 34 then [CHR 0x5C, CHR 0x22]
     else if n = 92 then [CHR 0x5C, CHR 0x5C]
     else if n = 10 then CHR 0x5C # ''n''
     else if n = 13 then CHR 0x5C # ''r''
     else if n = 9 then CHR 0x5C # ''t''
     else if n = 8 then CHR 0x5C # ''b''
     else if n = 12 then CHR 0x5C # ''f''
     else if n < 32 \<or> 126 < n then CHR 0x5C # ''u'' @ hex_fixed 4 n
     else [c])"

definition json_str :: "string \<Rightarrow> string" where
  "json_str s = CHR 0x22 # concat (map json_char s) @ [CHR 0x22]"

fun comma_sep :: "string list \<Rightarrow> string" where
  "comma_sep [] = []"
| "comma_sep [x] = x"
| "comma_sep (x # y # xs) = x @ '', '' @ comma_sep (y # xs)"

fun json_dumps :: "json \<Rightarrow> string" where
  "json_dumps JNull = ''null''"
| "json_dumps (JBool b) = (if b then ''true'' else ''false'')"
| "json_dumps (JNum n) = n"
| "json_dumps (JStr s) = json_str s"
| "json_dumps (JList xs) = ''['' @ comma_sep (map json_dumps xs) @ '']''"
| "json_dumps (JObj kvs) =
     ''{'' @ comma_sep (map (\<lambda>(k, v). json_str k @ '': '' @ json_dumps v) kvs) @ ''}''"

section \<open>Reading\<close>

definition json_space :: "char \<Rightarrow> bool" where
  "json_space c = (c \<in> {CHR '' '', CHR 0x09, CHR 0x0A, CHR 0x0D})"

definition skip_ws :: "string \<Rightarrow> string" where
  "skip_ws s = dropWhile json_space s"

definition json_escape :: "char \<Rightarrow> char option" where
  "json_escape c =
     (if c = CHR 0x22 \<or> c = CHR 0x5C \<or> c = CHR ''/'' then Some c
      else if c = CHR ''b'' then Some (CHR 0x08)
      else if c = CHR ''f'' then Some (CHR 0x0C)
      else if c = CHR ''n'' then Some (CHR 0x0A)
      else if c = CHR ''r'' then Some (CHR 0x0D)
      else if c = CHR ''t'' then Some (CHR 0x09) else None)"

text \<open>The rest of a string after its opening quote.\<close>

fun str_body :: "string \<Rightarrow> (string \<times> string) option" where
  "str_body [] = None"
| "str_body (c # s) =
     (if c = CHR 0x22 then Some ([], s)
      else if (of_char c :: nat) < 32 then None
      else if c \<noteq> CHR 0x5C then map_option (\<lambda>(t, r). (c # t, r)) (str_body s)
      else case s of
        [] \<Rightarrow> None
      | e # s' \<Rightarrow>
          if e = CHR ''u'' then
            (case s' of
               a # b # d # f # s'' \<Rightarrow>
                 (case hex_val 0 [a, b, d, f] of
                    Some n \<Rightarrow> (if n < 256 then map_option (\<lambda>(t, r). (char_of n # t, r)) (str_body s'')
                               else None)
                  | None \<Rightarrow> None)
             | _ \<Rightarrow> None)
          else (case json_escape e of
              Some e' \<Rightarrow> map_option (\<lambda>(t, r). (e' # t, r)) (str_body s')
            | None \<Rightarrow> None))"

text \<open>Numbers: the longest prefix of the form \<open>-?(0|[1-9][0-9]*)(.[0-9]+)?([eE][-+]?[0-9]+)?\<close>.\<close>

definition digits :: "string \<Rightarrow> string \<times> string" where
  "digits s = (takeWhile is_digit s, dropWhile is_digit s)"

definition num_frac :: "string \<Rightarrow> string \<times> string" where
  "num_frac s = (case s of
     c # t \<Rightarrow> (if c = CHR ''.'' \<and> fst (digits t) \<noteq> [] then (c # fst (digits t), snd (digits t)) else ([], s))
   | [] \<Rightarrow> ([], s))"

definition num_exp :: "string \<Rightarrow> string \<times> string" where
  "num_exp s = (case s of
     c # t \<Rightarrow>
       (if c = CHR ''e'' \<or> c = CHR ''E'' then
          (let (sgn, u) = (case t of d # t' \<Rightarrow> if d = CHR ''+'' \<or> d = CHR ''-'' then ([d], t') else ([], t)
                           | [] \<Rightarrow> ([], t))
           in if fst (digits u) \<noteq> [] then (c # sgn @ fst (digits u), snd (digits u)) else ([], s))
        else ([], s))
   | [] \<Rightarrow> ([], s))"

definition num_int :: "string \<Rightarrow> (string \<times> string) option" where
  "num_int s = (case s of
     c # t \<Rightarrow> (if c = CHR ''0'' then Some ([c], t)
              else if is_digit c then Some (digits s) else None)
   | [] \<Rightarrow> None)"

definition num_body :: "string \<Rightarrow> (string \<times> string) option" where
  "num_body s = (case num_int s of None \<Rightarrow> None
     | Some (i, r) \<Rightarrow> (let (f, r') = num_frac r; (e, r'') = num_exp r' in Some (i @ f @ e, r'')))"

definition number :: "string \<Rightarrow> (string \<times> string) option" where
  "number s = (case s of
     c # t \<Rightarrow> (if c = CHR ''-'' then map_option (\<lambda>(n, r). (c # n, r)) (num_body t) else num_body s)
   | [] \<Rightarrow> None)"

definition keyword :: "(string \<times> json) list \<Rightarrow> string \<Rightarrow> (json \<times> string) option" where
  "keyword ks s = map_option (\<lambda>(k, v). (v, drop (length k) s))
     (List.find (\<lambda>(k, v). take (length k) s = k) ks)"

definition json_keywords :: "(string \<times> json) list" where
  "json_keywords = [(''null'', JNull), (''true'', JBool True), (''false'', JBool False),
     (''NaN'', JNum ''NaN''), (''Infinity'', JNum ''Infinity''), (''-Infinity'', JNum ''-Infinity'')]"

text \<open>Fuel bounds the depth and the length of containers; a text is never longer than its fuel in
  \<open>json_loads\<close>, and each step down or along consumes a character.\<close>

fun p_value :: "nat \<Rightarrow> string \<Rightarrow> (json \<times> string) option"
  and p_elements :: "nat \<Rightarrow> string \<Rightarrow> (json list \<times> string) option"
  and p_members :: "nat \<Rightarrow> string \<Rightarrow> ((string \<times> json) list \<times> string) option" where
  "p_value 0 s = None"
| "p_value (Suc n) s = (case s of [] \<Rightarrow> None | c # t \<Rightarrow>
     if c = CHR 0x22 then map_option (\<lambda>(x, r). (JStr x, r)) (str_body t)
     else if c = CHR ''['' then
       (case skip_ws t of
          d # r \<Rightarrow> (if d = CHR '']'' then Some (JList [], r)
                   else map_option (\<lambda>(xs, r). (JList xs, r)) (p_elements n (d # r)))
        | [] \<Rightarrow> None)
     else if c = CHR ''{'' then
       (case skip_ws t of
          d # r \<Rightarrow> (if d = CHR ''}'' then Some (JObj [], r)
                   else map_option (\<lambda>(kvs, r). (JObj (fold (\<lambda>(k, v). dict_set k v) kvs []), r))
                     (p_members n (d # r)))
        | [] \<Rightarrow> None)
     else (case keyword json_keywords s of
         Some r \<Rightarrow> Some r
       | None \<Rightarrow> map_option (\<lambda>(x, r). (JNum x, r)) (number s)))"
| "p_elements 0 s = None"
| "p_elements (Suc n) s = (case p_value n s of
     None \<Rightarrow> None
   | Some (x, r) \<Rightarrow> (case skip_ws r of
       d # r' \<Rightarrow> (if d = CHR '']'' then Some ([x], r')
                 else if d = CHR '','' then map_option (\<lambda>(xs, q). (x # xs, q)) (p_elements n (skip_ws r'))
                 else None)
     | [] \<Rightarrow> None))"
| "p_members 0 s = None"
| "p_members (Suc n) s = (case s of
     c # t \<Rightarrow>
       (if c \<noteq> CHR 0x22 then None
        else case str_body t of
          None \<Rightarrow> None
        | Some (k, r) \<Rightarrow> (case skip_ws r of
            d # r1 \<Rightarrow>
              (if d \<noteq> CHR '':'' then None
               else case p_value n (skip_ws r1) of
                 None \<Rightarrow> None
               | Some (v, r2) \<Rightarrow> (case skip_ws r2 of
                   e # r3 \<Rightarrow> (if e = CHR ''}'' then Some ([(k, v)], r3)
                             else if e = CHR '','' then
                               map_option (\<lambda>(kvs, q). ((k, v) # kvs, q)) (p_members n (skip_ws r3))
                             else None)
                 | [] \<Rightarrow> None))
          | [] \<Rightarrow> None))
   | [] \<Rightarrow> None)"

definition json_loads :: "string \<Rightarrow> json option" where
  "json_loads s = (case p_value (2 * length s + 2) (skip_ws s) of
     Some (v, r) \<Rightarrow> (if skip_ws r = [] then Some v else None)
   | None \<Rightarrow> None)"

section \<open>Printing and reading are inverse\<close>

lemma of_char_code: "(of_char c :: nat) = n \<Longrightarrow> c = char_of n"
  by (metis char_of_char)

lemma char_code:
  "(of_char c :: nat) = 34 \<Longrightarrow> c = CHR 0x22" "(of_char c :: nat) = 92 \<Longrightarrow> c = CHR 0x5C"
  "(of_char c :: nat) = 10 \<Longrightarrow> c = CHR 0x0A" "(of_char c :: nat) = 13 \<Longrightarrow> c = CHR 0x0D"
  "(of_char c :: nat) = 9 \<Longrightarrow> c = CHR 0x09" "(of_char c :: nat) = 8 \<Longrightarrow> c = CHR 0x08"
  "(of_char c :: nat) = 12 \<Longrightarrow> c = CHR 0x0C"
  by (drule of_char_code, code_simp, blast)+

lemma hex_fixed_4: "hex_fixed 4 n =
    [hex_char (n div 16 div 16 div 16 mod 16), hex_char (n div 16 div 16 mod 16),
     hex_char (n div 16 mod 16), hex_char (n mod 16)]"
proof -
  have "(4::nat) = Suc (Suc (Suc (Suc 0)))" by simp
  then show ?thesis by (simp only: hex_fixed.simps append.simps)
qed

lemma str_body_char: "str_body (json_char c @ t) = map_option (\<lambda>(x, r). (c # x, r)) (str_body t)"
proof -
  let ?n = "of_char c :: nat"
  have n: "?n < 256" by simp
  consider (esc) "?n \<in> {34, 92, 10, 13, 9, 8, 12}"
    | (uni) "?n \<notin> {34, 92, 10, 13, 9, 8, 12}" "?n < 32 \<or> 126 < ?n"
    | (plain) "?n \<notin> {34, 92, 10, 13, 9, 8, 12}" "32 \<le> ?n" "?n \<le> 126" by fastforce
  then show ?thesis
  proof cases
    case esc
    then have "c \<in> {CHR 0x22, CHR 0x5C, CHR 0x0A, CHR 0x0D, CHR 0x09, CHR 0x08, CHR 0x0C}"
      using char_code [of c] by (elim insertE) auto
    then show ?thesis by (auto simp: json_char_def Let_def json_escape_def)
  next
    case uni
    have "?n mod 16 ^ 4 = ?n" by (intro mod_less order_less_le_trans [OF n]) simp
    then have "hex_val 0 (hex_fixed 4 ?n) = Some ?n" by (simp only: hex_val_fixed) simp
    moreover have "json_char c = CHR 0x5C # ''u'' @ hex_fixed 4 ?n"
      using uni by (auto simp: json_char_def Let_def)
    ultimately show ?thesis using n by (simp add: hex_fixed_4 del: hex_val.simps)
  next
    case plain
    then have "json_char c = [c]" "c \<noteq> CHR 0x22" "c \<noteq> CHR 0x5C"
      by (auto simp: json_char_def Let_def)
    then show ?thesis using plain by simp
  qed
qed

lemma str_body_str: "str_body (concat (map json_char s) @ CHR 0x22 # r) = Some (s, r)"
  by (induction s) (simp_all add: str_body_char)

lemma json_str_cons: "json_str s @ r = CHR 0x22 # concat (map json_char s) @ CHR 0x22 # r"
  by (simp add: json_str_def)

definition ends_value :: "string \<Rightarrow> bool" where
  "ends_value r = (case r of [] \<Rightarrow> True | c # _ \<Rightarrow> c = CHR '','' \<or> c = CHR '']'' \<or> c = CHR ''}'')"

lemma ends_value_simps [simp]:
  "ends_value []" "ends_value (CHR '','' # r)" "ends_value (CHR '']'' # r)" "ends_value (CHR ''}'' # r)"
  by (simp_all add: ends_value_def)

lemma ends_not_digit: "ends_value r \<Longrightarrow> takeWhile is_digit r = [] \<and> dropWhile is_digit r = r"
  by (cases r) (auto simp: ends_value_def is_digit_def)

lemma digits_str:
  assumes "list_all is_digit s" "ends_value r"
  shows "digits (s @ r) = (s, r)"
  using assms ends_not_digit [OF assms(2)]
  by (simp add: digits_def list_all_iff takeWhile_append dropWhile_append)

lemma nat_str_head: "\<exists>c t. nat_str n = c # t \<and> is_digit c \<and> (c = CHR ''0'' \<longrightarrow> t = [])"
proof (induction n rule: nat_str.induct)
  case (1 n)
  show ?case
  proof (cases "n < 10")
    case True
    then show ?thesis by (subst nat_str.simps) simp
  next
    case False
    then obtain c t where ih: "nat_str (n div 10) = c # t" "is_digit c" "c = CHR ''0'' \<longrightarrow> t = []"
      using 1 by auto
    have "c \<noteq> CHR ''0''"
    proof
      assume "c = CHR ''0''"
      then have "digits_val (nat_str (n div 10)) = 0"
        using ih by (simp add: digits_val_def digit_val_def)
      then show False using False by simp
    qed
    then show ?thesis using False ih by (subst nat_str.simps) simp
  qed
qed

lemma num_body_nat:
  assumes "ends_value r"
  shows "num_body (nat_str n @ r) = Some (nat_str n, r)"
proof -
  obtain c t where h: "nat_str n = c # t" "is_digit c" "c = CHR ''0'' \<longrightarrow> t = []"
    using nat_str_head by blast
  have "digits (nat_str n @ r) = (nat_str n, r)" using digits_str assms by simp
  then have "num_int (nat_str n @ r) = Some (nat_str n, r)"
    using h by (auto simp: num_int_def)
  moreover have "num_frac r = ([], r)" "num_exp r = ([], r)"
    using assms by (auto simp: num_frac_def num_exp_def ends_value_def split: list.splits)
  ultimately show ?thesis by (simp add: num_body_def)
qed

lemma number_int:
  assumes "ends_value r"
  shows "number (int_str i @ r) = Some (int_str i, r)"
proof (cases "i < 0")
  case False
  obtain c t where h: "nat_str (nat i) = c # t" "is_digit c" using nat_str_head by blast
  then have "c \<noteq> CHR ''-''" by (auto simp: is_digit_def)
  then show ?thesis
    using False num_body_nat [OF assms, of "nat i"] h by (simp add: number_def int_str_def)
qed (simp add: number_def int_str_def num_body_nat [OF assms])

text \<open>The values that \<open>json.dumps\<close> prints here: integers are their decimal text, and an object has
  each key once.\<close>

fun json_wf :: "json \<Rightarrow> bool" where
  "json_wf (JNum n) = (\<exists>i. n = int_str i)"
| "json_wf (JList xs) = list_all json_wf xs"
| "json_wf (JObj kvs) = (distinct (map fst kvs) \<and> list_all (\<lambda>kv. json_wf (snd kv)) kvs)"
| "json_wf _ = True"

lemma fold_dict_set_distinct:
  "distinct (map fst (d @ kvs)) \<Longrightarrow> fold (\<lambda>(k, v). dict_set k v) kvs d = d @ kvs"
proof (induction kvs arbitrary: d)
  case (Cons kv kvs)
  obtain k v where kv: "kv = (k, v)" by fastforce
  have "k \<notin> fst ` set d" using Cons.prems kv by auto
  then have "dict_set k v d = d @ [(k, v)]" by (rule dict_set_fresh)
  then show ?case using Cons.IH [of "d @ [(k, v)]"] Cons.prems kv by simp
qed simp

lemma skip_ws_cons [simp]: "\<not> json_space c \<Longrightarrow> skip_ws (c # s) = c # s"
  by (simp add: skip_ws_def)

lemma skip_ws_blank [simp]: "skip_ws (CHR '' '' # s) = skip_ws s"
  by (simp add: skip_ws_def json_space_def)

lemma json_space_simps [simp]:
  "\<not> json_space (CHR 0x22)" "\<not> json_space (CHR ''['')" "\<not> json_space (CHR '']'')"
  "\<not> json_space (CHR ''{'')" "\<not> json_space (CHR ''}'')" "\<not> json_space (CHR '','')"
  "\<not> json_space (CHR '':'')"
  by (simp_all add: json_space_def)

text \<open>A printed value starts with a character that is neither blank nor a closing bracket.\<close>

definition starts_value :: "string \<Rightarrow> bool" where
  "starts_value s = (case s of [] \<Rightarrow> False | c # _ \<Rightarrow> \<not> json_space c \<and> c \<noteq> CHR '']'' \<and> c \<noteq> CHR ''}'')"

lemma int_str_head: "\<exists>c t. int_str i = c # t \<and> (is_digit c \<or> c = CHR ''-'')"
  using nat_str_head [of "nat i"] by (auto simp: int_str_def)

lemma starts_dumps: "json_wf v \<Longrightarrow> starts_value (json_dumps v @ r)"
proof (cases v)
  case (JNum n)
  assume "json_wf v"
  then obtain i where "n = int_str i" using JNum by auto
  then obtain c t where "n = c # t" "is_digit c \<or> c = CHR ''-''" using int_str_head by blast
  then show ?thesis using JNum by (auto simp: starts_value_def json_space_def is_digit_def)
qed (auto simp: starts_value_def json_space_def json_str_def)

lemma skip_starts: "starts_value s \<Longrightarrow> skip_ws s = s"
  by (cases s) (auto simp: starts_value_def)

lemma digit_not_keyword:
  assumes "is_digit c"
  shows "c \<noteq> CHR ''n''" "c \<noteq> CHR ''t''" "c \<noteq> CHR ''f''" "c \<noteq> CHR ''N''" "c \<noteq> CHR ''I''" "c \<noteq> CHR ''-''"
    "c \<noteq> CHR 0x22" "c \<noteq> CHR ''[''" "c \<noteq> CHR ''{''"
  using assms by (auto simp: is_digit_def)

lemma keyword_int: "keyword json_keywords (int_str i @ r) = None"
proof (cases "i < 0")
  case True
  obtain c t where "nat_str (nat (- i)) = c # t" "is_digit c" using nat_str_head by blast
  then show ?thesis
    using True digit_not_keyword [of c] by (simp add: keyword_def json_keywords_def int_str_def)
next
  case False
  obtain c t where "nat_str (nat i) = c # t" "is_digit c" using nat_str_head by blast
  then show ?thesis
    using False digit_not_keyword [of c] by (simp add: keyword_def json_keywords_def int_str_def)
qed

lemma p_value_int:
  assumes "ends_value r"
  shows "p_value (Suc n) (int_str i @ r) = Some (JNum (int_str i), r)"
proof -
  obtain c t where h: "int_str i = c # t" "is_digit c \<or> c = CHR ''-''" using int_str_head by blast
  then have "c \<noteq> CHR 0x22" "c \<noteq> CHR ''[''" "c \<noteq> CHR ''{''" using digit_not_keyword [of c] by auto
  then have "p_value (Suc n) (c # u) = (case keyword json_keywords (c # u) of
      Some q \<Rightarrow> Some q | None \<Rightarrow> map_option (\<lambda>(x, q). (JNum x, q)) (number (c # u)))" for u
    by simp
  moreover have "int_str i @ r = c # t @ r" using h(1) by simp
  ultimately show ?thesis
    using keyword_int [of i r] number_int [OF assms, of i] by (simp del: p_value.simps)
qed

lemma p_elements_dumps:
  assumes "\<And>x n r. x \<in> set xs \<Longrightarrow> 2 * length (json_dumps x) \<le> n \<Longrightarrow> ends_value r \<Longrightarrow>
      p_value n (json_dumps x @ r) = Some (x, r)"
    and "list_all json_wf xs" "xs \<noteq> []" "2 * length (comma_sep (map json_dumps xs)) < n"
  shows "p_elements n (comma_sep (map json_dumps xs) @ CHR '']'' # r) = Some (xs, r)"
  using assms
proof (induction xs arbitrary: n)
  case (Cons x xs)
  then obtain m where n: "n = Suc m" by (cases n) auto
  show ?case
  proof (cases xs)
    case Nil
    have "p_value m (json_dumps x @ CHR '']'' # r) = Some (x, CHR '']'' # r)"
      using Cons.prems n Nil by (intro Cons.prems(1)) auto
    then show ?thesis by (simp add: n Nil)
  next
    case (Cons y ys)
    let ?t = "comma_sep (map json_dumps xs) @ CHR '']'' # r"
    have "p_value m (json_dumps x @ '', '' @ ?t) = Some (x, '', '' @ ?t)"
      using Cons.prems n Cons by (intro Cons.prems(1)) auto
    moreover have "p_elements m ?t = Some (xs, r)"
      using Cons.prems n Cons by (intro Cons.IH) auto
    moreover have "skip_ws ?t = ?t"
    proof (rule skip_starts)
      have "json_wf y" using Cons.prems(2) Cons by simp
      then show "starts_value ?t" using starts_dumps [of y] by (cases ys) (simp_all add: Cons)
    qed
    ultimately show ?thesis by (simp add: n Cons)
  qed
qed simp

definition member_text :: "string \<times> json \<Rightarrow> string" where
  "member_text kv = json_str (fst kv) @ '': '' @ json_dumps (snd kv)"

lemma dumps_obj: "json_dumps (JObj kvs) = ''{'' @ comma_sep (map member_text kvs) @ ''}''"
proof -
  have "(\<lambda>(k, v). json_str k @ '': '' @ json_dumps v) = member_text"
    by (auto simp: member_text_def)
  then show ?thesis by simp
qed

lemma p_members_dumps:
  assumes "\<And>kv n r. kv \<in> set kvs \<Longrightarrow> 2 * length (json_dumps (snd kv)) \<le> n \<Longrightarrow> ends_value r \<Longrightarrow>
      p_value n (json_dumps (snd kv) @ r) = Some (snd kv, r)"
    and "list_all (\<lambda>kv. json_wf (snd kv)) kvs" "kvs \<noteq> []" "2 * length (comma_sep (map member_text kvs)) < n"
  shows "p_members n (comma_sep (map member_text kvs) @ CHR ''}'' # r) = Some (kvs, r)"
  using assms
proof (induction kvs arbitrary: n)
  case (Cons kv kvs)
  obtain k v where kv: "kv = (k, v)" by fastforce
  obtain m where n: "n = Suc m" using Cons.prems(4) by (cases n) auto
  have wf: "json_wf v" using Cons.prems(2) kv by simp
  note start = skip_starts [OF starts_dumps [OF wf]]
  show ?case
  proof (cases kvs)
    case Nil
    have "p_value m (json_dumps v @ CHR ''}'' # r) = Some (v, CHR ''}'' # r)"
      using Cons.prems(1) [of kv m "CHR ''}'' # r"] Cons.prems(4) n Nil kv by (simp add: member_text_def)
    then show ?thesis
      by (simp add: n Nil kv member_text_def json_str_cons str_body_str start)
  next
    case (Cons kv' kvs')
    let ?t = "comma_sep (map member_text kvs) @ CHR ''}'' # r"
    have "p_value m (json_dumps v @ '', '' @ ?t) = Some (v, '', '' @ ?t)"
      using Cons.prems(1) [of kv m "'', '' @ ?t"] Cons.prems(4) n Cons kv by (simp add: member_text_def)
    moreover have "p_members m ?t = Some (kvs, r)"
      using Cons.prems n Cons by (intro Cons.IH) auto
    moreover have "skip_ws ?t = ?t"
      by (cases kvs') (simp_all add: Cons member_text_def json_str_def)
    moreover have "comma_sep (map member_text (kv # kvs)) @ CHR ''}'' # r =
        CHR 0x22 # concat (map json_char k) @ CHR 0x22 # '': '' @ json_dumps v @ '', '' @ ?t"
      by (simp add: Cons kv member_text_def json_str_def)
    ultimately show ?thesis
      by (simp add: n kv str_body_str start)
  qed
qed simp

lemma p_value_dumps:
  "json_wf v \<Longrightarrow> 2 * length (json_dumps v) \<le> n \<Longrightarrow> ends_value r \<Longrightarrow>
    p_value n (json_dumps v @ r) = Some (v, r)"
proof (induction v arbitrary: n r)
  case JNull
  then show ?case by (cases n) (simp_all add: keyword_def json_keywords_def)
next
  case (JBool b)
  then show ?case by (cases b; cases n) (simp_all add: keyword_def json_keywords_def)
next
  case (JNum s)
  then obtain i where i: "s = int_str i" by auto
  then obtain m where "n = Suc m" using JNum.prems(2) int_str_head [of i] by (cases n) auto
  then show ?case using p_value_int [OF JNum.prems(3)] i by simp
next
  case (JStr s)
  then obtain m where "n = Suc m" by (cases n) (auto simp: json_str_def)
  then show ?case by (simp add: json_str_cons str_body_str)
next
  case (JList xs)
  then obtain m where n: "n = Suc m" by (cases n) auto
  show ?case
  proof (cases "xs = []")
    case False
    then obtain y ys where xs: "xs = y # ys" by (cases xs) auto
    let ?t = "comma_sep (map json_dumps xs) @ CHR '']'' # r"
    have e: "p_elements m ?t = Some (xs, r)"
      using JList n False by (intro p_elements_dumps) (auto simp: list_all_iff)
    have "json_wf y" using JList.prems xs by simp
    then have "starts_value ?t" using starts_dumps [of y] by (cases ys) (simp_all add: xs)
    then have "skip_ws ?t = ?t" "\<exists>d u. ?t = d # u \<and> d \<noteq> CHR '']''"
      using skip_starts by (auto simp: starts_value_def split: list.splits)
    then obtain d u where t: "?t = d # u" "d \<noteq> CHR '']''" "skip_ws ?t = d # u" by auto
    have "json_dumps (JList xs) @ r = CHR ''['' # ?t" by simp
    then show ?thesis using e t by (simp add: n del: json_dumps.simps append.simps append_assoc)
  qed (simp add: n)
next
  case (JObj kvs)
  then obtain m where n: "n = Suc m" by (cases n) auto
  show ?case
  proof (cases "kvs = []")
    case False
    then obtain y ys where xs: "kvs = y # ys" by (cases kvs) auto
    let ?t = "comma_sep (map member_text kvs) @ CHR ''}'' # r"
    have e: "p_members m ?t = Some (kvs, r)"
    proof (rule p_members_dumps)
      fix kv n r assume "kv \<in> set kvs" "2 * length (json_dumps (snd kv)) \<le> n" "ends_value r"
      then show "p_value n (json_dumps (snd kv) @ r) = Some (snd kv, r)"
        using JObj.IH [of kv "snd kv" n r] JObj.prems(1) by (simp add: list_all_iff snds.intros)
    next
      show "list_all (\<lambda>kv. json_wf (snd kv)) kvs" using JObj.prems(1) by simp
      show "2 * length (comma_sep (map member_text kvs)) < m"
        using JObj.prems(2) n unfolding dumps_obj by simp
    qed (rule False)
    have "\<exists>u. ?t = CHR 0x22 # u" by (cases ys) (auto simp: xs member_text_def json_str_def)
    then obtain u where t: "?t = CHR 0x22 # u" by blast
    have "json_dumps (JObj kvs) @ r = CHR ''{'' # CHR 0x22 # u" unfolding dumps_obj using t by simp
    moreover have "fold (\<lambda>(k, v). dict_set k v) kvs [] = kvs"
      using fold_dict_set_distinct [of "[]" kvs] JObj.prems(1) by simp
    ultimately show ?thesis using e t by (simp add: n)
  qed (simp add: n)
qed

lemma json_roundtrip:
  assumes "json_wf v"
  shows "json_loads (json_dumps v) = Some v"
proof -
  have "starts_value (json_dumps v @ [])" using starts_dumps [OF assms] .
  then have "skip_ws (json_dumps v) = json_dumps v" using skip_starts by simp
  moreover have "p_value (2 * length (json_dumps v) + 2) (json_dumps v @ []) = Some (v, [])"
    using assms by (intro p_value_dumps) auto
  moreover have "skip_ws [] = []" by (simp add: skip_ws_def)
  ultimately show ?thesis by (simp add: json_loads_def)
qed

section \<open>Base64\<close>

text \<open>The URL-safe alphabet, on strings of bytes.\<close>

definition b64_char :: "nat \<Rightarrow> char" where
  "b64_char n = char_of
     (if n < 26 then 65 + n else if n < 52 then 71 + n else if n < 62 then n - 4
      else if n = 62 then 45 else 95)"

text \<open>\<open>urlsafe_b64decode\<close> first translates \<open>-\<close> and \<open>_\<close>, so both alphabets are read.\<close>

definition b64_value :: "char \<Rightarrow> nat option" where
  "b64_value c = (let n = (of_char c :: nat) in
     if 65 \<le> n \<and> n \<le> 90 then Some (n - 65)
     else if 97 \<le> n \<and> n \<le> 122 then Some (n - 71)
     else if 48 \<le> n \<and> n \<le> 57 then Some (n + 4)
     else if n = 45 \<or> n = 43 then Some 62
     else if n = 95 \<or> n = 47 then Some 63 else None)"

fun b64_encode :: "string \<Rightarrow> string" where
  "b64_encode [] = []"
| "b64_encode [a] = (let x = of_char a in
     [b64_char (x div 4), b64_char (x mod 4 * 16), CHR ''='', CHR ''=''])"
| "b64_encode [a, b] = (let x = of_char a; y = of_char b in
     [b64_char (x div 4), b64_char (x mod 4 * 16 + y div 16), b64_char (y mod 16 * 4), CHR ''=''])"
| "b64_encode (a # b # c # s) = (let x = of_char a; y = of_char b; z = of_char c in
     [b64_char (x div 4), b64_char (x mod 4 * 16 + y div 16), b64_char (y mod 16 * 4 + z div 64),
      b64_char (z mod 64)] @ b64_encode s)"

text \<open>The loop of \<open>binascii.a2b_base64\<close> (not strict): characters outside the alphabet are skipped, a
  padding character ends the text once it completes a quantum, and a text that stops inside a quantum
  is an error.  \<open>q\<close> is the position in the quantum, \<open>left\<close> the bits carried over, \<open>pads\<close> the padding
  seen since the last character.\<close>

fun b64_loop :: "nat \<Rightarrow> nat \<Rightarrow> nat \<Rightarrow> string \<Rightarrow> string option" where
  "b64_loop q left pads [] = (if q = 0 then Some [] else None)"
| "b64_loop q left pads (c # s) =
     (if c = CHR ''='' then
        (if q \<ge> 2 \<and> q + (pads + 1) \<ge> 4 then Some []
         else b64_loop q left (if q \<ge> 2 then pads + 1 else pads) s)
      else case b64_value c of
        None \<Rightarrow> b64_loop q left pads s
      | Some v \<Rightarrow>
          (if q = 0 then b64_loop 1 v 0 s
           else if q = 1 then map_option ((#) (char_of (left * 4 + v div 16))) (b64_loop 2 (v mod 16) 0 s)
           else if q = 2 then map_option ((#) (char_of (left * 16 + v div 4))) (b64_loop 3 (v mod 4) 0 s)
           else map_option ((#) (char_of (left * 64 + v))) (b64_loop 0 0 0 s)))"

definition b64_decode :: "string \<Rightarrow> string option" where
  "b64_decode s = b64_loop 0 0 0 s"

lemma b64_value_char: "n < 64 \<Longrightarrow> b64_value (b64_char n) = Some n \<and> b64_char n \<noteq> CHR ''=''"
proof -
  assume n: "n < 64"
  define m where "m = (if n < 26 then 65 + n else if n < 52 then 71 + n else if n < 62 then n - 4
      else if n = 62 then 45 else 95)"
  have "(of_char (b64_char n) :: nat) = m" using n by (auto simp: b64_char_def m_def)
  moreover have "(of_char (CHR ''='') :: nat) = 61" by simp
  moreover have "m \<noteq> 61" using n by (auto simp: m_def)
  ultimately show ?thesis using n by (auto simp: b64_value_def Let_def m_def)
qed

lemma b64_step:
  assumes "v < 64"
  shows "b64_loop 0 l p (b64_char v # s) = b64_loop 1 v 0 s"
    "b64_loop (Suc 0) l p (b64_char v # s) = map_option ((#) (char_of (l * 4 + v div 16))) (b64_loop 2 (v mod 16) 0 s)"
    "b64_loop 2 l p (b64_char v # s) = map_option ((#) (char_of (l * 16 + v div 4))) (b64_loop 3 (v mod 4) 0 s)"
    "b64_loop 3 l p (b64_char v # s) = map_option ((#) (char_of (l * 64 + v))) (b64_loop 0 0 0 s)"
  using b64_value_char [OF assms] by simp_all

lemma b64_end:
  "b64_loop 2 l 0 ''=='' = Some []" "b64_loop 3 l 0 ''='' = Some []"
  by simp_all

lemma b64_quantum:
  assumes "v < 64" "w < 64"
  shows "b64_loop 0 l p (b64_char v # b64_char w # ''=='') = Some [char_of (v * 4 + w div 16)]"
    and "x < 64 \<Longrightarrow> b64_loop 0 l p (b64_char v # b64_char w # b64_char x # ''='') =
      Some [char_of (v * 4 + w div 16), char_of (w mod 16 * 16 + x div 4)]"
    and "x < 64 \<Longrightarrow> y < 64 \<Longrightarrow> b64_loop 0 l p (b64_char v # b64_char w # b64_char x # b64_char y # s) =
      map_option (\<lambda>t. char_of (v * 4 + w div 16) # char_of (w mod 16 * 16 + x div 4) #
        char_of (x mod 4 * 64 + y) # t) (b64_loop 0 0 0 s)"
  using assms
  by (simp_all add: b64_step b64_end option.map_comp o_def del: b64_loop.simps(2))

lemma sextets:
  assumes "x < 256" "y < 256" "z < (256 :: nat)"
  shows "x div 4 < 64" "x mod 4 * 16 < 64" "x mod 4 * 16 + y div 16 < 64" "y mod 16 * 4 < 64"
    "y mod 16 * 4 + z div 64 < 64" "z mod 64 < 64"
    "x div 4 * 4 + x mod 4 * 16 div 16 = x" "x div 4 * 4 + (x mod 4 * 16 + y div 16) div 16 = x"
    "(x mod 4 * 16 + y div 16) mod 16 * 16 + y mod 16 * 4 div 4 = y"
    "(x mod 4 * 16 + y div 16) mod 16 * 16 + (y mod 16 * 4 + z div 64) div 4 = y"
    "(y mod 16 * 4 + z div 64) mod 4 * 64 + z mod 64 = z"
proof -
  have q: "x mod 4 < 4" "y mod 16 < 16" "y div 16 < 16" "z div 64 < 4" using assms by simp_all
  show "x div 4 < 64" "x mod 4 * 16 < 64" "x mod 4 * 16 + y div 16 < 64" "y mod 16 * 4 < 64"
    "y mod 16 * 4 + z div 64 < 64" "z mod 64 < 64" using assms(1) q by simp_all
  show "x div 4 * 4 + x mod 4 * 16 div 16 = x" by simp
  have a: "(x mod 4 * 16 + y div 16) div 16 = x mod 4" "(x mod 4 * 16 + y div 16) mod 16 = y div 16"
    using q by simp_all
  have b: "(y mod 16 * 4 + z div 64) div 4 = y mod 16" "(y mod 16 * 4 + z div 64) mod 4 = z div 64"
    using q by simp_all
  show "x div 4 * 4 + (x mod 4 * 16 + y div 16) div 16 = x" unfolding a by simp
  show "(x mod 4 * 16 + y div 16) mod 16 * 16 + y mod 16 * 4 div 4 = y" unfolding a by simp
  show "(x mod 4 * 16 + y div 16) mod 16 * 16 + (y mod 16 * 4 + z div 64) div 4 = y"
    unfolding a b by simp
  show "(y mod 16 * 4 + z div 64) mod 4 * 64 + z mod 64 = z" unfolding b by simp
qed

lemma b64_roundtrip: "b64_decode (b64_encode s) = Some s"
  unfolding b64_decode_def
proof (induction s rule: b64_encode.induct)
  case (2 a)
  have "(of_char a :: nat) < 256" by simp
  note sextets [OF this this this]
  then show ?case unfolding b64_encode.simps Let_def by (simp only: b64_quantum char_of_char)
next
  case (3 a b)
  have "(of_char a :: nat) < 256" "(of_char b :: nat) < 256" by simp_all
  note sextets [OF this this(2)]
  then show ?case unfolding b64_encode.simps Let_def by (simp only: b64_quantum char_of_char)
next
  case (4 a b c s)
  have "(of_char a :: nat) < 256" "(of_char b :: nat) < 256" "(of_char c :: nat) < 256" by simp_all
  note sextets [OF this]
  then show ?case
    unfolding b64_encode.simps Let_def append.simps
    by (simp only: b64_quantum char_of_char 4 option.map)
qed simp

end
