(* ===== verification/ChatClient.thy ===== *)
theory ChatClient
  imports PyJson Values
begin

text \<open>The AI side of the chat: the OpenAI gateway's streaming calls and error mapping, and OpenAIChatClient
  with its tool rounds, streamed and not.  The model behind the API is a parameter: for the messages of a
  call it gives the chunks of a stream and how the stream ends, or a response or an SDK error.  The tool
  executor is a parameter too.  Metrics, the rate limiter's waiting time and the circuit breaker's state are
  not modelled: an open breaker or a full queue is a failed call.\<close>

section \<open>Errors\<close>

datatype ai_error = OpenAICallError | AIRateLimitedError | AITimeoutError | AIUnavailableError | AIInvalidRequestError

text \<open>What the SDK, the circuit breaker or the limiter raises.\<close>

datatype sdk_error =
    Translated ai_error
  | OpenedState
  | RateLimitError
  | APITimeoutError
  | APIConnectionError
  | BadRequestError
  | NotFoundError
  | UnprocessableEntityError
  | APIStatusError nat
  | OtherException

fun map_exception :: "sdk_error \<Rightarrow> ai_error" where
  "map_exception (Translated e) = e"
| "map_exception OpenedState = AIUnavailableError"
| "map_exception RateLimitError = AIRateLimitedError"
| "map_exception APITimeoutError = AITimeoutError"
| "map_exception APIConnectionError = AIUnavailableError"
| "map_exception BadRequestError = AIInvalidRequestError"
| "map_exception NotFoundError = AIInvalidRequestError"
| "map_exception UnprocessableEntityError = AIInvalidRequestError"
| "map_exception (APIStatusError code) = (if code \<ge> 500 then AIUnavailableError else AIInvalidRequestError)"
| "map_exception OtherException = OpenAICallError"

fun outcome_label :: "ai_error \<Rightarrow> string" where
  "outcome_label AIRateLimitedError = ''rate_limited''"
| "outcome_label AITimeoutError = ''timeout''"
| "outcome_label AIUnavailableError = ''unavailable''"
| "outcome_label AIInvalidRequestError = ''invalid_request''"
| "outcome_label OpenAICallError = ''error''"

section \<open>Streams\<close>

record tool_fragment =
  tf_index :: int
  tf_id :: "string option"
  tf_function :: "(string option \<times> string option) option"

record chunk =
  ck_choice :: "(string option \<times> tool_fragment list \<times> string option) option"
  ck_usage :: "(nat \<times> nat) option"

record tool_request =
  tr_id :: string
  tr_name :: string
  tr_arguments :: string

datatype gateway_event = ContentDelta string | ToolCallsDelta "tool_request list" | UsageInfo nat nat

datatype stream_end = Finished | Broken sdk_error

definition truthy_text :: "string option \<Rightarrow> string" where
  "truthy_text s = (case s of None \<Rightarrow> [] | Some t \<Rightarrow> t)"

definition accumulate_fragment :: "(int \<times> tool_request) list \<Rightarrow> tool_fragment \<Rightarrow> (int \<times> tool_request) list" where
  "accumulate_fragment frs tc =
     (let slot = dict_get frs (tf_index tc) \<lparr>tr_id = [], tr_name = [], tr_arguments = []\<rparr>;
          slot = (if truthy_text (tf_id tc) \<noteq> [] then slot\<lparr>tr_id := truthy_text (tf_id tc)\<rparr> else slot);
          slot = (case tf_function tc of None \<Rightarrow> slot
            | Some (name, args) \<Rightarrow>
                (let slot = (if truthy_text name \<noteq> [] then slot\<lparr>tr_name := truthy_text name\<rparr> else slot)
                 in slot\<lparr>tr_arguments := tr_arguments slot @ truthy_text args\<rparr>))
      in dict_set (tf_index tc) slot frs)"

definition accumulate_tool_calls :: "(int \<times> tool_request) list \<Rightarrow> tool_fragment list \<Rightarrow> (int \<times> tool_request) list" where
  "accumulate_tool_calls frs tcs = foldl accumulate_fragment frs tcs"

definition assemble_tool_calls :: "(int \<times> tool_request) list \<Rightarrow> tool_request list" where
  "assemble_tool_calls frs = map snd (sort_key fst frs)"

text \<open>One chunk: its content, its fragments, the assembled calls when the model finishes requesting.\<close>

definition chunk_step :: "(int \<times> tool_request) list \<Rightarrow> chunk \<Rightarrow> (int \<times> tool_request) list \<times> gateway_event list" where
  "chunk_step frs ck = (case ck_choice ck of None \<Rightarrow> (frs, [])
     | Some (content, tcs, finish) \<Rightarrow>
         (let frs' = (if tcs = [] then frs else accumulate_tool_calls frs tcs)
          in (frs', (if truthy_text content \<noteq> [] then [ContentDelta (truthy_text content)] else []) @
                    (if finish = Some ''tool_calls'' then [ToolCallsDelta (assemble_tool_calls frs')] else []))))"

fun chunk_events :: "(int \<times> tool_request) list \<Rightarrow> chunk list \<Rightarrow> gateway_event list" where
  "chunk_events frs [] = []"
| "chunk_events frs (ck # cks) = (case chunk_step frs ck of (frs', evs) \<Rightarrow> evs @ chunk_events frs' cks)"

definition last_usage :: "chunk list \<Rightarrow> nat \<times> nat" where
  "last_usage cks = foldl (\<lambda>u ck. case ck_usage ck of None \<Rightarrow> u | Some v \<Rightarrow> v) (0, 0) cks"

definition stream_call_with_tools :: "chunk list \<times> stream_end \<Rightarrow> gateway_event list \<times> ai_error option" where
  "stream_call_with_tools s = (case s of (cks, Finished) \<Rightarrow>
       (chunk_events [] cks @ [UsageInfo (fst (last_usage cks)) (snd (last_usage cks))], None)
     | (cks, Broken e) \<Rightarrow> (chunk_events [] cks, Some (map_exception e)))"

text \<open>\<open>stream_call\<close> offers no tools and yields the content and the usage.\<close>

definition content_of :: "chunk \<Rightarrow> gateway_event list" where
  "content_of ck = (case ck_choice ck of None \<Rightarrow> []
     | Some (content, _, _) \<Rightarrow> if truthy_text content \<noteq> [] then [ContentDelta (truthy_text content)] else [])"

definition stream_call :: "chunk list \<times> stream_end \<Rightarrow> gateway_event list \<times> ai_error option" where
  "stream_call s = (case s of (cks, Finished) \<Rightarrow>
       (concat (map content_of cks) @ [UsageInfo (fst (last_usage cks)) (snd (last_usage cks))], None)
     | (cks, Broken e) \<Rightarrow> (concat (map content_of cks), Some (map_exception e)))"

section \<open>Messages and tool rounds\<close>

datatype message =
    Content string string
  | ToolCalls "tool_request list"
  | ToolResult string string

text \<open>The error of a chat call: from the AI service, or raised by the executor.\<close>

datatype chat_error = AI ai_error | Raised exn

definition parsed_arguments :: "string \<Rightarrow> json" where
  "parsed_arguments s = (case json_loads (if s = [] then ''{}'' else s) of None \<Rightarrow> JObj [] | Some v \<Rightarrow> v)"

fun run_calls :: "(string \<Rightarrow> json \<Rightarrow> exn + json) \<Rightarrow> tool_request list \<Rightarrow> exn + message list" where
  "run_calls exec [] = Inr []"
| "run_calls exec (tc # tcs) =
     bindR (exec (tr_name tc) (parsed_arguments (tr_arguments tc))) (\<lambda>r.
     bindR (run_calls exec tcs) (\<lambda>ms. Inr (ToolResult (tr_id tc) (json_dumps r) # ms)))"

definition execute_tool_round ::
  "(string \<Rightarrow> json \<Rightarrow> exn + json) \<Rightarrow> message list \<Rightarrow> tool_request list \<Rightarrow> exn + message list \<times> string list" where
  "execute_tool_round exec messages tcs =
     bindR (run_calls exec tcs) (\<lambda>ms. Inr (messages @ ToolCalls tcs # ms, map tr_name tcs))"

definition history_message :: "string \<times> string \<Rightarrow> message" where
  "history_message t = (case t of (role, content) \<Rightarrow>
     Content (if role = ''user'' \<or> role = ''assistant'' then role else ''user'') content)"

text \<open>\<open>prompt\<close> is the system prompt, \<open>today\<close> its date line.\<close>

definition build_tools_messages ::
  "string \<Rightarrow> string option \<Rightarrow> (string \<times> string) list \<Rightarrow> string \<Rightarrow> message list" where
  "build_tools_messages prompt today history msg =
     Content ''system'' (case today of None \<Rightarrow> prompt
       | Some d \<Rightarrow> ''Today's date is '' @ d @ ''.'' @ [CHR 0x0A, CHR 0x0A] @ prompt)
     # map history_message history @ [Content ''user'' msg]"

section \<open>stream_with_tools\<close>

datatype stream_item = Token string | Usage nat nat "string list"

fun token_items :: "gateway_event list \<Rightarrow> stream_item list" where
  "token_items [] = []"
| "token_items (ContentDelta t # es) = Token t # token_items es"
| "token_items (_ # es) = token_items es"

fun round_calls :: "gateway_event list \<Rightarrow> tool_request list \<Rightarrow> tool_request list" where
  "round_calls [] calls = calls"
| "round_calls (ToolCallsDelta tcs # es) calls = round_calls es tcs"
| "round_calls (_ # es) calls = round_calls es calls"

fun round_usage :: "gateway_event list \<Rightarrow> nat \<times> nat" where
  "round_usage [] = (0, 0)"
| "round_usage (UsageInfo p c # es) = (case round_usage es of (p', c') \<Rightarrow> (p + p', c + c'))"
| "round_usage (_ # es) = round_usage es"

text \<open>The rounds of a stream, with the running totals: the items it yields and the error it ends with, if
  any.  \<open>model\<close> answers the call for the messages so far; its first argument says whether tools are
  offered.\<close>

fun stream_rounds ::
  "(bool \<Rightarrow> message list \<Rightarrow> chunk list \<times> stream_end) \<Rightarrow> (string \<Rightarrow> json \<Rightarrow> exn + json) \<Rightarrow> nat \<Rightarrow>
     message list \<Rightarrow> nat \<Rightarrow> nat \<Rightarrow> string list \<Rightarrow> stream_item list \<times> chat_error option" where
  "stream_rounds model exec 0 messages p c tools =
     (case stream_call (model False messages) of (es, err) \<Rightarrow>
        (token_items es @ (case err of Some e \<Rightarrow> [] | None \<Rightarrow>
           (case round_usage es of (p', c') \<Rightarrow> [Usage (p + p') (c + c') tools])), map_option AI err))"
| "stream_rounds model exec (Suc k) messages p c tools =
     (case stream_call_with_tools (model True messages) of (es, err) \<Rightarrow>
        (case err of
           Some e \<Rightarrow> (token_items es, Some (AI e))
         | None \<Rightarrow>
             (let calls = round_calls es []; (p', c') = round_usage es
              in if calls = [] then (token_items es @ [Usage (p + p') (c + c') tools], None)
                 else case execute_tool_round exec messages calls of
                   Inl e \<Rightarrow> (token_items es, Some (Raised e))
                 | Inr (messages', names) \<Rightarrow>
                     (case stream_rounds model exec k messages' (p + p') (c + c') (tools @ names) of
                        (items, err') \<Rightarrow>
                          (token_items es @ Usage (p + p') (c + c') (tools @ names) # items, err')))))"

definition iteration_cap :: "int \<Rightarrow> nat" where
  "iteration_cap configured = nat (max 1 configured)"

definition stream_with_tools ::
  "(bool \<Rightarrow> message list \<Rightarrow> chunk list \<times> stream_end) \<Rightarrow> (string \<Rightarrow> json \<Rightarrow> exn + json) \<Rightarrow> int \<Rightarrow>
     message list \<Rightarrow> stream_item list \<times> chat_error option" where
  "stream_with_tools model exec configured messages =
     stream_rounds model exec (iteration_cap configured) messages 0 0 []"

section \<open>chat_with_tools\<close>

text \<open>A response: its usage and, if it has a choice, the content and the tool calls of the message, each
  with whether it is a function call.\<close>

record response =
  rs_usage :: "(nat \<times> nat) option"
  rs_choice :: "(string option \<times> (bool \<times> tool_request) list) option"

record tool_rounds =
  ro_messages :: "message list"
  ro_prompt :: nat
  ro_completion :: nat
  ro_tools :: "string list"
  ro_answer :: "string option"

record chat_response =
  cr_answer :: string
  cr_prompt :: nat
  cr_completion :: nat
  cr_tools :: "string list"

definition usage_of :: "response \<Rightarrow> nat \<times> nat" where
  "usage_of r = (case rs_usage r of None \<Rightarrow> (0, 0) | Some u \<Rightarrow> u)"

fun resolve_tool_rounds ::
  "(bool \<Rightarrow> message list \<Rightarrow> sdk_error + response) \<Rightarrow> (string \<Rightarrow> json \<Rightarrow> exn + json) \<Rightarrow> nat \<Rightarrow>
     message list \<Rightarrow> nat \<Rightarrow> nat \<Rightarrow> string list \<Rightarrow> sdk_error + tool_rounds" where
  "resolve_tool_rounds model exec 0 messages p c tools =
     Inr \<lparr>ro_messages = messages, ro_prompt = p, ro_completion = c, ro_tools = tools, ro_answer = None\<rparr>"
| "resolve_tool_rounds model exec (Suc k) messages p c tools =
     bindR (model True messages) (\<lambda>r.
       (let (p', c') = usage_of r; (content, calls) = (case rs_choice r of None \<Rightarrow> (None, []) | Some x \<Rightarrow> x)
        in if calls = [] then
             Inr \<lparr>ro_messages = messages, ro_prompt = p + p', ro_completion = c + c', ro_tools = tools,
                  ro_answer = Some (truthy_text content)\<rparr>
           else case execute_tool_round exec messages (map snd (filter fst calls)) of
             Inl e \<Rightarrow> Inl OtherException
           | Inr (messages', names) \<Rightarrow>
               resolve_tool_rounds model exec k messages' (p + p') (c + c') (tools @ names)))"

text \<open>Everything runs inside the gateway's \<open>call\<close>, which translates whatever is raised, an exception of
  the executor included.\<close>

definition chat_with_tools ::
  "(bool \<Rightarrow> message list \<Rightarrow> sdk_error + response) \<Rightarrow> (string \<Rightarrow> json \<Rightarrow> exn + json) \<Rightarrow> int \<Rightarrow>
     message list \<Rightarrow> ai_error + chat_response" where
  "chat_with_tools model exec configured messages =
     (case bindR (resolve_tool_rounds model exec (iteration_cap configured) messages 0 0 []) (\<lambda>ro.
        case ro_answer ro of
          Some a \<Rightarrow> Inr \<lparr>cr_answer = a, cr_prompt = ro_prompt ro, cr_completion = ro_completion ro,
                        cr_tools = ro_tools ro\<rparr>
        | None \<Rightarrow> bindR (model False (ro_messages ro)) (\<lambda>r.
            Inr \<lparr>cr_answer = (case rs_choice r of None \<Rightarrow> [] | Some (content, _) \<Rightarrow> truthy_text content),
                 cr_prompt = ro_prompt ro + fst (usage_of r),
                 cr_completion = ro_completion ro + snd (usage_of r), cr_tools = ro_tools ro\<rparr>)) of
        Inl e \<Rightarrow> Inl (map_exception e) | Inr r \<Rightarrow> Inr r)"

section \<open>Assembling fragments\<close>

definition empty_request :: tool_request where
  "empty_request = \<lparr>tr_id = [], tr_name = [], tr_arguments = []\<rparr>"

definition merge_fragment :: "tool_request \<Rightarrow> tool_fragment \<Rightarrow> tool_request" where
  "merge_fragment slot tc =
     \<lparr>tr_id = (if truthy_text (tf_id tc) \<noteq> [] then truthy_text (tf_id tc) else tr_id slot),
      tr_name = (case tf_function tc of None \<Rightarrow> tr_name slot
        | Some (name, _) \<Rightarrow> if truthy_text name \<noteq> [] then truthy_text name else tr_name slot),
      tr_arguments = tr_arguments slot @ (case tf_function tc of None \<Rightarrow> [] | Some (_, args) \<Rightarrow> truthy_text args)\<rparr>"

lemma accumulate_merge:
  "accumulate_fragment frs tc = dict_set (tf_index tc) (merge_fragment (dict_get frs (tf_index tc) empty_request) tc) frs"
proof -
  obtain i n a where "dict_get frs (tf_index tc) \<lparr>tr_id = [], tr_name = [], tr_arguments = []\<rparr> =
      \<lparr>tr_id = i, tr_name = n, tr_arguments = a\<rparr>"
    by (cases "dict_get frs (tf_index tc) \<lparr>tr_id = [], tr_name = [], tr_arguments = []\<rparr>") blast
  then show ?thesis
    by (simp add: accumulate_fragment_def merge_fragment_def empty_request_def Let_def
        split: option.split prod.split)
qed

lemma accumulate_dict_fold:
  "accumulate_tool_calls frs tcs = dict_fold (\<lambda>_. True) tf_index merge_fragment empty_request frs tcs"
  by (simp add: accumulate_tool_calls_def dict_fold_def accumulate_merge [abs_def])

definition fragment_args :: "tool_fragment \<Rightarrow> string" where
  "fragment_args tc = (case tf_function tc of None \<Rightarrow> [] | Some (_, args) \<Rightarrow> truthy_text args)"

lemma merge_arguments:
  "tr_arguments (foldl merge_fragment slot tcs) = tr_arguments slot @ concat (map fragment_args tcs)"
  by (induction tcs arbitrary: slot) (simp_all add: merge_fragment_def fragment_args_def)

lemma sort_key_fst_dict:
  fixes d :: "(int \<times> 'v) list"
  assumes "distinct (map fst d)"
  shows "map snd (sort_key fst d) = map (\<lambda>k. dict_get d k z) (sorted_list_of_set (fst ` set d))"
proof -
  have keys: "map fst (sort_key fst d) = sorted_list_of_set (fst ` set d)"
  proof (rule sorted_distinct_set_unique)
    have "distinct (sort_key fst d)" "set (sort_key fst d) = set d"
      using assms by (simp_all add: distinct_map)
    then show "distinct (map fst (sort_key fst d))" using assms by (simp add: distinct_map)
    show "set (map fst (sort_key fst d)) = set (sorted_list_of_set (fst ` set d))" by simp
  qed simp_all
  have "snd kv = dict_get d (fst kv) z" if "kv \<in> set (sort_key fst d)" for kv
    using that dict_get_mem [OF assms, of "fst kv" "snd kv" z] by simp
  then have "map snd (sort_key fst d) = map (\<lambda>kv. dict_get d (fst kv) z) (sort_key fst d)"
    by (intro map_cong refl)
  also have "\<dots> = map (\<lambda>k. dict_get d k z) (map fst (sort_key fst d))" by simp
  finally show ?thesis unfolding keys .
qed

section \<open>Paired tool messages\<close>

text \<open>Every request for tools is followed by exactly one result per call, in the order of the calls and
  with their ids, before anything else.\<close>

fun paired :: "string list \<Rightarrow> message list \<Rightarrow> bool" where
  "paired ids [] = (ids = [])"
| "paired ids (Content r c # ms) = (ids = [] \<and> paired [] ms)"
| "paired ids (ToolCalls tcs # ms) = (ids = [] \<and> paired (map tr_id tcs) ms)"
| "paired ids (ToolResult i c # ms) = (case ids of [] \<Rightarrow> False | j # js \<Rightarrow> i = j \<and> paired js ms)"

lemma paired_append: "paired ids ms \<Longrightarrow> paired ids (ms @ ms') = paired [] ms'"
  by (induction ids ms rule: paired.induct) (auto split: list.splits)

lemma run_calls_ids: "run_calls exec tcs = Inr ms \<Longrightarrow> paired (map tr_id tcs) ms"
  by (induction tcs arbitrary: ms) (auto simp: bindR_Inr_iff)

lemma execute_tool_round_paired:
  assumes "execute_tool_round exec messages tcs = Inr (messages', names)" "paired [] messages"
  shows "paired [] messages'"
  using assms run_calls_ids by (auto simp: execute_tool_round_def bindR_Inr_iff paired_append)

lemma build_messages_paired: "paired [] (build_tools_messages prompt today history msg)"
proof -
  have "paired [] (map history_message history @ [Content ''user'' msg])"
    by (induction history) (auto simp: history_message_def)
  then show ?thesis by (simp add: build_tools_messages_def)
qed

lemma stream_rounds_cong:
  assumes "\<And>b ms. paired [] ms \<Longrightarrow> model b ms = model' b ms" "paired [] messages"
  shows "stream_rounds model exec k messages p c tools = stream_rounds model' exec k messages p c tools"
  using assms(2)
proof (induction k arbitrary: messages p c tools)
  case (Suc k)
  have "stream_rounds model exec k messages' p' c' t' = stream_rounds model' exec k messages' p' c' t'"
    if "execute_tool_round exec messages tcs = Inr (messages', names)" for tcs messages' names p' c' t'
    using execute_tool_round_paired [OF that Suc.prems] by (rule Suc.IH)
  then show ?case
    using assms(1) [OF Suc.prems] by (auto simp: Let_def split: prod.split option.split sum.split)
qed (simp add: assms(1))

section \<open>Usage\<close>

text \<open>What each completed call of the stream is billed, in order.\<close>

fun paid_rounds ::
  "(bool \<Rightarrow> message list \<Rightarrow> chunk list \<times> stream_end) \<Rightarrow> (string \<Rightarrow> json \<Rightarrow> exn + json) \<Rightarrow> nat \<Rightarrow>
     message list \<Rightarrow> (nat \<times> nat) list" where
  "paid_rounds model exec 0 messages = (case model False messages of
     (cks, Finished) \<Rightarrow> [last_usage cks] | _ \<Rightarrow> [])"
| "paid_rounds model exec (Suc k) messages = (case model True messages of
     (cks, Broken e) \<Rightarrow> []
   | (cks, Finished) \<Rightarrow> last_usage cks #
       (let calls = round_calls (chunk_events [] cks) []
        in if calls = [] then []
           else case execute_tool_round exec messages calls of
             Inl e \<Rightarrow> [] | Inr (messages', names) \<Rightarrow> paid_rounds model exec k messages'))"

fun running_totals :: "nat \<Rightarrow> nat \<Rightarrow> (nat \<times> nat) list \<Rightarrow> (nat \<times> nat) list" where
  "running_totals p c [] = []"
| "running_totals p c ((p', c') # us) = (p + p', c + c') # running_totals (p + p') (c + c') us"

definition usages :: "stream_item list \<Rightarrow> (nat \<times> nat) list" where
  "usages items = List.map_filter (\<lambda>i. case i of Token _ \<Rightarrow> None | Usage p c _ \<Rightarrow> Some (p, c)) items"

lemma usages_simps [simp]:
  "usages [] = []" "usages (Token t # is) = usages is" "usages (Usage p c ts # is) = (p, c) # usages is"
  "usages (xs @ ys) = usages xs @ usages ys"
  by (simp_all add: usages_def map_filter_simps) (simp add: List.map_filter_def)

lemma usages_tokens [simp]: "usages (token_items es) = []"
  by (induction es rule: token_items.induct) auto

lemma token_items_append [simp]: "token_items (es @ fs) = token_items es @ token_items fs"
  by (induction es rule: token_items.induct) auto

lemma round_calls_append [simp]: "round_calls (es @ fs) calls = round_calls fs (round_calls es calls)"
  by (induction es calls rule: round_calls.induct) auto

fun no_usage :: "gateway_event list \<Rightarrow> bool" where
  "no_usage [] = True"
| "no_usage (UsageInfo p c # es) = False"
| "no_usage (_ # es) = no_usage es"

lemma no_usage_append [simp]: "no_usage (es @ fs) \<longleftrightarrow> no_usage es \<and> no_usage fs"
  by (induction es rule: no_usage.induct) auto

lemma round_usage_tail: "no_usage es \<Longrightarrow> round_usage (es @ [UsageInfo p c]) = (p, c)"
  by (induction es rule: no_usage.induct) auto

lemma no_usage_chunks: "no_usage (chunk_events frs cks)"
proof (induction cks arbitrary: frs)
  case (Cons ck cks)
  then show ?case
    by (auto simp: chunk_step_def Let_def split: option.split prod.split)
qed simp

lemma no_usage_contents: "no_usage (concat (map content_of cks))"
  by (induction cks) (auto simp: content_of_def split: option.split)

lemma stream_call_finished:
  "stream_call_with_tools (cks, Finished) = (es, err) \<Longrightarrow>
    err = None \<and> round_usage es = last_usage cks \<and> round_calls es [] = round_calls (chunk_events [] cks) []"
  "stream_call (cks, Finished) = (es, err) \<Longrightarrow> err = None \<and> round_usage es = last_usage cks"
  by (auto simp: stream_call_with_tools_def stream_call_def round_usage_tail no_usage_chunks no_usage_contents)

lemma stream_call_broken:
  "stream_call_with_tools (cks, Broken e) = (es, err) \<Longrightarrow> err = Some (map_exception e)"
  "stream_call (cks, Broken e) = (es, err) \<Longrightarrow> err = Some (map_exception e)"
  by (auto simp: stream_call_with_tools_def stream_call_def)

lemma stream_usages:
  assumes "stream_rounds model exec k messages p c tools = (items, err)" "\<nexists>e. err = Some (Raised e)"
  shows "usages items = running_totals p c (paid_rounds model exec k messages)"
  using assms
proof (induction k arbitrary: messages p c tools items)
  case 0
  obtain cks en where m: "model False messages = (cks, en)" by fastforce
  obtain es err' where s: "stream_call (cks, en) = (es, err')" by fastforce
  show ?case
  proof (cases en)
    case Finished
    then show ?thesis using 0 m s stream_call_finished(2) [of cks es err']
      by (auto split: prod.splits)
  next
    case (Broken e)
    then show ?thesis using 0 m s stream_call_broken(2) [of cks e es err'] by auto
  qed
next
  case (Suc k)
  obtain cks en where m: "model True messages = (cks, en)" by fastforce
  obtain es err' where s: "stream_call_with_tools (cks, en) = (es, err')" by fastforce
  show ?case
  proof (cases en)
    case (Broken e)
    then show ?thesis using Suc.prems m s stream_call_broken(1) [of cks e es err'] by auto
  next
    case Finished
    obtain p' c' where u: "last_usage cks = (p', c')" by fastforce
    have f: "err' = None" "round_usage es = (p', c')"
      "round_calls es [] = round_calls (chunk_events [] cks) []"
      using stream_call_finished(1) [of cks es err'] s Finished u by auto
    show ?thesis
    proof (cases "round_calls es [] = []")
      case True
      then show ?thesis using Suc.prems m s Finished f u by (auto simp: Let_def)
    next
      case False
      then obtain messages' names where x: "execute_tool_round exec messages (round_calls es []) = Inr (messages', names)"
        using Suc.prems m s Finished f by (auto simp: Let_def split: sum.splits)
      obtain items' err2 where r: "stream_rounds model exec k messages' (p + p') (c + c') (tools @ names) = (items', err2)"
        by fastforce
      then have i: "items = token_items es @ Usage (p + p') (c + c') (tools @ names) # items'" "err2 = err"
        using Suc.prems(1) m s Finished f False x by (auto simp: Let_def)
      then show ?thesis
        using Suc.IH [OF r [unfolded i(2)] Suc.prems(2)] m s Finished f False x u by (auto simp: Let_def)
    qed
  qed
qed

section \<open>Streamed and plain calls\<close>

definition response_of :: "gateway_event list \<Rightarrow> response" where
  "response_of es = \<lparr>rs_usage = Some (round_usage es),
     rs_choice = Some (Some (concat (map (\<lambda>i. case i of Token t \<Rightarrow> t | _ \<Rightarrow> []) (token_items es))),
       map (Pair True) (round_calls es []))\<rparr>"

text \<open>The plain API behind the same model.\<close>

definition plain_model ::
  "(bool \<Rightarrow> message list \<Rightarrow> chunk list \<times> stream_end) \<Rightarrow> bool \<Rightarrow> message list \<Rightarrow> sdk_error + response" where
  "plain_model model b ms = (case model b ms of
     (cks, Broken e) \<Rightarrow> Inl e
   | (cks, Finished) \<Rightarrow> Inr (response_of
       (fst (if b then stream_call_with_tools (cks, Finished) else stream_call (cks, Finished)))))"

definition answer_of :: "stream_item list \<Rightarrow> string" where
  "answer_of items = concat (map (\<lambda>i. case i of Token t \<Rightarrow> t | _ \<Rightarrow> []) items)"

lemma answer_of_simps [simp]:
  "answer_of [] = []" "answer_of (Token t # is) = t @ answer_of is" "answer_of (Usage p c ts # is) = answer_of is"
  "answer_of (xs @ ys) = answer_of xs @ answer_of ys"
  by (simp_all add: answer_of_def)

definition quiet_tool_rounds :: "(bool \<Rightarrow> message list \<Rightarrow> chunk list \<times> stream_end) \<Rightarrow> bool" where
  "quiet_tool_rounds model \<longleftrightarrow> (\<forall>ms es err. stream_call_with_tools (model True ms) = (es, err) \<longrightarrow>
     round_calls es [] \<noteq> [] \<longrightarrow> token_items es = [])"

lemma filter_pair_True [simp]: "map snd (filter fst (map (Pair True) xs)) = xs" "snd \<circ> Pair True = id"
  by (induction xs) auto

lemma fst_snd_round_usage: "(case round_usage es of (p, c) \<Rightarrow> f p c) = f (fst (round_usage es)) (snd (round_usage es))"
  by (simp add: case_prod_unfold)

lemma streamed_plain:
  assumes "quiet_tool_rounds model" "stream_rounds model exec k messages p c tools = (items, None)"
  shows "\<exists>its P C T. items = its @ [Usage P C T] \<and>
    bindR (resolve_tool_rounds (plain_model model) exec k messages p c tools) (\<lambda>ro.
        case ro_answer ro of
          Some a \<Rightarrow> Inr \<lparr>cr_answer = a, cr_prompt = ro_prompt ro, cr_completion = ro_completion ro,
                        cr_tools = ro_tools ro\<rparr>
        | None \<Rightarrow> bindR (plain_model model False (ro_messages ro)) (\<lambda>r.
            Inr \<lparr>cr_answer = (case rs_choice r of None \<Rightarrow> [] | Some (content, _) \<Rightarrow> truthy_text content),
                 cr_prompt = ro_prompt ro + fst (usage_of r),
                 cr_completion = ro_completion ro + snd (usage_of r), cr_tools = ro_tools ro\<rparr>)) =
      Inr \<lparr>cr_answer = answer_of items, cr_prompt = P, cr_completion = C, cr_tools = T\<rparr>"
  using assms(2)
proof (induction k arbitrary: messages p c tools items)
  case 0
  obtain cks en where m: "model False messages = (cks, en)" by fastforce
  obtain es err where s: "stream_call (cks, en) = (es, err)" by fastforce
  have en: "en = Finished"
  proof (cases en)
    case (Broken e)
    then have "err = Some (map_exception e)" using s stream_call_broken(2) by blast
    then show ?thesis using 0 m s by simp
  qed
  then have "err = None" using s stream_call_finished(2) by blast
  then have "items = token_items es @ [Usage (p + fst (round_usage es)) (c + snd (round_usage es)) tools]"
    using 0 m s by (simp add: case_prod_unfold)
  then show ?case
    using m s en by (simp add: plain_model_def response_of_def usage_of_def truthy_text_def flip: answer_of_def)
next
  case (Suc k)
  obtain cks en where m: "model True messages = (cks, en)" by fastforce
  obtain es err where s: "stream_call_with_tools (cks, en) = (es, err)" by fastforce
  have en: "en = Finished"
  proof (cases en)
    case (Broken e)
    then have "err = Some (map_exception e)" using s stream_call_broken(1) by blast
    then show ?thesis using Suc.prems m s by simp
  qed
  then have err: "err = None" using s stream_call_finished(1) by blast
  have pm: "plain_model model True messages = Inr (response_of es)"
    using m s en by (simp add: plain_model_def)
  show ?case
  proof (cases "round_calls es [] = []")
    case True
    then have "items = token_items es @ [Usage (p + fst (round_usage es)) (c + snd (round_usage es)) tools]"
      using Suc.prems m s err by (simp add: case_prod_unfold Let_def)
    then show ?thesis
      using True pm by (simp add: response_of_def usage_of_def truthy_text_def case_prod_unfold Let_def
          flip: answer_of_def)
  next
    case False
    then have q: "token_items es = []"
      using assms(1) m s unfolding quiet_tool_rounds_def by metis
    obtain messages' names where x: "execute_tool_round exec messages (round_calls es []) = Inr (messages', names)"
      using Suc.prems m s err False by (auto simp: Let_def split: sum.splits prod.splits)
    let ?p = "p + fst (round_usage es)" and ?c = "c + snd (round_usage es)"
    obtain items' err' where r: "stream_rounds model exec k messages' ?p ?c (tools @ names) = (items', err')"
      by fastforce
    then have i: "items = Usage ?p ?c (tools @ names) # items'" "err' = None"
      using Suc.prems m s err False x q by (auto simp: Let_def case_prod_unfold)
    from Suc.IH [OF r [unfolded i(2)]] obtain its P C T where
      "items' = its @ [Usage P C T]" and ih: "bindR (resolve_tool_rounds (plain_model model) exec k messages' ?p ?c (tools @ names)) (\<lambda>ro.
        case ro_answer ro of
          Some a \<Rightarrow> Inr \<lparr>cr_answer = a, cr_prompt = ro_prompt ro, cr_completion = ro_completion ro,
                        cr_tools = ro_tools ro\<rparr>
        | None \<Rightarrow> bindR (plain_model model False (ro_messages ro)) (\<lambda>r.
            Inr \<lparr>cr_answer = (case rs_choice r of None \<Rightarrow> [] | Some (content, _) \<Rightarrow> truthy_text content),
                 cr_prompt = ro_prompt ro + fst (usage_of r),
                 cr_completion = ro_completion ro + snd (usage_of r), cr_tools = ro_tools ro\<rparr>)) =
        Inr \<lparr>cr_answer = answer_of items', cr_prompt = P, cr_completion = C, cr_tools = T\<rparr>" by blast
    then have it: "items = (Usage ?p ?c (tools @ names) # its) @ [Usage P C T]" using i by simp
    have a: "answer_of items = answer_of items'" using i(1) by simp
    have res: "resolve_tool_rounds (plain_model model) exec (Suc k) messages p c tools =
        resolve_tool_rounds (plain_model model) exec k messages' ?p ?c (tools @ names)"
      using pm False x by (simp add: response_of_def usage_of_def case_prod_unfold Let_def)
    show ?thesis unfolding res a by (intro exI conjI, rule it, rule ih)
  qed
qed

section \<open>Properties\<close>


text \<open>C3 Every call of a stream sends a conversation the provider accepts: after each request for tools
  come the results of exactly those calls, in their order; the behaviour of the model on any other
  conversation does not matter.\<close>

theorem conversation_stays_paired:
  assumes "\<And>b ms. paired [] ms \<Longrightarrow> model b ms = model' b ms"
  shows "stream_with_tools model exec n (build_tools_messages prompt today history msg) =
    stream_with_tools model' exec n (build_tools_messages prompt today history msg)"
  unfolding stream_with_tools_def by (rule stream_rounds_cong [OF assms build_messages_paired])

definition sample_model :: "bool \<Rightarrow> message list \<Rightarrow> chunk list \<times> stream_end" where
  "sample_model b ms =
     (if paired [] ms then ([\<lparr>ck_choice = Some (Some ''hi'', [], Some ''stop''), ck_usage = None\<rparr>,
         \<lparr>ck_choice = None, ck_usage = Some (10, 2)\<rparr>], Finished)
      else ([], Broken BadRequestError))"

definition sample_messages :: "message list" where
  "sample_messages = build_tools_messages ''p'' None [] ''hello''"

lemma sample_messages_paired: "paired [] sample_messages"
  unfolding sample_messages_def by (rule build_messages_paired)

lemma sample_stream:
  "stream_with_tools sample_model exec 1 sample_messages = ([Token ''hi'', Usage 10 2 []], None)"
  using sample_messages_paired
  by (simp add: stream_with_tools_def iteration_cap_def sample_model_def stream_call_with_tools_def
      chunk_step_def truthy_text_def last_usage_def)

lemma conversation_stays_paired_witness:
  "stream_with_tools sample_model (\<lambda>_ _. Inr JNull) 1 (build_tools_messages ''p'' None [] ''hello'') =
    stream_with_tools (\<lambda>b ms. if paired [] ms then sample_model b ms else ([], Finished)) (\<lambda>_ _. Inr JNull) 1
      (build_tools_messages ''p'' None [] ''hello'')"
  by (rule conversation_stays_paired) (simp add: sample_model_def)

text \<open>C5 A stream bills every call it made: unless a tool raised, the sentinels it yields are exactly the
  running totals of the usage of its completed calls, one sentinel for each.\<close>

theorem stream_bills_every_round:
  assumes "stream_with_tools model exec n messages = (items, err)" "\<nexists>e. err = Some (Raised e)"
  shows "usages items = running_totals 0 0 (paid_rounds model exec (iteration_cap n) messages)"
  using assms unfolding stream_with_tools_def by (rule stream_usages)

lemma stream_bills_every_round_witness:
  "usages [Token ''hi'', Usage 10 2 []] = running_totals 0 0 (paid_rounds sample_model (\<lambda>_ _. Inr JNull)
     (iteration_cap 1) sample_messages) \<and> usages [Token ''hi'', Usage 10 2 []] = [(10, 2)]"
  using stream_bills_every_round [OF sample_stream] by simp


lemma quiet_sample: "quiet_tool_rounds sample_model"
proof -
  have "round_calls (fst (stream_call_with_tools (sample_model True ms))) [] = []" for ms
    by (simp add: sample_model_def stream_call_with_tools_def chunk_step_def truthy_text_def)
  then show ?thesis unfolding quiet_tool_rounds_def by (metis fst_conv)
qed


end
