(* ===== verification/Cursors.thy ===== *)
theory Cursors
  imports PyJson PyDate "HOL-Library.List_Lexorder" "HOL-Library.Char_ord" "HOL-Library.Multiset"
begin

text \<open>Pagination cursors: app/application/common/cursor.py (URL-safe base64 of a JSON object) and the
  parts of \<open>isoformat\<close>, \<open>fromisoformat\<close> and \<open>UUID\<close> its users read and write, then the contract
  \<open>keyset_listing\<close> every paginated use case meets and what a client that follows the cursors gets.\<close>

section \<open>ISO dates\<close>

fun zfill :: "nat \<Rightarrow> nat \<Rightarrow> string" where
  "zfill 0 n = []"
| "zfill (Suc k) n = zfill k (n div 10) @ [digit_char (n mod 10)]"

definition date_iso :: "date \<Rightarrow> string" where
  "date_iso d = zfill 4 (nat (date_year d)) @ ''-'' @ zfill 2 (nat (date_month d)) @ ''-'' @
     zfill 2 (nat (date_day d))"

text \<open>The time of day in microseconds; the offset of an aware UTC time is printed as \<open>+00:00\<close>.\<close>

definition time_iso :: "nat \<Rightarrow> string" where
  "time_iso us = (let s = us div 1000000 in
     zfill 2 (s div 3600) @ '':'' @ zfill 2 (s div 60 mod 60) @ '':'' @ zfill 2 (s mod 60) @
     (if us mod 1000000 = 0 then [] else ''.'' @ zfill 6 (us mod 1000000)) @ ''+00:00'')"

definition datetime_iso :: "datetime \<Rightarrow> string" where
  "datetime_iso t = date_iso (fst t) @ ''T'' @ time_iso (nat (snd t))"

text \<open>Reading: \<open>field k s\<close> takes \<open>k\<close> digits, \<open>expect\<close> one character.  \<open>fromisoformat\<close> reads further
  notations (basic format, weeks, other offsets), which no cursor the code writes has; they are refused
  here.\<close>

definition field :: "nat \<Rightarrow> string \<Rightarrow> (nat \<times> string) option" where
  "field k s = (if k \<le> length s \<and> list_all is_digit (take k s)
     then Some (digits_val (take k s), drop k s) else None)"

definition expect :: "char \<Rightarrow> string \<Rightarrow> string option" where
  "expect c s = (case s of [] \<Rightarrow> None | d # r \<Rightarrow> if d = c then Some r else None)"

definition read_date :: "string \<Rightarrow> (date \<times> string) option" where
  "read_date s0 =
     Option.bind (field 4 s0) (\<lambda>(y, s1).
     Option.bind (expect CHR ''-'' s1) (\<lambda>s2.
     Option.bind (field 2 s2) (\<lambda>(m, s3).
     Option.bind (expect CHR ''-'' s3) (\<lambda>s4.
     Option.bind (field 2 s4) (\<lambda>(d, s5).
       if valid_date (Date (int y) (int m) (int d)) then Some (Date (int y) (int m) (int d), s5)
       else None)))))"

definition read_micros :: "string \<Rightarrow> nat \<times> string" where
  "read_micros s = (case s of
     [] \<Rightarrow> (0, s)
   | c # r \<Rightarrow> (if c \<noteq> CHR ''.'' then (0, s)
              else case field 6 r of None \<Rightarrow> (0, s) | Some (u, r') \<Rightarrow> (u, r')))"

definition read_time :: "string \<Rightarrow> nat option" where
  "read_time s0 =
     Option.bind (field 2 s0) (\<lambda>(h, s1).
     Option.bind (expect CHR '':'' s1) (\<lambda>s2.
     Option.bind (field 2 s2) (\<lambda>(mi, s3).
     Option.bind (expect CHR '':'' s3) (\<lambda>s4.
     Option.bind (field 2 s4) (\<lambda>(se, s5).
       case read_micros s5 of (us, s6) \<Rightarrow>
         if h < 24 \<and> mi < 60 \<and> se < 60 \<and> (s6 = ''+00:00'' \<or> s6 = ''Z'')
         then Some ((h * 3600 + mi * 60 + se) * 1000000 + us) else None)))))"

definition date_of_iso :: "string \<Rightarrow> exn + date" where
  "date_of_iso s = (case read_date s of Some (d, []) \<Rightarrow> Inr d | _ \<Rightarrow> Inl ValueError)"

definition datetime_of_iso :: "string \<Rightarrow> exn + datetime" where
  "datetime_of_iso s = (case read_date s of
     Some (d, c # r) \<Rightarrow> (case read_time r of Some us \<Rightarrow> Inr (d, int us) | None \<Rightarrow> Inl ValueError)
   | _ \<Rightarrow> Inl ValueError)"

definition uuid_of :: "string \<Rightarrow> exn + uuid" where
  "uuid_of s = (case parse_uuid s of None \<Rightarrow> Inl ValueError | Some u \<Rightarrow> Inr u)"

definition valid_datetime :: "datetime \<Rightarrow> bool" where
  "valid_datetime t \<longleftrightarrow> valid_date (fst t) \<and> 0 \<le> snd t \<and> snd t < 86400000000"

lemma length_zfill [simp]: "length (zfill k n) = k"
  by (induction k arbitrary: n) auto

lemma digits_zfill: "list_all is_digit (zfill k n)"
  by (induction k arbitrary: n) auto

lemma digits_val_zfill: "digits_val (zfill k n) = n mod 10 ^ k"
proof (induction k arbitrary: n)
  case 0
  show ?case by (simp add: digits_val_def)
next
  case (Suc k)
  have "n mod 10 ^ Suc k = n div 10 mod 10 ^ k * 10 + n mod 10"
    by (simp add: mod_mult2_eq [of n 10 "10 ^ k"])
  then show ?case using Suc [of "n div 10"] by (simp add: digits_val_append)
qed

lemma field_zfill: "n < 10 ^ k \<Longrightarrow> field k (zfill k n @ r) = Some (n, r)"
  by (simp add: field_def digits_zfill digits_val_zfill)

lemma read_date_iso:
  assumes "valid_date d"
  shows "read_date (date_iso d @ r) = Some (d, r)"
proof -
  obtain y m k where d: "d = Date y m k" by (cases d)
  then have b: "1 \<le> y" "y \<le> 9999" "1 \<le> m" "m \<le> 12" "1 \<le> k" "k \<le> days_in_month y m"
    using assms by auto
  have "k \<le> 31" using b(6) days_in_month_bounds(2) [of y m] by linarith
  then have "nat y < 10 ^ 4" "nat m < 10 ^ 2" "nat k < 10 ^ 2" using b by auto
  then show ?thesis
    using b by (simp add: read_date_def date_iso_def d field_zfill expect_def del: zfill.simps) linarith
qed

lemma read_micros_iso:
  assumes "n < 1000000"
  shows "read_micros ((if n = 0 then [] else ''.'' @ zfill 6 n) @ ''+00:00'') = (n, ''+00:00'')"
proof -
  have "n < 10 ^ 6" using assms by simp
  then have "field 6 (zfill 6 n @ ''+00:00'') = Some (n, ''+00:00'')" by (rule field_zfill)
  then show ?thesis by (simp add: read_micros_def del: zfill.simps)
qed

lemma read_time_iso:
  assumes "us < 86400000000"
  shows "read_time (time_iso us) = Some us"
proof -
  define s where "s = us div 1000000"
  have s: "s < 86400" using assms by (simp add: s_def)
  define h where "h = s div 3600"
  define m where "m = s div 60 mod 60"
  have "h < 24" using s by (simp add: h_def)
  moreover have "m < 60" "s mod 60 < 60" by (simp_all add: m_def)
  moreover have "h * 3600 + m * 60 + s mod 60 = s"
  proof -
    have "h = s div 60 div 60" by (simp add: h_def flip: div_mult2_eq)
    then have "h * 60 + m = s div 60" by (simp add: m_def)
    moreover have "s div 60 * 60 + s mod 60 = s" by simp
    ultimately show ?thesis by linarith
  qed
  moreover have "s * 1000000 + us mod 1000000 = us" by (simp add: s_def)
  moreover have "time_iso us = zfill 2 h @ '':'' @ zfill 2 m @ '':'' @ zfill 2 (s mod 60) @
      (if us mod 1000000 = 0 then [] else ''.'' @ zfill 6 (us mod 1000000)) @ ''+00:00''"
    by (simp add: time_iso_def Let_def s_def h_def m_def)
  ultimately show ?thesis
    using read_micros_iso [of "us mod 1000000"]
    by (simp add: read_time_def field_zfill expect_def del: zfill.simps)
qed

lemma date_iso_roundtrip: "valid_date d \<Longrightarrow> date_of_iso (date_iso d) = Inr d"
  using read_date_iso [of d "[]"] by (simp add: date_of_iso_def)

lemma datetime_iso_roundtrip:
  assumes "valid_datetime t"
  shows "datetime_of_iso (datetime_iso t) = Inr t"
proof -
  obtain d us where t: "t = (d, us)" by fastforce
  then have "nat us < 86400000000" "0 \<le> us" "valid_date d" using assms by (auto simp: valid_datetime_def)
  then show ?thesis
    using read_date_iso read_time_iso by (simp add: datetime_of_iso_def datetime_iso_def t)
qed

section \<open>The text of identifiers orders like the identifiers\<close>

lemma append_less_same:
  fixes xs ys us vs :: string
  shows "length xs = length ys \<Longrightarrow> xs @ us < ys @ vs \<longleftrightarrow> xs < ys \<or> xs = ys \<and> us < vs"
  by (induction xs ys rule: list_induct2) auto

lemma of_char_less: "c < d \<longleftrightarrow> (of_char c :: nat) < of_char d" for c d :: char
  by (simp add: less_char_def)

lemma hex_char_less:
  assumes "a < 16" "b < 16"
  shows "hex_char a < hex_char b \<longleftrightarrow> a < b"
proof -
  have "(of_char (hex_char n) :: nat) = (if n < 10 then 48 + n else 87 + n)" if "n < 16" for n
    using that by (simp add: hex_char_def digit_char_def)
  then show ?thesis using assms by (auto simp: of_char_less)
qed

lemma hex_fixed_less: "a < 16 ^ k \<Longrightarrow> b < 16 ^ k \<Longrightarrow> hex_fixed k a < hex_fixed k b \<longleftrightarrow> a < b"
proof (induction k arbitrary: a b)
  case (Suc k)
  have ab: "a div 16 < 16 ^ k" "b div 16 < 16 ^ k"
    using Suc.prems by (simp_all add: less_mult_imp_div_less mult.commute)
  have inj: "hex_fixed k (a div 16) = hex_fixed k (b div 16) \<longleftrightarrow> a div 16 = b div 16"
    using Suc.IH [OF ab] Suc.IH [OF ab(2,1)] by (metis less_irrefl nat_neq_iff)
  have "[hex_char (a mod 16)] < [hex_char (b mod 16)] \<longleftrightarrow> a mod 16 < b mod 16"
    by (simp add: hex_char_less)
  then have "hex_fixed (Suc k) a < hex_fixed (Suc k) b \<longleftrightarrow>
      a div 16 < b div 16 \<or> a div 16 = b div 16 \<and> a mod 16 < b mod 16"
    by (simp add: append_less_same Suc.IH [OF ab] inj)
  also have "\<dots> \<longleftrightarrow> a < b"
    using div_mult_mod_eq [of a 16] div_mult_mod_eq [of b 16] by linarith
  finally show ?case .
qed simp

lemma uuid_str_less:
  assumes "a < 2 ^ 128" "b < 2 ^ 128"
  shows "uuid_str a < uuid_str b \<longleftrightarrow> a < b"
proof -
  define g h where "g = hex_fixed 32 a" and "h = hex_fixed 32 b"
  have parts: "x = take 8 x @ take 4 (drop 8 x) @ take 4 (drop 12 x) @ take 4 (drop 16 x) @ drop 20 x"
    for x :: string
    using append_take_drop_id [of 8 x] append_take_drop_id [of 4 "drop 8 x"]
      append_take_drop_id [of 4 "drop 12 x"] append_take_drop_id [of 4 "drop 16 x"] by simp
  have len: "length g = length h" by (simp add: g_def h_def)
  have "g < h \<longleftrightarrow> uuid_str a < uuid_str b"
    unfolding uuid_str_def Let_def g_def [symmetric] h_def [symmetric]
    by (subst parts [of g], subst parts [of h]) (simp add: append_less_same len)
  moreover have "(16::nat) ^ 32 = 2 ^ 128" by simp
  ultimately show ?thesis using hex_fixed_less [of a 32 b] assms by (simp add: g_def h_def)
qed

section \<open>Cursors\<close>

text \<open>The text in a cursor is ASCII when the code wrote it; what a client sends is decoded as UTF-8, of
  which the code points of 8-bit characters are read here.\<close>

fun utf8_decode :: "string \<Rightarrow> string option" where
  "utf8_decode [] = Some []"
| "utf8_decode (c # s) = (let n = (of_char c :: nat) in
     if n < 128 then map_option ((#) c) (utf8_decode s)
     else case s of
       [] \<Rightarrow> None
     | d # s' \<Rightarrow> (let k = (of_char d :: nat) in
         if (n = 194 \<or> n = 195) \<and> 128 \<le> k \<and> k < 192
         then map_option ((#) (char_of ((n - 192) * 64 + (k - 128)))) (utf8_decode s') else None))"

definition encode_cursor :: "(string \<times> string) list \<Rightarrow> string" where
  "encode_cursor payload = b64_encode (json_dumps (JObj (map (\<lambda>(k, v). (k, JStr v)) payload)))"

definition decode_cursor :: "string \<Rightarrow> exn + json" where
  "decode_cursor raw = (case Option.bind (Option.bind (b64_decode raw) utf8_decode) json_loads of
     None \<Rightarrow> Inl InvalidCursorError | Some v \<Rightarrow> Inr v)"

text \<open>\<open>raw[k]\<close>, and a function that takes a string (the \<open>AttributeError\<close> that \<open>UUID\<close> raises for a
  value that is not a string is a \<open>TypeError\<close> here).\<close>

definition subscript :: "json \<Rightarrow> string \<Rightarrow> exn + json" where
  "subscript v k = (case v of JObj kvs \<Rightarrow> (case map_of kvs k of None \<Rightarrow> Inl KeyError | Some x \<Rightarrow> Inr x)
     | _ \<Rightarrow> Inl TypeError)"

definition of_text :: "(string \<Rightarrow> exn + 'a) \<Rightarrow> json \<Rightarrow> exn + 'a" where
  "of_text f v = (case v of JStr s \<Rightarrow> f s | _ \<Rightarrow> Inl TypeError)"

definition text_at :: "(string \<Rightarrow> exn + 'a) \<Rightarrow> json \<Rightarrow> string \<Rightarrow> exn + 'a" where
  "text_at f v k = bindR (subscript v k) (of_text f)"

definition ascii :: "string \<Rightarrow> bool" where
  "ascii s \<longleftrightarrow> list_all (\<lambda>c. (of_char c :: nat) < 128) s"

lemma ascii_simps [simp]:
  "ascii []" "ascii (c # s) \<longleftrightarrow> (of_char c :: nat) < 128 \<and> ascii s" "ascii (s @ t) \<longleftrightarrow> ascii s \<and> ascii t"
  "ascii (concat ss) \<longleftrightarrow> list_all ascii ss"
  by (auto simp: ascii_def list_all_iff)

lemma utf8_ascii: "ascii s \<Longrightarrow> utf8_decode s = Some s"
  by (induction s) auto

lemma ascii_hex: "ascii (hex_fixed k n)"
proof (induction k arbitrary: n)
  case (Suc k)
  have "(of_char (hex_char m) :: nat) < 128" if "m < 16" for m
    using that by (simp add: hex_char_def digit_char_def)
  then show ?case using Suc by simp
qed simp

lemma ascii_json_str: "ascii (json_str s)"
proof -
  have "ascii (json_char c)" for c using ascii_hex [of 4] by (auto simp: json_char_def Let_def)
  then show ?thesis by (simp add: json_str_def list_all_iff)
qed

lemma ascii_comma_sep: "list_all ascii xs \<Longrightarrow> ascii (comma_sep xs)"
  by (induction xs rule: comma_sep.induct) auto

lemma decode_encode_cursor:
  assumes "distinct (map fst payload)"
  shows "decode_cursor (encode_cursor payload) = Inr (JObj (map (\<lambda>(k, v). (k, JStr v)) payload))"
proof -
  let ?v = "JObj (map (\<lambda>(k, v). (k, JStr v)) payload)"
  have "ascii (json_dumps ?v)"
    by (auto intro!: ascii_comma_sep simp: list_all_iff ascii_json_str)
  moreover have "fst \<circ> (\<lambda>(k, v). (k, JStr v)) = (fst :: string \<times> string \<Rightarrow> string)" by auto
  then have "json_wf ?v" using assms by (auto simp: list_all_iff)
  ultimately show ?thesis
    by (simp add: decode_cursor_def encode_cursor_def b64_roundtrip utf8_ascii json_roundtrip
        del: json_dumps.simps)
qed

section \<open>Walking the pages\<close>

text \<open>A client that asks for the first page and then for the page after each cursor it is given, until
  there is none; \<open>None\<close> is running out of fuel.\<close>

fun walk_pages :: "(string option \<Rightarrow> exn + 'r list \<times> string option) \<Rightarrow> nat \<Rightarrow> string option \<Rightarrow>
    (exn + 'r list) option" where
  "walk_pages page 0 c = None"
| "walk_pages page (Suc k) c = (case page c of
     Inl e \<Rightarrow> Some (Inl e)
   | Inr (rs, None) \<Rightarrow> Some (Inr rs)
   | Inr (rs, Some c') \<Rightarrow> map_option (map_sum id ((@) rs)) (walk_pages page k (Some c')))"

text \<open>The contract of a listing: the matching rows in strictly descending order of a key, a first page, a
  page that resumes after the row a cursor was made of, and a next cursor whenever rows are left.\<close>

locale keyset_listing =
  fixes page :: "'db \<Rightarrow> nat \<Rightarrow> string option \<Rightarrow> exn + 'r list \<times> string option"
    and valid :: "'db \<Rightarrow> bool"
    and rows :: "'db \<Rightarrow> 'r list"
    and key :: "'r \<Rightarrow> 'k::linorder"
    and enc :: "'r \<Rightarrow> string"
    and more :: "nat \<Rightarrow> 'r list \<Rightarrow> bool"
  assumes descending: "valid db \<Longrightarrow> sorted_wrt (\<lambda>a b. key b < key a) (rows db)"
    and first: "valid db \<Longrightarrow> 0 < n \<Longrightarrow> page db n None =
      Inr (take n (rows db), if more n (rows db) then Some (enc (last (take n (rows db)))) else None)"
    and resume: "valid db \<Longrightarrow> 0 < n \<Longrightarrow> r \<in> set (rows db) \<Longrightarrow>
      rest = filter (\<lambda>x. key x < key r) (rows db) \<Longrightarrow>
      page db n (Some (enc r)) = Inr (take n rest, if more n rest then Some (enc (last (take n rest))) else None)"
    and more_left: "n < length xs \<Longrightarrow> more n xs"
    and more_some: "0 < n \<Longrightarrow> more n xs \<Longrightarrow> xs \<noteq> []"
begin

lemma rows_after:
  assumes "valid db" "rows db = xs @ r # ys"
  shows "filter (\<lambda>x. key x < key r) (rows db) = ys"
  using descending [OF assms(1)] unfolding assms(2)
  by (auto simp: sorted_wrt_append filter_empty_conv filter_id_conv)

lemma page_split:
  assumes "0 < n" "rest \<noteq> []"
  shows "\<exists>ys. take n rest = ys @ [last (take n rest)] \<and> rest = ys @ last (take n rest) # drop n rest"
proof -
  have "take n rest \<noteq> []" using assms by simp
  then have "take n rest = butlast (take n rest) @ [last (take n rest)]" by simp
  then show ?thesis by (metis append.assoc append_Cons append_Nil append_take_drop_id)
qed

lemma walk_after:
  assumes "valid db" "0 < n"
  shows "rows db = xs @ r # rest \<Longrightarrow> length rest < k \<Longrightarrow>
    walk_pages (page db n) k (Some (enc r)) = Some (Inr rest)"
proof (induction k arbitrary: xs r rest)
  case (Suc k)
  have p: "page db n (Some (enc r)) =
      Inr (take n rest, if more n rest then Some (enc (last (take n rest))) else None)"
    using Suc.prems(1) by (intro resume [OF assms] rows_after [OF assms(1), symmetric]) simp_all
  show ?case
  proof (cases "more n rest")
    case False
    then have "length rest \<le> n" using more_left by (metis not_less)
    then show ?thesis using False by (simp add: p)
  next
    case True
    then have "rest \<noteq> []" using more_some assms by blast
    then obtain ys where ys: "take n rest = ys @ [last (take n rest)]"
      "rest = ys @ last (take n rest) # drop n rest" using page_split assms by blast
    have "rows db = (xs @ r # ys) @ last (take n rest) # drop n rest" using Suc.prems(1) ys(2) by simp
    moreover have "length (drop n rest) < k"
      using Suc.prems(2) assms \<open>rest \<noteq> []\<close> by (cases rest) auto
    ultimately have "walk_pages (page db n) k (Some (enc (last (take n rest)))) = Some (Inr (drop n rest))"
      by (rule Suc.IH)
    then show ?thesis using True by (simp add: p)
  qed
qed simp

lemma walk_all:
  assumes "valid db" "0 < n" "length (rows db) < k"
  shows "walk_pages (page db n) k None = Some (Inr (rows db))"
proof -
  obtain j where k: "k = Suc j" using assms(3) by (cases k) auto
  show ?thesis
  proof (cases "more n (rows db)")
    case False
    then have "length (rows db) \<le> n" using more_left by (metis not_less)
    then show ?thesis using False assms by (simp add: k first)
  next
    case True
    then have ne: "rows db \<noteq> []" using more_some assms by blast
    then obtain ys where ys: "rows db = ys @ last (take n (rows db)) # drop n (rows db)"
      using page_split assms(2) by blast
    moreover have "length (drop n (rows db)) < j" using assms ne k by (cases "rows db") auto
    ultimately have "walk_pages (page db n) j (Some (enc (last (take n (rows db))))) =
        Some (Inr (drop n (rows db)))"
      by (rule walk_after [OF assms(1,2)])
    then show ?thesis using True assms by (simp add: k first)
  qed
qed

end

section \<open>Descending order\<close>

text \<open>\<open>ORDER BY key DESC\<close>.\<close>

definition descending_by :: "('a \<Rightarrow> 'k::linorder) \<Rightarrow> 'a list \<Rightarrow> 'a list" where
  "descending_by key xs = rev (sort_key key xs)"

lemma set_descending [simp]: "set (descending_by key xs) = set xs"
  by (simp add: descending_by_def)

lemma length_descending: "length (descending_by key xs) = length xs"
  by (simp add: descending_by_def)

lemma mset_descending [simp]: "mset (descending_by key xs) = mset xs"
  by (simp add: descending_by_def)

lemma descending_filter: "descending_by key (filter P xs) = filter P (descending_by key xs)"
  by (simp add: descending_by_def filter_sort flip: rev_filter)

lemma descending_strict:
  assumes "distinct (map key xs)"
  shows "sorted_wrt (\<lambda>a b. key b < key a) (descending_by key xs)"
proof -
  have "mset (map key (sort_key key xs)) = mset (map key xs)" by (simp only: mset_map mset_sort)
  then have "distinct (map key (sort_key key xs))" using assms by (metis mset_eq_imp_distinct_iff)
  then have "sorted_wrt (<) (map key (sort_key key xs))"
    by (simp add: strict_sorted_iff)
  then show ?thesis by (simp add: descending_by_def sorted_wrt_rev sorted_wrt_map)
qed

lemma distinct_map_filter_key: "distinct (map key xs) \<Longrightarrow> distinct (map key (filter P xs))"
  by (induction xs) auto

text \<open>Rows sorted by a finer key are strictly sorted by a coarser one that still tells them apart.\<close>

lemma descending_coarse:
  assumes "sorted_wrt (\<lambda>a b. key b < key a) xs" "distinct (map key' xs)"
    and "\<And>a b. key b < key a \<Longrightarrow> key' b \<le> (key' a :: 'k::linorder)"
  shows "sorted_wrt (\<lambda>a b. key' b < key' a) xs"
  using assms(1,2)
proof (induction xs)
  case (Cons x xs)
  then show ?case using assms(3) by (auto simp: image_iff less_le)
qed simp

lemma b64_encode_Nil [simp]: "b64_encode s = [] \<longleftrightarrow> s = []"
  by (cases s rule: b64_encode.cases) (simp_all add: Let_def)

lemma encode_cursor_nonempty [simp]: "encode_cursor p \<noteq> []"
  by (simp add: encode_cursor_def)

lemma text_at_JStr: "map_of kvs k = Some (JStr s) \<Longrightarrow> text_at f (JObj kvs) k = f s"
  by (simp add: text_at_def subscript_def of_text_def)

lemma uuid_of_str: "u < 2 ^ 128 \<Longrightarrow> uuid_of (uuid_str u) = Inr u"
  by (simp add: uuid_of_def parse_uuid_str)

end
