(* ===== verification/SqlTypes.thy ===== *)
theory SqlTypes
  imports Aggregation
begin

text \<open>The column types of app/outbound/persistence_sqla/mappings/_types.py: how a domain value is
  bound to a statement, and how a column's value becomes a domain value again.  SQLAlchemy applies
  a column's \<open>process_bind_param\<close> to every value that is stored in the column or compared with it,
  so what it does with a value of the wrong class decides what a query matches.\<close>

text \<open>The Python values the repositories pass, and the values the driver exchanges.\<close>

datatype py_value =
    P_None
  | P_Str string
  | P_Uuid uuid
  | P_UserId user_id
  | P_Email email
  | P_Hash string
  | P_Plan plan
  | P_TransactionId transaction_id
  | P_CategoryId category_id
  | P_TransactionType transaction_type
  | P_CategoryType category_type
  | P_InsightId insight_id
  | P_InsightStatus insight_status
  | P_ContextQuality context_quality
  | P_Period period
  | P_RecurringRuleId recurring_rule_id
  | P_RuleStatus rule_status
  | P_Recurrence recurrence
  | P_Snapshot budget_snapshot

datatype sql_value = SQL_NULL | SQL_Str string | SQL_Uuid uuid | SQL_Json "totals_json list"

datatype column_type =
    UserIdType | EmailType | UserPasswordHashType | PlanType | TransactionIdType | CategoryIdType
  | TransactionTypeType | CategoryTypeType | InsightIdType | InsightStatusType | ContextQualityType
  | PeriodType | RecurringRuleIdType | RecurringRuleStatusType | RecurrenceType
  | BudgetSummarySnapshotType

fun bind_param :: "column_type \<Rightarrow> py_value \<Rightarrow> sql_value" where
  "bind_param UserIdType v = (case v of P_UserId (UserId u) \<Rightarrow> SQL_Uuid u | _ \<Rightarrow> SQL_NULL)"
| "bind_param EmailType v = (case v of P_Email e \<Rightarrow> SQL_Str (email_value e) | _ \<Rightarrow> SQL_NULL)"
| "bind_param UserPasswordHashType v = (case v of P_Hash h \<Rightarrow> SQL_Str h | _ \<Rightarrow> SQL_NULL)"
| "bind_param PlanType v = (case v of P_Plan p \<Rightarrow> SQL_Str (plan_value p) | _ \<Rightarrow> SQL_NULL)"
| "bind_param TransactionIdType v = (case v of P_TransactionId (TransactionId u) \<Rightarrow> SQL_Uuid u | _ \<Rightarrow> SQL_NULL)"
| "bind_param CategoryIdType v = (case v of P_CategoryId (CategoryId u) \<Rightarrow> SQL_Uuid u | _ \<Rightarrow> SQL_NULL)"
| "bind_param TransactionTypeType v = (case v of P_TransactionType t \<Rightarrow> SQL_Str (transaction_type_value t) | _ \<Rightarrow> SQL_NULL)"
| "bind_param CategoryTypeType v = (case v of P_CategoryType t \<Rightarrow> SQL_Str (category_type_value t) | _ \<Rightarrow> SQL_NULL)"
| "bind_param InsightIdType v = (case v of P_InsightId (InsightId u) \<Rightarrow> SQL_Uuid u | _ \<Rightarrow> SQL_NULL)"
| "bind_param InsightStatusType v = (case v of P_InsightStatus t \<Rightarrow> SQL_Str (insight_status_value t) | _ \<Rightarrow> SQL_NULL)"
| "bind_param ContextQualityType v = (case v of P_ContextQuality q \<Rightarrow> SQL_Str (context_quality_value q) | _ \<Rightarrow> SQL_NULL)"
| "bind_param PeriodType v = (case v of P_Period p \<Rightarrow> SQL_Str (period_value p) | _ \<Rightarrow> SQL_NULL)"
| "bind_param RecurringRuleIdType v = (case v of P_RecurringRuleId (RecurringRuleId u) \<Rightarrow> SQL_Uuid u | _ \<Rightarrow> SQL_NULL)"
| "bind_param RecurringRuleStatusType v = (case v of P_RuleStatus s \<Rightarrow> SQL_Str (rule_status_value s) | _ \<Rightarrow> SQL_NULL)"
| "bind_param RecurrenceType v = (case v of P_Recurrence r \<Rightarrow> SQL_Str (recurrence_value r) | _ \<Rightarrow> SQL_NULL)"
| "bind_param BudgetSummarySnapshotType v = (case v of P_Snapshot s \<Rightarrow> SQL_Json (snapshot_to_json s) | _ \<Rightarrow> SQL_NULL)"

text \<open>\<open>UUID(str(value))\<close> of a value that is not a UUID, and \<open>Enum(value)\<close>; the JSON column's
  \<open>decimal.InvalidOperation\<close> is a \<open>ValueError\<close> here, as is a value of a kind the column cannot
  hold.\<close>

fun uuid_result :: "sql_value \<Rightarrow> exn + uuid" where
  "uuid_result (SQL_Uuid u) = Inr u"
| "uuid_result (SQL_Str s) = (case parse_uuid s of None \<Rightarrow> Inl ValueError | Some u \<Rightarrow> Inr u)"
| "uuid_result _ = Inl ValueError"

fun str_result :: "sql_value \<Rightarrow> exn + string" where
  "str_result (SQL_Str s) = Inr s"
| "str_result _ = Inl ValueError"

fun snapshot_result :: "sql_value \<Rightarrow> exn + py_value" where
  "snapshot_result (SQL_Json j) = (case snapshot_from_json (Some j) of None \<Rightarrow> Inl ValueError
     | Some None \<Rightarrow> Inr P_None | Some (Some s) \<Rightarrow> Inr (P_Snapshot s))"
| "snapshot_result _ = Inl ValueError"

definition mapR :: "('a \<Rightarrow> 'b) \<Rightarrow> exn + 'a \<Rightarrow> exn + 'b" where
  "mapR f m = bindR m (\<lambda>x. Inr (f x))"

fun typed_result :: "column_type \<Rightarrow> sql_value \<Rightarrow> exn + py_value" where
  "typed_result UserIdType v = mapR (P_UserId \<circ> UserId) (uuid_result v)"
| "typed_result EmailType v = mapR P_Email (bindR (str_result v) mk_email)"
| "typed_result UserPasswordHashType v = mapR P_Hash (str_result v)"
| "typed_result PlanType v = mapR P_Plan (bindR (str_result v) plan_of_value)"
| "typed_result TransactionIdType v = mapR (P_TransactionId \<circ> TransactionId) (uuid_result v)"
| "typed_result CategoryIdType v = mapR (P_CategoryId \<circ> CategoryId) (uuid_result v)"
| "typed_result TransactionTypeType v = mapR P_TransactionType (bindR (str_result v) transaction_type_of)"
| "typed_result CategoryTypeType v = mapR P_CategoryType (bindR (str_result v) category_type_of)"
| "typed_result InsightIdType v = mapR (P_InsightId \<circ> InsightId) (uuid_result v)"
| "typed_result InsightStatusType v = mapR P_InsightStatus (bindR (str_result v) insight_status_of)"
| "typed_result ContextQualityType v = mapR P_ContextQuality (bindR (str_result v) context_quality_of)"
| "typed_result PeriodType v = mapR P_Period (bindR (str_result v) period_of)"
| "typed_result RecurringRuleIdType v = mapR (P_RecurringRuleId \<circ> RecurringRuleId) (uuid_result v)"
| "typed_result RecurringRuleStatusType v = mapR P_RuleStatus (bindR (str_result v) rule_status_of)"
| "typed_result RecurrenceType v = mapR P_Recurrence (bindR (str_result v) recurrence_of)"
| "typed_result BudgetSummarySnapshotType v = snapshot_result v"

definition result_value :: "column_type \<Rightarrow> sql_value \<Rightarrow> exn + py_value" where
  "result_value t v = (if v = SQL_NULL then Inr P_None else typed_result t v)"

text \<open>SQL equality is not true of a NULL operand.\<close>

definition sql_eq :: "sql_value \<Rightarrow> sql_value \<Rightarrow> bool" where
  "sql_eq a b \<longleftrightarrow> a \<noteq> SQL_NULL \<and> b \<noteq> SQL_NULL \<and> a = b"

definition sql_in :: "sql_value \<Rightarrow> sql_value list \<Rightarrow> bool" where
  "sql_in a bs \<longleftrightarrow> list_ex (sql_eq a) bs"

text \<open>The class of values a column type is for.\<close>

fun belongs :: "py_value \<Rightarrow> column_type \<Rightarrow> bool" where
  "belongs (P_UserId _) t = (t = UserIdType)"
| "belongs (P_Email _) t = (t = EmailType)"
| "belongs (P_Hash _) t = (t = UserPasswordHashType)"
| "belongs (P_Plan _) t = (t = PlanType)"
| "belongs (P_TransactionId _) t = (t = TransactionIdType)"
| "belongs (P_CategoryId _) t = (t = CategoryIdType)"
| "belongs (P_TransactionType _) t = (t = TransactionTypeType)"
| "belongs (P_CategoryType _) t = (t = CategoryTypeType)"
| "belongs (P_InsightId _) t = (t = InsightIdType)"
| "belongs (P_InsightStatus _) t = (t = InsightStatusType)"
| "belongs (P_ContextQuality _) t = (t = ContextQualityType)"
| "belongs (P_Period _) t = (t = PeriodType)"
| "belongs (P_RecurringRuleId _) t = (t = RecurringRuleIdType)"
| "belongs (P_RuleStatus _) t = (t = RecurringRuleStatusType)"
| "belongs (P_Recurrence _) t = (t = RecurrenceType)"
| "belongs (P_Snapshot _) t = (t = BudgetSummarySnapshotType)"
| "belongs P_None t = False"
| "belongs (P_Str _) t = False"
| "belongs (P_Uuid _) t = False"

text \<open>Values that the application can construct: an email that its constructor accepted and a
  snapshot with finite totals.\<close>

fun constructed :: "py_value \<Rightarrow> bool" where
  "constructed (P_Email e) = (\<exists>raw. mk_email raw = Inr e)"
| "constructed (P_Snapshot s) = (s \<noteq> [] \<and> finite_snapshot s)"
| "constructed _ = True"

lemma mapR_Inr [simp]: "mapR f (Inr x) = Inr (f x)"
  by (simp add: mapR_def)

lemma mapR_Inr_iff: "mapR f m = Inr y \<longleftrightarrow> (\<exists>x. m = Inr x \<and> y = f x)"
  by (cases m) (auto simp: mapR_def)

lemma sql_eq_NULL [simp]: "\<not> sql_eq a SQL_NULL" "\<not> sql_eq SQL_NULL a"
  by (simp_all add: sql_eq_def)

lemma bind_null: "\<not> belongs v t \<Longrightarrow> bind_param t v = SQL_NULL"
  by (cases t) (auto split: py_value.split)

lemma bind_not_null: "belongs v t \<Longrightarrow> bind_param t v \<noteq> SQL_NULL"
  by (cases v) (auto split: user_id.split transaction_id.split category_id.split insight_id.split
      recurring_rule_id.split)

lemma result_bind:
  assumes "belongs v t" "constructed v"
  shows "result_value t (bind_param t v) = Inr v"
proof (cases v)
  case (P_Email e)
  then have t: "t = EmailType" using assms(1) by simp
  obtain raw where "mk_email raw = Inr e" using assms(2) P_Email by auto
  then show ?thesis by (simp add: t P_Email result_value_def mk_email_idem)
next
  case (P_Snapshot s)
  then have t: "t = BudgetSummarySnapshotType" using assms(1) by simp
  obtain c cs where s: "s = c # cs" using assms(2) P_Snapshot by (cases s) auto
  have "totals_of_json (snapshot_to_json s) = Some s"
    using assms(2) P_Snapshot by (simp add: totals_json_roundtrip)
  then have "snapshot_from_json (Some (snapshot_to_json s)) = Some (Some s)"
    by (simp add: s snapshot_from_json_def snapshot_to_json_def del: totals_of_json.simps)
  then show ?thesis by (simp add: t P_Snapshot result_value_def)
next
  case (P_UserId i)
  then show ?thesis using assms(1) by (cases i) (simp add: result_value_def)
next
  case (P_TransactionId i)
  then show ?thesis using assms(1) by (cases i) (simp add: result_value_def)
next
  case (P_CategoryId i)
  then show ?thesis using assms(1) by (cases i) (simp add: result_value_def)
next
  case (P_InsightId i)
  then show ?thesis using assms(1) by (cases i) (simp add: result_value_def)
next
  case (P_RecurringRuleId i)
  then show ?thesis using assms(1) by (cases i) (simp add: result_value_def)
qed (use assms(1) in \<open>simp_all add: result_value_def\<close>)


lemma typed_result_belongs:
  "typed_result t v = Inr x \<Longrightarrow> x = P_None \<or> belongs x t"
  by (cases t; cases v)
    (auto simp: mapR_Inr_iff split: option.splits)

section \<open>Properties\<close>



text \<open>A comparison in a query holds of a row exactly when the value compared with is the row's domain
  value: a raw string or UUID is bound as NULL, so it matches no row, whatever the column holds.\<close>

theorem comparison_is_equality:
  assumes "belongs stored t" "constructed stored" "constructed v"
  shows "sql_eq (bind_param t stored) (bind_param t v) \<longleftrightarrow> v = stored"
proof
  assume eq: "sql_eq (bind_param t stored) (bind_param t v)"
  then have "belongs v t" using bind_null by (metis sql_eq_NULL(1))
  then have "Inr v = (Inr stored :: exn + py_value)"
    using result_bind [OF _ assms(3)] result_bind [OF assms(1,2)] eq by (metis sql_eq_def)
  then show "v = stored" by simp
qed (use assms bind_not_null in \<open>auto simp: sql_eq_def\<close>)

lemma comparison_is_equality_witness:
  "sql_eq (bind_param RecurringRuleStatusType (P_RuleStatus RS_ACTIVE))
      (bind_param RecurringRuleStatusType (P_RuleStatus RS_ACTIVE)) \<and>
    \<not> sql_eq (bind_param RecurringRuleStatusType (P_RuleStatus RS_ACTIVE))
      (bind_param RecurringRuleStatusType (P_Str ''active''))"
  using comparison_is_equality [of "P_RuleStatus RS_ACTIVE" RecurringRuleStatusType "P_RuleStatus RS_ACTIVE"]
    comparison_is_equality [of "P_RuleStatus RS_ACTIVE" RecurringRuleStatusType "P_Str ''active''"]
  by simp

end
