(* ===== verification/ChatTools.thy ===== *)
theory ChatTools
  imports Cursors SqlTypes
begin

text \<open>The tools of the chat: SqlaChatToolsReader with its queries, the executor that dispatches a model's
  tool call for the user of the request, and the conversion of a result to JSON.  The arguments of a call
  are whatever JSON the model wrote, so the conversions \<open>int(x)\<close> and \<open>str(x)\<close> are modelled on JSON
  values.\<close>

section \<open>Conversions of JSON values\<close>

fun digit_groups :: "bool \<Rightarrow> string \<Rightarrow> bool" where
  "digit_groups after_digit [] = after_digit"
| "digit_groups after_digit (c # s) =
     (if is_digit c then digit_groups True s
      else if c = CHR ''_'' then after_digit \<and> digit_groups False s else False)"

text \<open>\<open>int(s)\<close> of a string.\<close>

definition int_of_text :: "string \<Rightarrow> int option" where
  "int_of_text s = (let (neg, body) = split_sign (strip s); n = int (digits_val (filter is_digit body))
     in if digit_groups False body then Some (if neg then - n else n) else None)"

text \<open>A JSON number without fraction and exponent is an \<open>int\<close>, any other a \<open>float\<close>, which may be
  infinite.\<close>

definition is_int_text :: "string \<Rightarrow> bool" where
  "is_int_text n \<longleftrightarrow> list_all (\<lambda>c. is_digit c \<or> c = CHR ''-'') n"

definition float_limit :: rat where
  "float_limit = 2 ^ 1024 - 2 ^ 970"

datatype float_value = F_nan | F_inf bool | F_finite pyfloat

definition float_of_text :: "string \<Rightarrow> float_value" where
  "float_of_text n =
     (if n = ''NaN'' then F_nan else if n = ''Infinity'' then F_inf False
      else if n = ''-Infinity'' then F_inf True
      else case parse_decimal n of None \<Rightarrow> F_nan
        | Some d \<Rightarrow> if \<bar>dec_val d\<bar> \<ge> float_limit then F_inf (dec_val d < 0) else F_finite (fl (dec_val d)))"

definition truncate :: "rat \<Rightarrow> int" where
  "truncate x = (if x < 0 then - \<lfloor>- x\<rfloor> else \<lfloor>x\<rfloor>)"

fun py_int :: "json \<Rightarrow> exn + int" where
  "py_int (JBool b) = Inr (if b then 1 else 0)"
| "py_int (JNum n) =
     (if is_int_text n then (case int_of_text n of Some i \<Rightarrow> Inr i | None \<Rightarrow> Inl ValueError)
      else case float_of_text n of F_nan \<Rightarrow> Inl ValueError | F_inf _ \<Rightarrow> Inl OverflowError
        | F_finite x \<Rightarrow> Inr (truncate x))"
| "py_int (JStr s) = (case int_of_text s of Some i \<Rightarrow> Inr i | None \<Rightarrow> Inl ValueError)"
| "py_int _ = Inl TypeError"

definition num_str :: "string \<Rightarrow> string" where
  "num_str n =
     (if is_int_text n then (case int_of_text n of Some i \<Rightarrow> int_str i | None \<Rightarrow> n)
      else case float_of_text n of F_nan \<Rightarrow> ''nan'' | F_inf neg \<Rightarrow> (if neg then ''-inf'' else ''inf'')
        | F_finite x \<Rightarrow> float_repr x)"

definition repr_char :: "char \<Rightarrow> char \<Rightarrow> string" where
  "repr_char quote c = (let n = (of_char c :: nat) in
     if c = quote \<or> n = 92 then [CHR 0x5C, c]
     else if n = 9 then CHR 0x5C # ''t'' else if n = 10 then CHR 0x5C # ''n''
     else if n = 13 then CHR 0x5C # ''r''
     else if n < 32 \<or> 127 \<le> n \<and> n \<le> 160 \<or> n = 173 then CHR 0x5C # ''x'' @ hex_fixed 2 n else [c])"

definition repr_str :: "string \<Rightarrow> string" where
  "repr_str s = (let q = (if CHR 0x27 \<in> set s \<and> CHR 0x22 \<notin> set s then CHR 0x22 else CHR 0x27)
     in q # concat (map (repr_char q) s) @ [q])"

fun py_repr :: "json \<Rightarrow> string" where
  "py_repr JNull = ''None''"
| "py_repr (JBool b) = (if b then ''True'' else ''False'')"
| "py_repr (JNum n) = num_str n"
| "py_repr (JStr s) = repr_str s"
| "py_repr (JList xs) = ''['' @ comma_sep (map py_repr xs) @ '']''"
| "py_repr (JObj kvs) = ''{'' @ comma_sep (map (\<lambda>(k, v). repr_str k @ '': '' @ py_repr v) kvs) @ ''}''"

definition py_str :: "json \<Rightarrow> string" where
  "py_str v = (case v of JStr s \<Rightarrow> s | _ \<Rightarrow> py_repr v)"

section \<open>Results\<close>

record category_amount =
  ca_category :: string
  ca_amount :: decimal
  ca_currency :: string
  ca_pct :: pyfloat

record currency_summary =
  cs_currency :: string
  cs_income :: decimal
  cs_expenses :: decimal
  cs_net :: decimal
  cs_rate :: pyfloat
  cs_top :: "category_amount list"
  cs_count :: nat

record trend_point =
  tp_year :: int
  tp_month :: int
  tp_currency :: string
  tp_amount :: decimal

record transaction_match =
  tm_id :: string
  tm_date :: date
  tm_amount :: decimal
  tm_currency :: string
  tm_type :: string
  tm_merchant :: "string option"
  tm_notes :: "string option"
  tm_category :: "string option"

record category_info =
  ci_name :: string
  ci_type :: string
  ci_count :: nat

datatype tool_result =
    MonthSummary int int "currency_summary list"
  | CategoryTrend string "trend_point list"
  | SpendWindow date date "currency_summary list"
  | UserProfile nat "currency_summary list"
  | SearchTransactions string "transaction_match list"
  | ListCategories "category_info list"

section \<open>SqlaChatToolsReader\<close>

record chat_db =
  cd_categories :: "category list"
  cd_transactions :: "transaction list"

text \<open>The executor's arguments reach the statements as parameters: a text with a NUL character cannot be
  bound, and a limit must be a non-negative 64-bit integer; the driver's error is a \<open>StorageError\<close>.\<close>

definition bindable :: "string \<Rightarrow> exn + unit" where
  "bindable s = guardR (CHR 0x00 \<notin> set s) StorageError"

definition valid_limit :: "int \<Rightarrow> exn + unit" where
  "valid_limit n = guardR (0 \<le> n \<and> n < 2 ^ 63) StorageError"

text \<open>\<open>date(y, m, d)\<close> of Python integers, which must fit a C \<open>int\<close>.\<close>

definition c_int :: "int \<Rightarrow> bool" where
  "c_int n \<longleftrightarrow> - (2 ^ 31) \<le> n \<and> n < 2 ^ 31"

definition py_date :: "int \<Rightarrow> int \<Rightarrow> int \<Rightarrow> exn + date" where
  "py_date y m d = (if c_int y \<and> c_int m \<and> c_int d then mk_date y m d else Inl OverflowError)"

definition chat_budget_rows :: "chat_db \<Rightarrow> user_id \<Rightarrow> date \<Rightarrow> date \<Rightarrow> budget_row list" where
  "chat_budget_rows db u first_day last_day =
     map (budget_row_of (cd_categories db)) (fetch_budget_rows (cd_transactions db) u first_day last_day)"

definition summary_of :: "monthly_aggregation \<Rightarrow> currency_summary" where
  "summary_of a =
     \<lparr>cs_currency = ma_currency a, cs_income = ma_income a, cs_expenses = ma_expenses a,
      cs_net = ma_net_savings a, cs_rate = ma_savings_rate a,
      cs_top = map (\<lambda>(cat, amt, pct). \<lparr>ca_category = cat, ca_amount = amt, ca_currency = ma_currency a,
        ca_pct = pct\<rparr>) (ma_top_categories a),
      cs_count = ma_count a\<rparr>"

definition build_currency_summaries :: "int \<Rightarrow> int \<Rightarrow> budget_row list \<Rightarrow> currency_summary list" where
  "build_currency_summaries year month rows = map summary_of (aggregate year month rows)"

definition tool_user :: "string \<Rightarrow> exn + user_id" where
  "tool_user s = bindR (uuid_of s) (\<lambda>u. Inr (UserId u))"

definition get_month_summary :: "chat_db \<Rightarrow> string \<Rightarrow> int \<Rightarrow> int \<Rightarrow> exn + tool_result" where
  "get_month_summary db uid year month =
     bindR (tool_user uid) (\<lambda>u.
     bindR (py_date year month 1) (\<lambda>first_day.
     bindR (monthrange_days year month) (\<lambda>days.
     bindR (py_date year month days) (\<lambda>last_day.
       Inr (MonthSummary year month
         (build_currency_summaries year month (chat_budget_rows db u first_day last_day)))))))"

text \<open>The months before a month, as the first day of the earliest and the last day of the latest.\<close>

definition months_window :: "int \<Rightarrow> int \<Rightarrow> nat \<Rightarrow> exn + date \<times> date" where
  "months_window year month n =
     (let months = months_back year month n; (ey, em) = last months; (ly, lm) = hd months
      in bindR (py_date ey em 1) (\<lambda>first_day.
         bindR (monthrange_days ly lm) (\<lambda>days.
         bindR (py_date ly lm days) (\<lambda>last_day. Inr (first_day, last_day)))))"

text \<open>The rows of the trend query: \<open>GROUP BY\<close> year, month and currency with the exact sum of the stored
  amounts, ordered by year and month.\<close>

definition trend_rows :: "chat_db \<Rightarrow> user_id \<Rightarrow> string \<Rightarrow> date \<Rightarrow> date \<Rightarrow> transaction list" where
  "trend_rows db u category first_day last_day =
     filter (\<lambda>t. tx_user t = u \<and> tx_type t = TT_EXPENSE \<and>
       (case tx_category t of None \<Rightarrow> False
        | Some c \<Rightarrow> map_option cat_name (get_category c (cd_categories db)) = Some category) \<and>
       first_day \<le> tx_date t \<and> tx_date t \<le> last_day) (cd_transactions db)"

definition trend_key :: "transaction \<Rightarrow> int \<times> int \<times> string" where
  "trend_key t = (date_year (tx_date t), date_month (tx_date t), cur_code (currency (tx_amount t)))"

definition stored_sum :: "transaction list \<Rightarrow> decimal" where
  "stored_sum ts = (let v = sum_list (map (\<lambda>t. dec_val (numeric_column (amount (tx_amount t)))) ts)
     in Dec (v < 0) (nat \<lfloor>\<bar>v\<bar> * 10000 + 1 / 2\<rfloor>) (- 4))"

definition category_trend_series :: "transaction list \<Rightarrow> trend_point list" where
  "category_trend_series ts =
     map (\<lambda>(y, m, c). \<lparr>tp_year = y, tp_month = m, tp_currency = c,
            tp_amount = stored_sum (filter (\<lambda>t. trend_key t = (y, m, c)) ts)\<rparr>)
       (sort_key (\<lambda>(y, m, c). (y, m)) (remdups (map trend_key ts)))"

definition get_category_trend :: "chat_db \<Rightarrow> date \<Rightarrow> string \<Rightarrow> string \<Rightarrow> int \<Rightarrow> exn + tool_result" where
  "get_category_trend db today uid category n_months =
     bindR (tool_user uid) (\<lambda>u.
     if n_months \<le> 0 then Inr (CategoryTrend category [])
     else bindR (months_window (date_year today) (date_month today) (nat n_months)) (\<lambda>(first_day, last_day).
          bindR (bindable category) (\<lambda>_.
            Inr (CategoryTrend category
              (category_trend_series (trend_rows db u category first_day last_day))))))"

definition get_spend_window :: "chat_db \<Rightarrow> string \<Rightarrow> date \<Rightarrow> date \<Rightarrow> exn + tool_result" where
  "get_spend_window db uid start_date end_date =
     bindR (tool_user uid) (\<lambda>u.
       Inr (SpendWindow start_date end_date
         (build_currency_summaries 0 0 (chat_budget_rows db u start_date end_date))))"

definition profile_months :: nat where "profile_months = 4"

definition get_user_profile :: "chat_db \<Rightarrow> date \<Rightarrow> string \<Rightarrow> exn + tool_result" where
  "get_user_profile db today uid =
     bindR (tool_user uid) (\<lambda>u.
     bindR (months_window (date_year today) (date_month today) profile_months) (\<lambda>(first_day, last_day).
       Inr (UserProfile profile_months
         (build_currency_summaries 0 0 (chat_budget_rows db u first_day last_day)))))"

text \<open>\<open>ILIKE\<close>: \<open>%\<close> is any text, \<open>_\<close> any character, a backslash takes the next character literally;
  the pattern and the text are folded to lower case.\<close>

fun like :: "string \<Rightarrow> string \<Rightarrow> bool" where
  "like [] s = (s = [])"
| "like (p # ps) s =
     (if p = CHR ''%'' then list_ex (\<lambda>k. like ps (drop k s)) [0..<Suc (length s)]
      else case s of
        [] \<Rightarrow> False
      | c # cs \<Rightarrow>
          if p = CHR 0x5C then (case ps of [] \<Rightarrow> False | q # qs \<Rightarrow> q = c \<and> like qs cs)
          else (p = CHR ''_'' \<or> p = c) \<and> like ps cs)"

definition ilike :: "string option \<Rightarrow> string \<Rightarrow> bool" where
  "ilike s pattern = (case s of None \<Rightarrow> False | Some t \<Rightarrow> like (lower pattern) (lower t))"

definition match_of :: "category list \<Rightarrow> transaction \<Rightarrow> transaction_match" where
  "match_of cats t =
     \<lparr>tm_id = (case tx_id t of TransactionId k \<Rightarrow> uuid_str k), tm_date = tx_date t,
      tm_amount = numeric_column (amount (tx_amount t)), tm_currency = cur_code (currency (tx_amount t)),
      tm_type = transaction_type_value (tx_type t), tm_merchant = tx_merchant t, tm_notes = tx_notes t,
      tm_category = (case tx_category t of None \<Rightarrow> None
        | Some c \<Rightarrow> map_option cat_name (get_category c cats))\<rparr>"

definition search_transactions :: "chat_db \<Rightarrow> string \<Rightarrow> string \<Rightarrow> int \<Rightarrow> exn + tool_result" where
  "search_transactions db uid text limit =
     bindR (tool_user uid) (\<lambda>u.
     bindR (bindable text) (\<lambda>_.
     bindR (valid_limit limit) (\<lambda>_.
       (let pattern = ''%'' @ text @ ''%'';
            hits = filter (\<lambda>t. tx_user t = u \<and> (ilike (tx_merchant t) pattern \<or> ilike (tx_notes t) pattern))
              (cd_transactions db)
        in Inr (SearchTransactions text (map (match_of (cd_categories db))
             (take (nat limit) (descending_by (\<lambda>t. (tx_date t, tx_created_at t)) hits))))))))"

definition category_uses :: "chat_db \<Rightarrow> user_id \<Rightarrow> (string \<times> string) list" where
  "category_uses db u = List.map_filter (\<lambda>t. case tx_category t of None \<Rightarrow> None
       | Some c \<Rightarrow> map_option (\<lambda>k. (cat_name k, category_type_value (cat_type k)))
           (get_category c (cd_categories db)))
     (filter (\<lambda>t. tx_user t = u) (cd_transactions db))"

definition list_categories :: "chat_db \<Rightarrow> string \<Rightarrow> exn + tool_result" where
  "list_categories db uid =
     bindR (tool_user uid) (\<lambda>u.
       (let uses = category_uses db u
        in Inr (ListCategories (descending_by ci_count
             (map (\<lambda>(n, ty). \<lparr>ci_name = n, ci_type = ty, ci_count = count_list uses (n, ty)\<rparr>)
               (remdups uses))))))"

section \<open>The executor\<close>

text \<open>A call for the user of the request; \<open>None\<close> is an unknown tool.\<close>

definition tool_call :: "chat_db \<Rightarrow> date \<Rightarrow> string \<Rightarrow> string \<Rightarrow> json \<Rightarrow> exn + tool_result option" where
  "tool_call db today uid name args =
     (let arg = subscript args; some = (\<lambda>m. bindR m (\<lambda>r. Inr (Some r)))
      in if name = ''get_month_summary'' then
           bindR (arg ''year'') (\<lambda>y. bindR (py_int y) (\<lambda>year.
           bindR (arg ''month'') (\<lambda>m. bindR (py_int m) (\<lambda>month.
             some (get_month_summary db uid year month)))))
         else if name = ''get_category_trend'' then
           bindR (arg ''category'') (\<lambda>c.
           bindR (arg ''n_months'') (\<lambda>n. bindR (py_int n) (\<lambda>n_months.
             some (get_category_trend db today uid (py_str c) n_months))))
         else if name = ''get_spend_window'' then
           bindR (arg ''start_date'') (\<lambda>s. bindR (date_of_iso (py_str s)) (\<lambda>start_date.
           bindR (arg ''end_date'') (\<lambda>e. bindR (date_of_iso (py_str e)) (\<lambda>end_date.
             some (get_spend_window db uid start_date end_date)))))
         else if name = ''get_user_profile'' then some (get_user_profile db today uid)
         else if name = ''search_transactions'' then
           bindR (arg ''text'') (\<lambda>t.
           bindR (arg ''limit'') (\<lambda>l. bindR (py_int l) (\<lambda>limit.
             some (search_transactions db uid (py_str t) limit))))
         else if name = ''list_categories'' then some (list_categories db uid)
         else Inr None)"

section \<open>to_jsonable\<close>

definition json_int :: "int \<Rightarrow> json" where "json_int i = JNum (int_str i)"
definition json_float :: "pyfloat \<Rightarrow> json" where "json_float x = JNum (float_repr x)"
definition json_dec :: "decimal \<Rightarrow> json" where "json_dec d = JStr (dec_str d)"
definition json_opt :: "string option \<Rightarrow> json" where
  "json_opt s = (case s of None \<Rightarrow> JNull | Some t \<Rightarrow> JStr t)"

definition summary_json :: "currency_summary \<Rightarrow> json" where
  "summary_json s = JObj [(''currency'', JStr (cs_currency s)), (''total_income'', json_dec (cs_income s)),
     (''total_expenses'', json_dec (cs_expenses s)), (''net_savings'', json_dec (cs_net s)),
     (''savings_rate'', json_float (cs_rate s)),
     (''top_categories'', JList (map (\<lambda>c. JObj [(''category'', JStr (ca_category c)),
        (''amount'', json_dec (ca_amount c)), (''currency'', JStr (ca_currency c)),
        (''pct_of_expenses'', json_float (ca_pct c))]) (cs_top s))),
     (''transaction_count'', json_int (int (cs_count s)))]"

definition trend_point_json :: "trend_point \<Rightarrow> json" where
  "trend_point_json p = JObj [(''year'', json_int (tp_year p)), (''month'', json_int (tp_month p)),
     (''currency'', JStr (tp_currency p)), (''amount'', json_dec (tp_amount p))]"

definition match_json :: "transaction_match \<Rightarrow> json" where
  "match_json m = JObj [(''transaction_id'', JStr (tm_id m)), (''date'', JStr (date_iso (tm_date m))),
     (''amount'', json_dec (tm_amount m)), (''currency'', JStr (tm_currency m)), (''type_'', JStr (tm_type m)),
     (''merchant'', json_opt (tm_merchant m)), (''notes'', json_opt (tm_notes m)),
     (''category'', json_opt (tm_category m))]"

definition category_json :: "category_info \<Rightarrow> json" where
  "category_json c = JObj [(''name'', JStr (ci_name c)), (''category_type'', JStr (ci_type c)),
     (''transaction_count'', json_int (int (ci_count c)))]"

fun to_jsonable :: "tool_result \<Rightarrow> json" where
  "to_jsonable (MonthSummary y m cs) = JObj [(''year'', json_int y), (''month'', json_int m),
     (''by_currency'', JList (map summary_json cs))]"
| "to_jsonable (CategoryTrend c ps) = JObj [(''category'', JStr c), (''series'', JList (map trend_point_json ps))]"
| "to_jsonable (SpendWindow s e cs) = JObj [(''start_date'', JStr (date_iso s)), (''end_date'', JStr (date_iso e)),
     (''by_currency'', JList (map summary_json cs))]"
| "to_jsonable (UserProfile n cs) = JObj [(''months_covered'', json_int (int n)),
     (''by_currency'', JList (map summary_json cs))]"
| "to_jsonable (SearchTransactions q ms) = JObj [(''query'', JStr q), (''matches'', JList (map match_json ms))]"
| "to_jsonable (ListCategories cs) = JObj [(''categories'', JList (map category_json cs))]"

text \<open>The executor: the exceptions for bad arguments become a payload the model can read; \<open>describe\<close> is
  the text of an exception.\<close>

definition error_payload :: "string \<Rightarrow> json" where
  "error_payload s = JObj [(''error'', JStr s)]"

definition execute_tool ::
  "(exn \<Rightarrow> string) \<Rightarrow> chat_db \<Rightarrow> date \<Rightarrow> user_id \<Rightarrow> string \<Rightarrow> json \<Rightarrow> exn + json" where
  "execute_tool describe db today u name args =
     (case tool_call db today (case u of UserId k \<Rightarrow> uuid_str k) name args of
        Inr (Some r) \<Rightarrow> Inr (to_jsonable r)
      | Inr None \<Rightarrow> Inr (error_payload (''unknown tool: '' @ name))
      | Inl e \<Rightarrow> if e = KeyError \<or> e = ValueError \<or> e = TypeError
          then Inr (error_payload (''invalid arguments for '' @ name @ '': '' @ describe e))
          else Inl e)"

definition tools_metadata :: "string list \<Rightarrow> json list" where
  "tools_metadata names = map (\<lambda>n. JObj [(''tool'', JStr n)]) names"

section \<open>What escapes the executor\<close>

definition tool_error :: "exn \<Rightarrow> bool" where
  "tool_error e \<longleftrightarrow> e \<in> {KeyError, ValueError, TypeError, OverflowError, StorageError}"

lemma tool_error_simps [simp]:
  "tool_error KeyError" "tool_error ValueError" "tool_error TypeError" "tool_error OverflowError"
  "tool_error StorageError"
  by (simp_all add: tool_error_def)

lemma subscript_error: "subscript v k = Inl e \<Longrightarrow> tool_error e"
  by (auto simp: subscript_def split: json.splits option.splits)

lemma py_int_error: "py_int v = Inl e \<Longrightarrow> tool_error e"
  by (cases v) (auto split: if_splits option.splits float_value.splits)

lemma date_of_iso_error: "date_of_iso s = Inl e \<Longrightarrow> tool_error e"
  by (auto simp: date_of_iso_def split: option.splits list.splits)

lemma py_date_error: "py_date y m d = Inl e \<Longrightarrow> tool_error e"
  by (auto simp: py_date_def mk_date_def split: if_splits)

lemma tool_user_error: "tool_user s = Inl e \<Longrightarrow> tool_error e"
  by (auto simp: tool_user_def uuid_of_def split: option.splits)

lemma monthrange_error: "monthrange_days y m = Inl e \<Longrightarrow> tool_error e"
  by (auto simp: monthrange_days_def split: if_splits)

lemma months_window_error: "months_window y m n = Inl e \<Longrightarrow> tool_error e"
  by (auto simp: months_window_def Let_def bindR_Inl_iff py_date_error monthrange_error split: prod.splits)

lemma bindable_error: "bindable s = Inl e \<Longrightarrow> tool_error e" "valid_limit n = Inl e \<Longrightarrow> tool_error e"
  by (auto simp: bindable_def valid_limit_def)

lemmas tool_errors = subscript_error py_int_error date_of_iso_error py_date_error tool_user_error
  monthrange_error months_window_error bindable_error

lemma reader_errors:
  "get_month_summary db uid y m = Inl e \<Longrightarrow> tool_error e"
  "get_category_trend db today uid c k = Inl e \<Longrightarrow> tool_error e"
  "get_spend_window db uid s1 s2 = Inl e \<Longrightarrow> tool_error e"
  "get_user_profile db today uid = Inl e \<Longrightarrow> tool_error e"
  "search_transactions db uid t l = Inl e \<Longrightarrow> tool_error e"
  "list_categories db uid = Inl e \<Longrightarrow> tool_error e"
  by (auto simp: get_month_summary_def get_category_trend_def get_spend_window_def get_user_profile_def
      search_transactions_def list_categories_def bindR_Inl_iff tool_errors Let_def
      split: if_splits prod.splits)

lemma tool_call_error: "tool_call db today uid name args = Inl e \<Longrightarrow> tool_error e"
  by (auto simp: tool_call_def Let_def bindR_Inl_iff tool_errors reader_errors split: if_splits)

section \<open>The readers see one user\<close>

definition own :: "user_id \<Rightarrow> chat_db \<Rightarrow> transaction list" where
  "own u db = filter (\<lambda>t. tx_user t = u) (cd_transactions db)"

definition same_for :: "user_id \<Rightarrow> chat_db \<Rightarrow> chat_db \<Rightarrow> bool" where
  "same_for u db db' \<longleftrightarrow> cd_categories db = cd_categories db' \<and> own u db = own u db'"

lemma filter_own: "filter (\<lambda>t. tx_user t = u \<and> P t) (cd_transactions db) = filter P (own u db)"
  by (simp add: own_def conj_commute)

lemma same_reads:
  assumes "same_for u db db'"
  shows "chat_budget_rows db u a b = chat_budget_rows db' u a b"
    "trend_rows db u c a b = trend_rows db' u c a b"
    "category_uses db u = category_uses db' u"
  using assms by (simp_all add: same_for_def chat_budget_rows_def fetch_budget_rows_def trend_rows_def
      category_uses_def filter_own flip: own_def cong: option.case_cong)

lemma same_search:
  assumes "same_for u db db'" "tool_user uid = Inr u"
  shows "search_transactions db uid t l = search_transactions db' uid t l"
  using assms by (simp add: search_transactions_def same_for_def filter_own)

lemma same_tool_call:
  assumes "same_for u db db'" "tool_user uid = Inr u"
  shows "tool_call db today uid name args = tool_call db' today uid name args"
proof -
  have "get_month_summary db uid = get_month_summary db' uid" "get_spend_window db uid = get_spend_window db' uid"
    "get_category_trend db today uid = get_category_trend db' today uid"
    "get_user_profile db today uid = get_user_profile db' today uid"
    "list_categories db uid = list_categories db' uid"
    using assms same_reads [OF assms(1)]
    by (simp_all add: fun_eq_iff get_month_summary_def get_spend_window_def get_category_trend_def
        get_user_profile_def list_categories_def)
  moreover have "search_transactions db uid = search_transactions db' uid"
    using same_search [OF assms] by (simp add: fun_eq_iff)
  ultimately show ?thesis by (simp only: tool_call_def)
qed

section \<open>Exact sums\<close>

definition myriadth :: "rat \<Rightarrow> bool" where
  "myriadth v \<longleftrightarrow> (\<exists>k::int. v = of_int k / 10000)"

lemma numeric_value: "myriadth v \<Longrightarrow> dec_val (Dec (v < 0) (nat \<lfloor>\<bar>v\<bar> * 10000 + 1 / 2\<rfloor>) (- 4)) = v"
proof -
  assume "myriadth v"
  then obtain k :: int where k: "v = of_int k / 10000" by (auto simp: myriadth_def)
  have "\<bar>v\<bar> * 10000 + 1 / 2 = of_int \<bar>k\<bar> + (1 / 2 :: rat)" by (simp add: k)
  then have "\<lfloor>\<bar>v\<bar> * 10000 + 1 / 2\<rfloor> = \<bar>k\<bar>" by (intro floor_unique) linarith+
  moreover have "v < 0 \<longleftrightarrow> k < 0" by (simp add: k divide_less_0_iff)
  ultimately show ?thesis by (simp add: dec_val_def pow10_def k)
qed

lemma myriadth_column: "myriadth (dec_val (numeric_column d))"
proof -
  have "myriadth (dec_val (Dec b n (- 4)))" for b n
    unfolding myriadth_def by (intro exI [of _ "if b then - int n else int n"]) (simp add: dec_val_def pow10_def)
  then show ?thesis unfolding numeric_column_def .
qed

lemma myriadth_sum: "list_all myriadth vs \<Longrightarrow> myriadth (sum_list vs)"
proof (induction vs)
  case Nil
  show ?case unfolding myriadth_def by (intro exI [of _ 0]) simp
next
  case (Cons v vs)
  then obtain a b :: int where "v = of_int a / 10000" "sum_list vs = of_int b / 10000"
    by (auto simp: myriadth_def)
  then show ?case unfolding myriadth_def by (intro exI [of _ "a + b"]) (simp add: add_divide_distrib)
qed

lemma stored_sum_value:
  "dec_val (stored_sum ts) = sum_list (map (\<lambda>t. dec_val (numeric_column (amount (tx_amount t)))) ts)"
  unfolding stored_sum_def Let_def
  by (rule numeric_value) (auto intro!: myriadth_sum simp: list_all_iff myriadth_column)

lemma aggregate_summaries:
  "map summary_of (aggregate y m rows) = map summary_of (aggregate y' m' rows)"
  by (simp add: aggregate_def currency_aggregation_def summary_of_def case_prod_unfold comp_def Let_def)

section \<open>Properties\<close>


definition chat_tx :: "nat \<Rightarrow> nat \<Rightarrow> transaction" where
  "chat_tx k u = \<lparr>tx_id = TransactionId k, tx_user = UserId u,
     tx_amount = Money (Dec False 5 0) (Currency ''JPY'' 0), tx_date = Date 2024 1 10,
     tx_type = TT_EXPENSE, tx_merchant = Some ''Cafe'', tx_notes = None, tx_category = None,
     tx_created_at = (Date 2024 1 10, 0), tx_updated_at = None, tx_rule = None\<rparr>"


text \<open>C11 A model's bad arguments never break the conversation, with two exceptions: what escapes the
  executor is an \<open>OverflowError\<close> (an infinite number, or a year that does not fit a C integer) or a
  storage error (a negative limit, or a text with a NUL character, which the database refuses).\<close>

theorem tool_failures_are_answered:
  assumes "execute_tool describe db today u name args = Inl e"
  shows "e = OverflowError \<or> e = StorageError"
  using assms tool_call_error [of db today "case u of UserId k \<Rightarrow> uuid_str k" name args e]
  by (auto simp: execute_tool_def tool_error_def split: sum.splits option.splits if_splits)

lemma escaping_calls:
  "execute_tool describe db today (UserId 1) ''search_transactions''
      (JObj [(''text'', JStr ''a''), (''limit'', JNum ''-1'')]) = Inl StorageError"
  "execute_tool describe db today (UserId 1) ''get_month_summary''
      (JObj [(''year'', JNum ''Infinity''), (''month'', JNum ''1'')]) = Inl OverflowError"
proof -
  have u: "tool_user (uuid_str 1) = Inr (UserId 1)" by (simp add: tool_user_def uuid_of_str)
  have i: "py_int (JNum ''-1'') = Inr (- 1)"
    by (simp add: is_int_text_def int_of_text_def split_sign_def strip_def is_space_def is_digit_def
        digits_val_def digit_val_def)
  have t: "py_str (JStr ''a'') = ''a''" by (simp add: py_str_def)
  show "execute_tool describe db today (UserId 1) ''search_transactions''
      (JObj [(''text'', JStr ''a''), (''limit'', JNum ''-1'')]) = Inl StorageError"
    using u by (simp add: execute_tool_def tool_call_def subscript_def i t search_transactions_def
        bindable_def valid_limit_def Let_def del: py_int.simps)
  have y: "py_int (JNum ''Infinity'') = Inl OverflowError"
    by (simp add: is_int_text_def float_of_text_def is_digit_def)
  show "execute_tool describe db today (UserId 1) ''get_month_summary''
      (JObj [(''year'', JNum ''Infinity''), (''month'', JNum ''1'')]) = Inl OverflowError"
    by (simp add: execute_tool_def tool_call_def subscript_def y Let_def del: py_int.simps)
qed

lemma tool_failures_are_answered_witness:
  "execute_tool (\<lambda>_. []) \<lparr>cd_categories = [], cd_transactions = []\<rparr> (Date 2024 2 1) (UserId 1)
      ''search_transactions'' (JObj [(''text'', JStr ''a''), (''limit'', JNum ''-1'')]) = Inl StorageError \<and>
    (StorageError = OverflowError \<or> StorageError = StorageError)"
  using escaping_calls(1) tool_failures_are_answered [OF escaping_calls(1)] by simp

text \<open>The three summary tools agree: the summary of a month is that of the window from its first to its
  last day, and the profile is the summary of the window over the four months before today's.\<close>

theorem summaries_agree:
  assumes "get_month_summary db uid y m = Inr (MonthSummary y m cs)"
    and "get_user_profile db today uid = Inr (UserProfile n ps)"
  shows "(\<exists>a b. a = Date y m 1 \<and> b = Date y m (days_in_month y m) \<and>
      get_spend_window db uid a b = Inr (SpendWindow a b cs)) \<and>
    (\<exists>a b. months_window (date_year today) (date_month today) 4 = Inr (a, b) \<and> n = 4 \<and>
      get_spend_window db uid a b = Inr (SpendWindow a b ps))"
proof
  show "\<exists>a b. a = Date y m 1 \<and> b = Date y m (days_in_month y m) \<and>
      get_spend_window db uid a b = Inr (SpendWindow a b cs)"
    using assms(1) aggregate_summaries [of 0 0 _ y m]
    by (auto simp: get_month_summary_def get_spend_window_def bindR_Inr_iff py_date_def mk_date_Inr_iff
        monthrange_days_def build_currency_summaries_def split: if_splits)
  show "\<exists>a b. months_window (date_year today) (date_month today) 4 = Inr (a, b) \<and> n = 4 \<and>
      get_spend_window db uid a b = Inr (SpendWindow a b ps)"
    using assms(2) by (auto simp: get_user_profile_def get_spend_window_def bindR_Inr_iff profile_months_def)
qed

lemma summaries_agree_witness:
  "\<exists>cs ps. get_month_summary \<lparr>cd_categories = [], cd_transactions = [chat_tx 1 1]\<rparr> (uuid_str 1) 2024 1 =
      Inr (MonthSummary 2024 1 cs) \<and>
    get_spend_window \<lparr>cd_categories = [], cd_transactions = [chat_tx 1 1]\<rparr> (uuid_str 1) (Date 2024 1 1)
      (Date 2024 1 31) = Inr (SpendWindow (Date 2024 1 1) (Date 2024 1 31) cs) \<and>
    get_user_profile \<lparr>cd_categories = [], cd_transactions = [chat_tx 1 1]\<rparr> (Date 2024 2 1) (uuid_str 1) =
      Inr (UserProfile 4 ps)"
proof -
  let ?db = "\<lparr>cd_categories = [], cd_transactions = [chat_tx 1 1]\<rparr>"
  have u: "tool_user (uuid_str 1) = Inr (UserId 1)" by (simp add: tool_user_def uuid_of_str)
  obtain cs where m: "get_month_summary ?db (uuid_str 1) 2024 1 = Inr (MonthSummary 2024 1 cs)"
    using u by (simp add: get_month_summary_def py_date_def c_int_def mk_date_def monthrange_days_def
        days_in_month_def)
  have "months_window 2024 2 4 = Inr (Date 2023 10 1, Date 2024 1 31)"
    by code_simp
  then obtain ps where "get_user_profile ?db (Date 2024 2 1) (uuid_str 1) = Inr (UserProfile 4 ps)"
    using u by (simp add: get_user_profile_def profile_months_def)
  from summaries_agree [OF m this] m this show ?thesis by (auto simp: days_in_month_def)
qed


definition food_db :: chat_db where
  "food_db = \<lparr>cd_categories = [\<lparr>cat_id = CategoryId 1, cat_name = ''Food'', cat_icon = None, cat_color = None,
       cat_is_system = True, cat_user = None, cat_parent = Some (CategoryId 2), cat_type = CT_EXPENSE,
       cat_created_at = (Date 2024 1 1, 0)\<rparr>],
     cd_transactions = [(chat_tx 1 1)\<lparr>tx_category := Some (CategoryId 1)\<rparr>, chat_tx 2 1]\<rparr>"


end
