(* ===== verification/Shifts.thy ===== *)
theory Shifts
  imports Aggregation
begin

text \<open>Behavioural shifts: BehavioralShiftDetector, the alert threshold, the alert writer and the alert
  repository, DetectShiftAlertsUseCase, its transaction per period and the daily job over all recently
  active users.\<close>

section \<open>BehavioralShiftDetector\<close>

record shift_thresholds =
  th_income_drop_high :: pyfloat
  th_income_drop_medium :: pyfloat
  th_expense_spike_high :: pyfloat
  th_expense_spike_medium :: pyfloat
  th_savings_collapse :: pyfloat
  th_savings_decline :: pyfloat
  th_category_spike_high :: pyfloat
  th_category_spike_medium :: pyfloat

definition default_thresholds :: shift_thresholds where
  "default_thresholds = \<lparr>th_income_drop_high = fl (20 / 100), th_income_drop_medium = fl (10 / 100),
     th_expense_spike_high = fl (30 / 100), th_expense_spike_medium = fl (15 / 100),
     th_savings_collapse = fl (15 / 100), th_savings_decline = fl (8 / 100),
     th_category_spike_high = fl (40 / 100), th_category_spike_medium = fl (20 / 100)\<rparr>"

record detected_shift =
  sh_type :: string
  sh_severity :: string
  sh_delta :: pyfloat
  sh_category :: "string option"
  sh_currency :: string
  sh_abs_change :: decimal

record shift_metadata =
  sm_type :: string
  sm_severity :: string
  sm_delta :: pyfloat
  sm_category :: "string option"
  sm_currency :: string
  sm_abs_change :: string

definition to_metadata :: "detected_shift \<Rightarrow> shift_metadata" where
  "to_metadata s = \<lparr>sm_type = sh_type s, sm_severity = sh_severity s, sm_delta = sh_delta s,
     sm_category = sh_category s, sm_currency = sh_currency s, sm_abs_change = dec_str (sh_abs_change s)\<rparr>"

definition avg_categories :: "monthly_aggregation list \<Rightarrow> (string \<times> decimal) list" where
  "avg_categories history =
     (let entries = concat (map ma_top_categories history);
          totals = foldl (\<lambda>d (cat, amt, _). add_to d cat amt) [] entries;
          counts = foldl (\<lambda>d (cat, _, _). count_of d cat) [] entries
      in map (\<lambda>(cat, tot). (cat, dec_div tot (dec_of_nat (dict_get counts cat 0)))) totals)"

definition relative_change :: "decimal \<Rightarrow> decimal \<Rightarrow> pyfloat" where
  "relative_change current avg = float_of_dec (dec_div (dec_sub current avg) avg)"

definition mk_shift ::
  "string \<Rightarrow> string \<Rightarrow> pyfloat \<Rightarrow> string option \<Rightarrow> string \<Rightarrow> decimal \<Rightarrow> detected_shift" where
  "mk_shift ty severity delta cat ccy change = \<lparr>sh_type = ty, sh_severity = severity, sh_delta = delta,
     sh_category = cat, sh_currency = ccy, sh_abs_change = change\<rparr>"

definition income_shifts :: "shift_thresholds \<Rightarrow> monthly_aggregation \<Rightarrow> decimal \<Rightarrow> detected_shift list" where
  "income_shifts t current avg_income =
     (if 0 < dec_val avg_income then
        (let delta = relative_change (ma_income current) avg_income;
             change = dec_abs (dec_sub (ma_income current) avg_income)
         in if delta < - th_income_drop_high t
            then [mk_shift ''income_drop'' ''high'' delta None (ma_currency current) change]
            else if delta < - th_income_drop_medium t
            then [mk_shift ''income_drop'' ''medium'' delta None (ma_currency current) change]
            else [])
      else [])"

definition expense_shifts :: "shift_thresholds \<Rightarrow> monthly_aggregation \<Rightarrow> decimal \<Rightarrow> detected_shift list" where
  "expense_shifts t current avg_expenses =
     (if 0 < dec_val avg_expenses then
        (let delta = relative_change (ma_expenses current) avg_expenses;
             change = dec_abs (dec_sub (ma_expenses current) avg_expenses)
         in if delta > th_expense_spike_high t
            then [mk_shift ''expense_spike'' ''high'' delta None (ma_currency current) change]
            else if delta > th_expense_spike_medium t
            then [mk_shift ''expense_spike'' ''medium'' delta None (ma_currency current) change]
            else [])
      else [])"

definition savings_shifts ::
  "shift_thresholds \<Rightarrow> monthly_aggregation \<Rightarrow> pyfloat \<Rightarrow> decimal \<Rightarrow> detected_shift list" where
  "savings_shifts t current avg_rate avg_expenses =
     (let delta = fl (avg_rate - ma_savings_rate current);
          change = dec_mul (dec_of_float \<bar>delta\<bar>) avg_expenses
      in if delta > th_savings_collapse t
         then [mk_shift ''savings_collapse'' ''high'' (- delta) None (ma_currency current) change]
         else if delta > th_savings_decline t
         then [mk_shift ''savings_decline'' ''medium'' (- delta) None (ma_currency current) change]
         else [])"

definition category_shifts ::
  "shift_thresholds \<Rightarrow> monthly_aggregation \<Rightarrow> (string \<times> decimal) list \<Rightarrow> string \<times> decimal \<times> pyfloat \<Rightarrow>
     detected_shift list" where
  "category_shifts t current avgs entry =
     (case entry of (cat, amt, _) \<Rightarrow>
        (case map_of avgs cat of
           None \<Rightarrow> []
         | Some avg \<Rightarrow>
             if 0 < dec_val avg then
               (let delta = relative_change amt avg; change = dec_abs (dec_sub amt avg)
                in if delta > th_category_spike_high t
                   then [mk_shift ''category_spike'' ''high'' delta (Some cat) (ma_currency current) change]
                   else if delta > th_category_spike_medium t
                   then [mk_shift ''category_spike'' ''medium'' delta (Some cat) (ma_currency current) change]
                   else [])
             else []))"

definition average_of :: "decimal list \<Rightarrow> decimal" where
  "average_of ds = dec_of_float (mean (map float_of_dec ds))"

definition detect :: "shift_thresholds \<Rightarrow> monthly_aggregation \<Rightarrow> monthly_aggregation list \<Rightarrow> detected_shift list" where
  "detect t current history =
     (if length history < 2 then []
      else (let avg_income = average_of (map ma_income history);
                avg_expenses = average_of (map ma_expenses history);
                avg_rate = mean (map ma_savings_rate history);
                avgs = avg_categories history
            in income_shifts t current avg_income @ expense_shifts t current avg_expenses @
               savings_shifts t current avg_rate avg_expenses @
               concat (map (category_shifts t current avgs) (ma_top_categories current))))"

definition shift_line :: "detected_shift \<Rightarrow> string list" where
  "shift_line s =
     (let delta = format_fixed 1 (fl (\<bar>sh_delta s\<bar> * 100)) @ ''%'';
          tail = delta @ '' ('' @ sh_severity s @ '' severity).''
      in if sh_type s = ''income_drop'' then [''- Income dropped by '' @ tail]
         else if sh_type s = ''expense_spike'' then [''- Expenses spiked by '' @ tail]
         else if sh_type s = ''savings_collapse'' then [''- Savings rate collapsed by '' @ tail]
         else if sh_type s = ''savings_decline'' then [''- Savings rate declined by '' @ tail]
         else (case sh_category s of
                 Some c \<Rightarrow> if sh_type s = ''category_spike'' \<and> c \<noteq> []
                   then [''- Spending on '' @ [CHR 39] @ c @ [CHR 39] @ '' spiked by '' @ tail] else []
               | None \<Rightarrow> []))"

definition format_shift_text :: "monthly_aggregation \<Rightarrow> detected_shift list \<Rightarrow> string" where
  "format_shift_text current shifts =
     (if shifts = [] then []
      else join newline ((''Behavioral shift detected in '' @ month_names ! nat (ma_month current) @ '' '' @
             int_str (ma_year current) @ '':'') # concat (map shift_line shifts)))"

section \<open>Alert threshold\<close>

definition min_amounts :: "(string \<times> nat) list" where
  "min_amounts = [(''JPY'', 3000), (''USD'', 20), (''EUR'', 20), (''GBP'', 15), (''CNY'', 150),
     (''KRW'', 30000), (''SGD'', 25), (''AUD'', 30)]"

definition is_alertworthy :: "detected_shift \<Rightarrow> bool" where
  "is_alertworthy s =
     (if sh_severity s \<noteq> ''high'' then False
      else if sh_currency s = [] \<or> dec_val (sh_abs_change s) = 0 then True
      else dec_val (sh_abs_change s) \<ge>
             of_nat (case map_of min_amounts (sh_currency s) of None \<Rightarrow> 20 | Some n \<Rightarrow> n))"

section \<open>Alerts\<close>

datatype alert_type = SPENDING_SPIKE | INCOME_DROP | SAVINGS_COLLAPSE

record alert =
  al_id :: alert_id
  al_user :: user_id
  al_type :: alert_type
  al_subtype :: string
  al_title :: string
  al_body :: string
  al_metadata :: shift_metadata
  al_year :: int
  al_month :: int
  al_read :: bool
  al_created_at :: datetime

text \<open>The table and the number of ids the database has generated.\<close>

record alerts_db =
  ad_rows :: "alert list"
  ad_draws :: nat

definition shift_to_alert_type :: "string \<Rightarrow> alert_type option" where
  "shift_to_alert_type = map_of [(''expense_spike'', SPENDING_SPIKE), (''category_spike'', SPENDING_SPIKE),
     (''income_drop'', INCOME_DROP), (''savings_collapse'', SAVINGS_COLLAPSE)]"

definition named_category :: "detected_shift \<Rightarrow> string option" where
  "named_category s = (case sh_category s of None \<Rightarrow> None | Some c \<Rightarrow> if c = [] then None else Some c)"

definition subtype_of :: "detected_shift \<Rightarrow> string" where
  "subtype_of s = (case named_category s of None \<Rightarrow> sh_type s | Some c \<Rightarrow> sh_type s @ '':'' @ c)"

definition percent :: "detected_shift \<Rightarrow> string" where
  "percent s = format_fixed 0 \<bar>fl (sh_delta s * 100)\<bar> @ ''%''"

definition build_title :: "detected_shift \<Rightarrow> string" where
  "build_title s =
     (if sh_type s = ''category_spike'' \<and> named_category s \<noteq> None
      then the (named_category s) @ '' spending up '' @ percent s
      else if sh_type s = ''expense_spike'' then ''Total spending up '' @ percent s
      else if sh_type s = ''income_drop'' then ''Income down '' @ percent s
      else if sh_type s = ''savings_collapse'' then ''Savings rate collapsed '' @ percent s
      else ''Unusual financial activity'')"

definition build_body :: "detected_shift \<Rightarrow> string" where
  "build_body s =
     (let (base, direction) =
        (if sh_type s = ''category_spike'' \<and> named_category s \<noteq> None
         then (the (named_category s) @ '' up '' @ percent s @ '' vs usual'', ''above'')
         else if sh_type s = ''expense_spike'' then (''Total expenses up '' @ percent s @ '' vs usual'', ''above'')
         else if sh_type s = ''income_drop'' then (''Income down '' @ percent s @ '' vs last 3 months'', ''below'')
         else if sh_type s = ''savings_collapse'' then (''Savings rate down '' @ percent s @ '' vs usual'', ''below'')
         else (''Unusual change: '' @ percent s, ''above''))
      in if dec_val (sh_abs_change s) \<noteq> 0 \<and> sh_currency s \<noteq> []
         then base @ '' ('' @ money_part (sh_abs_change s) (sh_currency s) @ '' '' @ direction @ '' usual)''
         else base)"

text \<open>A VARCHAR(n) column refuses a longer value, except that excess spaces are cut.\<close>

definition varchar :: "nat \<Rightarrow> string \<Rightarrow> string option" where
  "varchar n s = (if length s \<le> n then Some s
     else if list_all (\<lambda>c. c = CHR '' '') (drop n s) then Some (take n s) else None)"

definition alert_key :: "alert \<Rightarrow> user_id \<times> string \<times> int \<times> int" where
  "alert_key a = (al_user a, al_subtype a, al_year a, al_month a)"

definition insert_alert ::
  "(nat \<Rightarrow> uuid) \<Rightarrow> user_id \<Rightarrow> int \<Rightarrow> int \<Rightarrow> datetime \<Rightarrow> alert_type \<Rightarrow> detected_shift \<Rightarrow> alerts_db \<Rightarrow> exn + alerts_db"
  where
  "insert_alert gen u year month now ty s db =
     (case varchar 100 (subtype_of s) of
        None \<Rightarrow> Inl StorageError
      | Some sub \<Rightarrow>
          (let a = \<lparr>al_id = AlertId (gen (ad_draws db)), al_user = u, al_type = ty, al_subtype = sub,
                    al_title = build_title s, al_body = build_body s, al_metadata = to_metadata s,
                    al_year = year, al_month = month, al_read = False, al_created_at = now\<rparr>
           in Inr (db\<lparr>ad_draws := ad_draws db + 1,
                ad_rows := (if alert_key a \<in> alert_key ` set (ad_rows db) then ad_rows db
                            else ad_rows db @ [a])\<rparr>)))"

fun insert_alerts ::
  "(nat \<Rightarrow> uuid) \<Rightarrow> user_id \<Rightarrow> int \<Rightarrow> int \<Rightarrow> datetime \<Rightarrow> detected_shift list \<Rightarrow> alerts_db \<Rightarrow> exn + alerts_db" where
  "insert_alerts gen u year month now [] db = Inr db"
| "insert_alerts gen u year month now (s # ss) db =
     (case shift_to_alert_type (sh_type s) of
        None \<Rightarrow> insert_alerts gen u year month now ss db
      | Some ty \<Rightarrow> bindR (insert_alert gen u year month now ty s db) (insert_alerts gen u year month now ss))"

definition write_shift_alerts ::
  "(nat \<Rightarrow> uuid) \<Rightarrow> user_id \<Rightarrow> int \<Rightarrow> int \<Rightarrow> datetime \<Rightarrow> detected_shift list \<Rightarrow> alerts_db \<Rightarrow> exn + alerts_db" where
  "write_shift_alerts gen u year month now shifts db =
     insert_alerts gen u year month now (filter is_alertworthy shifts) db"

section \<open>DetectShiftAlertsUseCase and its job\<close>

definition history_aggregations :: "((int \<times> int) \<times> budget_row list) list \<Rightarrow> monthly_aggregation list" where
  "history_aggregations raw =
     concat (map (\<lambda>((y, m), rows). if rows = [] then [] else aggregate y m rows) (sort_key fst raw))"

definition n_history_months :: nat where "n_history_months = 3"

definition detect_shift_alerts ::
  "(nat \<Rightarrow> uuid) \<Rightarrow> datetime \<Rightarrow> category list \<Rightarrow> transaction list \<Rightarrow> user_id \<Rightarrow> int \<Rightarrow> int \<Rightarrow> alerts_db \<Rightarrow>
     exn + alerts_db" where
  "detect_shift_alerts gen now cats txs u year month db =
     bindR (read_month cats txs u year month) (\<lambda>rows.
       if rows = [] then Inr db
       else bindR (read_history_months cats txs u year month n_history_months) (\<lambda>raw.
         (let history = history_aggregations raw
          in case aggregate year month rows of
               [] \<Rightarrow> Inr db
             | primary # _ \<Rightarrow>
                 if length history < 2 then Inr db
                 else (let shifts = detect default_thresholds primary
                             (filter (\<lambda>h. ma_currency h = ma_currency primary) history)
                       in if shifts = [] then Inr db
                          else write_shift_alerts gen u year month now shifts db))))"

definition detect_for_period ::
  "(nat \<Rightarrow> uuid) \<Rightarrow> datetime \<Rightarrow> category list \<Rightarrow> transaction list \<Rightarrow> user_id \<Rightarrow> int \<Rightarrow> int \<Rightarrow> alerts_db \<Rightarrow>
     exn option \<times> alerts_db" where
  "detect_for_period gen now cats txs u year month db =
     (case detect_shift_alerts gen now cats txs u year month db of
        Inl e \<Rightarrow> (Some e, db) | Inr db' \<Rightarrow> (None, db'))"

fun detect_periods ::
  "(nat \<Rightarrow> uuid) \<Rightarrow> datetime \<Rightarrow> category list \<Rightarrow> transaction list \<Rightarrow> (user_id \<times> int \<times> int) list \<Rightarrow> alerts_db \<Rightarrow>
     exn option \<times> alerts_db" where
  "detect_periods gen now cats txs [] db = (None, db)"
| "detect_periods gen now cats txs ((u, y, m) # ps) db =
     (case detect_for_period gen now cats txs u y m db of
        (Some e, db') \<Rightarrow> (Some e, db')
      | (None, db') \<Rightarrow> detect_periods gen now cats txs ps db')"

definition prev_month :: "date \<Rightarrow> int \<times> int" where
  "prev_month d = (if date_month d = 1 then (date_year d - 1, 12) else (date_year d, date_month d - 1))"

definition recently_active :: "transaction list \<Rightarrow> date \<Rightarrow> user_id list" where
  "recently_active txs since = remdups (map tx_user (filter (\<lambda>t. since \<le> tx_date t) txs))"

definition job_periods :: "transaction list \<Rightarrow> date \<Rightarrow> (user_id \<times> int \<times> int) list" where
  "job_periods txs today =
     (case prev_month today of (py, pm) \<Rightarrow>
        concat (map (\<lambda>u. [(u, py, pm), (u, date_year today, date_month today)])
                  (recently_active txs (Date py pm 1))))"

definition detect_shift_alerts_job ::
  "(nat \<Rightarrow> uuid) \<Rightarrow> datetime \<Rightarrow> category list \<Rightarrow> transaction list \<Rightarrow> alerts_db \<Rightarrow> exn option \<times> alerts_db" where
  "detect_shift_alerts_job gen now cats txs db =
     detect_periods gen now cats txs (job_periods txs (fst now)) db"

section \<open>SqlaAlertRepository and the alert use cases\<close>

definition unread_count :: "user_id \<Rightarrow> alerts_db \<Rightarrow> nat" where
  "unread_count u db = length (filter (\<lambda>a. al_user a = u \<and> \<not> al_read a) (ad_rows db))"

definition mark_read :: "alert_id \<Rightarrow> user_id \<Rightarrow> alerts_db \<Rightarrow> bool \<times> alerts_db" where
  "mark_read i u db =
     ((\<exists>a\<in>set (ad_rows db). al_id a = i \<and> al_user a = u),
      db\<lparr>ad_rows := map (\<lambda>a. if al_id a = i \<and> al_user a = u then a\<lparr>al_read := True\<rparr> else a) (ad_rows db)\<rparr>)"

definition clear_all :: "user_id \<Rightarrow> alerts_db \<Rightarrow> alerts_db" where
  "clear_all u db = db\<lparr>ad_rows := filter (\<lambda>a. al_user a \<noteq> u) (ad_rows db)\<rparr>"

text \<open>\<open>cutoff\<close> is the database's \<open>now() - make_interval(days)\<close>.\<close>

definition purge_older_than :: "int \<Rightarrow> datetime \<Rightarrow> alerts_db \<Rightarrow> exn + nat \<times> alerts_db" where
  "purge_older_than days cutoff db =
     (if days < 1 then Inl ValueError
      else Inr (length (filter (\<lambda>a. al_created_at a < cutoff) (ad_rows db)),
                db\<lparr>ad_rows := filter (\<lambda>a. \<not> al_created_at a < cutoff) (ad_rows db)\<rparr>))"

definition mark_alert_read :: "alert_id \<Rightarrow> user_id \<Rightarrow> alerts_db \<Rightarrow> exn + alerts_db" where
  "mark_alert_read i u db =
     (let (found, db') = mark_read i u db in if found then Inr db' else Inl AlertNotFoundError)"

section \<open>A shift has the direction it names\<close>

lemma thresholds_nonneg:
  "0 \<le> fl (20 / 100)" "0 \<le> fl (10 / 100)" "0 \<le> fl (30 / 100)" "0 \<le> fl (15 / 100)" "0 \<le> fl (8 / 100)"
  "0 \<le> fl (40 / 100)"
  by (simp_all add: fl_sign)

lemma relative_change_sign:
  assumes "0 < dec_val avg"
  shows "relative_change x avg < 0 \<Longrightarrow> dec_val x < dec_val avg"
    "0 < relative_change x avg \<Longrightarrow> dec_val avg < dec_val x"
  using dec_div_sign [OF assms] dec_sub_sign fl_pos_imp
  by (force simp: relative_change_def float_of_dec_def)+

lemma mk_shift_simps [simp]:
  "sh_type (mk_shift ty sev d c ccy x) = ty" "sh_severity (mk_shift ty sev d c ccy x) = sev"
  "sh_category (mk_shift ty sev d c ccy x) = c" "sh_currency (mk_shift ty sev d c ccy x) = ccy"
  "sh_delta (mk_shift ty sev d c ccy x) = d" "sh_abs_change (mk_shift ty sev d c ccy x) = x"
  by (simp_all add: mk_shift_def)

definition severity_ok :: "detected_shift \<Rightarrow> bool" where
  "severity_ok s \<longleftrightarrow> sh_severity s = ''high'' \<or> sh_severity s = ''medium''"

lemma income_shift_cases:
  assumes "s \<in> set (income_shifts default_thresholds current avg)"
  shows "sh_type s = ''income_drop'' \<and> sh_category s = None \<and> sh_currency s = ma_currency current \<and>
    severity_ok s \<and> dec_val (ma_income current) < dec_val avg"
proof -
  have pos: "0 < dec_val avg" using assms by (auto simp: income_shifts_def split: if_splits)
  have "relative_change (ma_income current) avg < 0"
    using assms thresholds_nonneg(1,2)
    by (auto simp: income_shifts_def default_thresholds_def Let_def split: if_splits)
  then show ?thesis
    using relative_change_sign(1) [OF pos] assms
    by (auto simp: income_shifts_def severity_ok_def Let_def split: if_splits)
qed

lemma expense_shift_cases:
  assumes "s \<in> set (expense_shifts default_thresholds current avg)"
  shows "sh_type s = ''expense_spike'' \<and> sh_category s = None \<and> sh_currency s = ma_currency current \<and>
    severity_ok s \<and> dec_val avg < dec_val (ma_expenses current)"
proof -
  have pos: "0 < dec_val avg" using assms by (auto simp: expense_shifts_def split: if_splits)
  have "0 < relative_change (ma_expenses current) avg"
    using assms thresholds_nonneg(3,4)
    by (auto simp: expense_shifts_def default_thresholds_def Let_def split: if_splits)
  then show ?thesis
    using relative_change_sign(2) [OF pos] assms
    by (auto simp: expense_shifts_def severity_ok_def Let_def split: if_splits)
qed

lemma savings_shift_cases:
  assumes "s \<in> set (savings_shifts default_thresholds current rate avg)"
  shows "(sh_type s = ''savings_collapse'' \<and> sh_severity s = ''high'' \<or>
       sh_type s = ''savings_decline'' \<and> sh_severity s = ''medium'') \<and> sh_category s = None \<and>
     sh_currency s = ma_currency current \<and> severity_ok s \<and> ma_savings_rate current < rate"
proof -
  have "0 < fl (rate - ma_savings_rate current)"
    using assms thresholds_nonneg(4,5)
    by (auto simp: savings_shifts_def default_thresholds_def Let_def split: if_splits)
  then have "ma_savings_rate current < rate" using fl_pos_imp(1) by fastforce
  then show ?thesis using assms by (auto simp: savings_shifts_def severity_ok_def Let_def split: if_splits)
qed

lemma category_shift_cases:
  assumes "s \<in> set (category_shifts default_thresholds current avgs (cat, amt, pct))"
  shows "sh_type s = ''category_spike'' \<and> sh_category s = Some cat \<and> sh_currency s = ma_currency current \<and>
     severity_ok s \<and> (\<exists>avg. map_of avgs cat = Some avg \<and> dec_val avg < dec_val amt)"
proof -
  obtain avg where avg: "map_of avgs cat = Some avg" "0 < dec_val avg"
    using assms by (cases "map_of avgs cat") (auto simp: category_shifts_def split: if_splits)
  have "0 < relative_change amt avg"
    using assms avg thresholds_nonneg(1,6)
    by (auto simp: category_shifts_def default_thresholds_def Let_def split: if_splits)
  then show ?thesis
    using relative_change_sign(2) [OF avg(2)] assms avg
    by (auto simp: category_shifts_def severity_ok_def Let_def split: if_splits)
qed

text \<open>A detected shift really is one: there are at least two months of history, and an income drop,
  expense spike or category spike means that the figure of the month lies below, respectively above, the
  average of the history it was compared with, and a savings shift that the savings rate fell.\<close>

theorem shift_is_real:
  assumes "s \<in> set (detect default_thresholds current history)"
  shows "2 \<le> length history \<and> severity_ok s \<and> sh_currency s = ma_currency current \<and>
    (sh_type s = ''income_drop'' \<and> dec_val (ma_income current) < dec_val (average_of (map ma_income history)) \<or>
     sh_type s = ''expense_spike'' \<and> dec_val (average_of (map ma_expenses history)) < dec_val (ma_expenses current) \<or>
     sh_type s \<in> {''savings_collapse'', ''savings_decline''} \<and>
       ma_savings_rate current < mean (map ma_savings_rate history) \<or>
     sh_type s = ''category_spike'' \<and> (\<exists>cat amt pct avg. (cat, amt, pct) \<in> set (ma_top_categories current) \<and>
       sh_category s = Some cat \<and> map_of (avg_categories history) cat = Some avg \<and> dec_val avg < dec_val amt))"
proof -
  have len: "2 \<le> length history" using assms by (auto simp: detect_def not_less split: if_splits)
  then consider "s \<in> set (income_shifts default_thresholds current (average_of (map ma_income history)))"
    | "s \<in> set (expense_shifts default_thresholds current (average_of (map ma_expenses history)))"
    | "s \<in> set (savings_shifts default_thresholds current (mean (map ma_savings_rate history))
          (average_of (map ma_expenses history)))"
    | cat amt pct where "(cat, amt, pct) \<in> set (ma_top_categories current)"
        "s \<in> set (category_shifts default_thresholds current (avg_categories history) (cat, amt, pct))"
    using assms by (auto simp: detect_def Let_def)
  then show ?thesis
  proof cases
    case 1
    then show ?thesis using income_shift_cases len by blast
  next
    case 2
    then show ?thesis using expense_shift_cases len by blast
  next
    case 3
    then show ?thesis using savings_shift_cases len by blast
  next
    case 4
    then show ?thesis using category_shift_cases len by blast
  qed
qed

text \<open>Half the income of the two months before is a high income drop.\<close>

definition salary_month :: "int \<Rightarrow> nat \<Rightarrow> monthly_aggregation" where
  "salary_month m n = currency_aggregation 2024 m ''USD'' [sample_row ''USD'' ''income'' n ''Salary'']"

lemma salary_income: "n < 10 ^ 19 \<Longrightarrow> ma_income (salary_month m n) = Dec False n (- 4)"
  using dec_sum_exact [of "[Dec False n (- 4)]"]
  by (simp add: salary_month_def sample_row_def is_income_def db_amount_def myriads_def)

lemma hundred_average: "average_of [Dec False 1000000 (- 4), Dec False 1000000 (- 4)] = Dec False 1000 (- 1)"
proof -
  have m: "mean (map float_of_dec [Dec False 1000000 (- 4), Dec False 1000000 (- 4)]) = fl 100"
  proof -
    have "fl 100 = 100" by code_simp
    then show ?thesis by (simp add: mean_def float_of_dec_def dec_val_Dec4)
  qed
  have r: "float_repr (fl 100) = ''100.0''" by code_simp
  have p: "parse_decimal ''100.0'' = Some (Dec False 1000 (- 1))"
    by (simp add: parse_decimal_def strip_def is_space_def split_sign_def parse_body_def is_digit_def
        parse_exponent_def digits_val_def digit_val_def Let_def)
  show ?thesis unfolding average_of_def m dec_of_float_def r p by simp
qed

lemma halved_change: "relative_change (Dec False 500000 (- 4)) (Dec False 1000 (- 1)) = - (1 / 2)"
proof -
  have "dec_sub (Dec False 500000 (- 4)) (Dec False 1000 (- 1)) = Dec True 500000 (- 4)"
    by (simp add: dec_sub_def signed_coeff_def Let_def dec_rounded_exact)
  moreover have "length (nat_str 1000) = 4" "length (nat_str 500000) = 6" by (simp_all add: nat_str.simps)
  then have "dec_div (Dec True 500000 (- 4)) (Dec False 1000 (- 1)) = Dec True 500 (- 3)"
    by (simp add: Let_def dec_prec_def dec_rounded_exact strip_to.simps)
  moreover have "fl (- (1 / 2)) = - (1 / 2)" by code_simp
  ultimately show ?thesis by (simp add: relative_change_def float_of_dec_def dec_val_def pow10_def)
qed

lemma shift_is_real_witness:
  "\<exists>s. s \<in> set (detect default_thresholds (salary_month 4 500000) [salary_month 2 1000000, salary_month 3 1000000]) \<and>
     sh_currency s = ''USD'' \<and> severity_ok s"
proof -
  let ?h = "[salary_month 2 1000000, salary_month 3 1000000]" and ?c = "salary_month 4 500000"
  have "average_of (map ma_income ?h) = Dec False 1000 (- 1)" by (simp add: salary_income hundred_average)
  moreover have "th_income_drop_high default_thresholds < 1 / 2"
  proof -
    have "fl (20 / 100) < 1 / 2" by code_simp
    then show ?thesis by (simp add: default_thresholds_def)
  qed
  ultimately obtain s where s: "s \<in> set (detect default_thresholds ?c ?h)"
    by (auto simp: detect_def income_shifts_def salary_income halved_change Let_def dec_val_def)
  from shift_is_real [OF s] show ?thesis using s by (auto simp: salary_month_def)
qed

section \<open>Alerts are written once\<close>

definition keys_of :: "alerts_db \<Rightarrow> (user_id \<times> string \<times> int \<times> int) set" where
  "keys_of db = alert_key ` set (ad_rows db)"

lemma insert_alert_Inr:
  assumes "insert_alert gen u y m now ty s db = Inr db'"
  shows "\<exists>sub new. varchar 100 (subtype_of s) = Some sub \<and> ad_rows db' = ad_rows db @ new \<and>
    keys_of db' = insert (u, sub, y, m) (keys_of db) \<and>
    ((u, sub, y, m) \<in> keys_of db \<longrightarrow> new = []) \<and>
    (distinct (map alert_key (ad_rows db)) \<longrightarrow> distinct (map alert_key (ad_rows db')))"
  using assms
  by (auto simp: insert_alert_def keys_of_def alert_key_def Let_def split: option.splits if_splits)

lemma insert_alert_again:
  assumes "insert_alert gen u y m now ty s db = Inr db1" "keys_of db1 \<subseteq> keys_of db'"
  shows "\<exists>db''. insert_alert gen' u y m now' ty s db' = Inr db'' \<and> ad_rows db'' = ad_rows db'"
proof -
  obtain sub where sub: "varchar 100 (subtype_of s) = Some sub" "(u, sub, y, m) \<in> keys_of db1"
    using insert_alert_Inr [OF assms(1)] by auto
  then have "(u, sub, y, m) \<in> alert_key ` set (ad_rows db')" using assms(2) by (auto simp: keys_of_def)
  then show ?thesis using sub(1) by (simp add: insert_alert_def Let_def alert_key_def)
qed

lemma insert_alert_Inl: "insert_alert gen u y m now ty s db = Inl e \<Longrightarrow> insert_alert gen' u y m now' ty s db' = Inl e"
  by (auto simp: insert_alert_def Let_def split: option.splits)

definition extends :: "alerts_db \<Rightarrow> alerts_db \<Rightarrow> bool" where
  "extends db db' \<longleftrightarrow> (\<exists>new. ad_rows db' = ad_rows db @ new) \<and>
     (distinct (map alert_key (ad_rows db)) \<longrightarrow> distinct (map alert_key (ad_rows db')))"

lemma extends_refl [simp]: "extends db db"
  by (simp add: extends_def)

lemma extends_trans: "extends a b \<Longrightarrow> extends b c \<Longrightarrow> extends a c"
  by (auto simp: extends_def)

lemma extends_keys: "extends a b \<Longrightarrow> keys_of a \<subseteq> keys_of b"
  by (auto simp: extends_def keys_of_def)

lemma insert_alerts_extends:
  "insert_alerts gen u y m now ss db = Inr db1 \<Longrightarrow> extends db db1"
proof (induction ss arbitrary: db)
  case (Cons s ss)
  show ?case
  proof (cases "shift_to_alert_type (sh_type s)")
    case (Some ty)
    then obtain dbx where x: "insert_alert gen u y m now ty s db = Inr dbx"
        "insert_alerts gen u y m now ss dbx = Inr db1"
      using Cons.prems by (auto simp: bindR_Inr_iff)
    have "extends db dbx" using insert_alert_Inr [OF x(1)] by (auto simp: extends_def)
    then show ?thesis using Cons.IH [OF x(2)] extends_trans by blast
  qed (use Cons in simp)
qed simp

lemma insert_alerts_again:
  "insert_alerts gen u y m now ss db = Inr db1 \<Longrightarrow> keys_of db1 \<subseteq> keys_of db' \<Longrightarrow>
     \<exists>db''. insert_alerts gen' u y m now' ss db' = Inr db'' \<and> ad_rows db'' = ad_rows db'"
proof (induction ss arbitrary: db db')
  case (Cons s ss)
  show ?case
  proof (cases "shift_to_alert_type (sh_type s)")
    case (Some ty)
    then obtain dbx where x: "insert_alert gen u y m now ty s db = Inr dbx"
        "insert_alerts gen u y m now ss dbx = Inr db1"
      using Cons.prems by (auto simp: bindR_Inr_iff)
    have "keys_of dbx \<subseteq> keys_of db'"
      using extends_keys [OF insert_alerts_extends [OF x(2)]] Cons.prems(2) by blast
    then obtain d where d: "insert_alert gen' u y m now' ty s db' = Inr d" "ad_rows d = ad_rows db'"
      using insert_alert_again [OF x(1)] by blast
    then have "keys_of db1 \<subseteq> keys_of d" using Cons.prems(2) by (simp add: keys_of_def)
    from Cons.IH [OF x(2) this] show ?thesis using Some d by auto
  qed (use Cons in simp)
qed auto

lemma insert_alerts_Inl:
  "insert_alerts gen u y m now ss db = Inl e \<Longrightarrow> insert_alerts gen' u y m now' ss db' = Inl e"
proof (induction ss arbitrary: db db')
  case (Cons s ss)
  show ?case
  proof (cases "shift_to_alert_type (sh_type s)")
    case (Some ty)
    show ?thesis
    proof (cases "insert_alert gen u y m now ty s db")
      case (Inl e')
      then show ?thesis using Some Cons.prems insert_alert_Inl [OF Inl] by simp
    next
      case (Inr d)
      then obtain d' where "insert_alert gen' u y m now' ty s db' = Inr d'"
        using insert_alert_Inl [of gen' u y m now' ty s db' _ gen now db]
        by (cases "insert_alert gen' u y m now' ty s db'") auto
      then show ?thesis using Some Inr Cons by simp
    qed
  qed (use Cons in simp)
qed simp

text \<open>What a period's transactions are found to contain does not depend on the alerts written so far.\<close>

definition found_shifts :: "category list \<Rightarrow> transaction list \<Rightarrow> user_id \<Rightarrow> int \<Rightarrow> int \<Rightarrow> exn + detected_shift list" where
  "found_shifts cats txs u year month =
     bindR (read_month cats txs u year month) (\<lambda>rows.
       if rows = [] then Inr []
       else bindR (read_history_months cats txs u year month n_history_months) (\<lambda>raw.
         (let history = history_aggregations raw
          in case aggregate year month rows of
               [] \<Rightarrow> Inr []
             | primary # _ \<Rightarrow>
                 if length history < 2 then Inr []
                 else Inr (filter is_alertworthy (detect default_thresholds primary
                             (filter (\<lambda>h. ma_currency h = ma_currency primary) history))))))"

lemma detect_shift_alerts_found:
  "detect_shift_alerts gen now cats txs u y m db =
     bindR (found_shifts cats txs u y m) (\<lambda>ss. insert_alerts gen u y m now ss db)"
  by (cases "read_month cats txs u y m"; cases "read_history_months cats txs u y m n_history_months")
    (auto simp: detect_shift_alerts_def found_shifts_def write_shift_alerts_def Let_def split: list.splits)

lemma detect_period_cases:
  assumes "detect_for_period gen now cats txs u y m db = (r, db1)"
  shows "extends db db1"
    "keys_of db1 \<subseteq> keys_of db' \<Longrightarrow>
       \<exists>db''. detect_for_period gen' now' cats txs u y m db' = (r, db'') \<and> ad_rows db'' = ad_rows db'"
proof -
  let ?f = "found_shifts cats txs u y m"
  show "extends db db1"
    using assms insert_alerts_extends
    by (cases ?f) (auto simp: detect_for_period_def detect_shift_alerts_found split: sum.splits)
  assume k: "keys_of db1 \<subseteq> keys_of db'"
  show "\<exists>db''. detect_for_period gen' now' cats txs u y m db' = (r, db'') \<and> ad_rows db'' = ad_rows db'"
  proof (cases ?f)
    case (Inr ss)
    show ?thesis
    proof (cases "insert_alerts gen u y m now ss db")
      case (Inl e)
      then show ?thesis using assms Inr insert_alerts_Inl [OF Inl, of gen' now' db']
        by (simp add: detect_for_period_def detect_shift_alerts_found)
    next
      case db: (Inr d)
      then have "d = db1" using assms Inr by (simp add: detect_for_period_def detect_shift_alerts_found)
      then show ?thesis using assms Inr db insert_alerts_again [OF db, of db' gen' now'] k
        by (auto simp: detect_for_period_def detect_shift_alerts_found)
    qed
  qed (use assms in \<open>simp add: detect_for_period_def detect_shift_alerts_found\<close>)
qed

lemma detect_periods_extends: "detect_periods gen now cats txs ps db = (r, db1) \<Longrightarrow> extends db db1"
proof (induction ps arbitrary: db)
  case (Cons p ps)
  obtain u y m where p: "p = (u, y, m)" by (cases p)
  obtain r' d where d: "detect_for_period gen now cats txs u y m db = (r', d)" by fastforce
  have "extends db d" by (rule detect_period_cases(1) [OF d])
  then show ?case using Cons d p extends_trans by (cases r') auto
qed simp

lemma detect_periods_again:
  "detect_periods gen now cats txs ps db = (r, db1) \<Longrightarrow> keys_of db1 \<subseteq> keys_of db' \<Longrightarrow>
     \<exists>db''. detect_periods gen' now' cats txs ps db' = (r, db'') \<and> ad_rows db'' = ad_rows db'"
proof (induction ps arbitrary: db db')
  case (Cons p ps)
  obtain u y m where p: "p = (u, y, m)" by (cases p)
  obtain r1 d where d: "detect_for_period gen now cats txs u y m db = (r1, d)" by fastforce
  show ?case
  proof (cases r1)
    case None
    then have rest: "detect_periods gen now cats txs ps d = (r, db1)" using Cons.prems p d by simp
    have "keys_of d \<subseteq> keys_of db'" using extends_keys [OF detect_periods_extends [OF rest]] Cons.prems(2) by blast
    then obtain e where e: "detect_for_period gen' now' cats txs u y m db' = (r1, e)" "ad_rows e = ad_rows db'"
      using detect_period_cases(2) [OF d] by blast
    then have "keys_of db1 \<subseteq> keys_of e" using Cons.prems(2) by (simp add: keys_of_def)
    from Cons.IH [OF rest this] show ?thesis using None e p by auto
  next
    case (Some e)
    then have rd: "r = Some e" "db1 = d" using Cons.prems(1) p d by simp_all
    obtain f where "detect_for_period gen' now' cats txs u y m db' = (Some e, f)" "ad_rows f = ad_rows db'"
      using detect_period_cases(2) [OF d, of db' gen' now'] Cons.prems(2) Some rd(2) by auto
    then show ?thesis using p rd(1) by simp
  qed
qed simp

text \<open>C30 The alert job can be run again: a run only appends alerts, never with a key (user, subtype, year,
  month) that is already there, so alerts the user has read stay as they are; and a second run over the same
  periods and transactions ends the same way and adds nothing.\<close>

theorem alert_job_idempotent:
  assumes "detect_periods gen now cats txs ps db = (r, db1)" "distinct (map alert_key (ad_rows db))"
  shows "(\<exists>new. ad_rows db1 = ad_rows db @ new) \<and> distinct (map alert_key (ad_rows db1)) \<and>
    (\<exists>db2. detect_periods gen' now' cats txs ps db1 = (r, db2) \<and> ad_rows db2 = ad_rows db1)"
  using detect_periods_extends [OF assms(1)] detect_periods_again [OF assms(1), of db1 gen' now'] assms(2)
  by (auto simp: extends_def)

lemma alert_job_idempotent_witness:
  "\<exists>db2. detect_periods (\<lambda>n. n) (Date 2024 4 2, 0) [] [past_tx] [(UserId 1, 2024, 3), (UserId 1, 2024, 4)]
     (snd (detect_periods (\<lambda>n. n) (Date 2024 4 1, 0) [] [past_tx] [(UserId 1, 2024, 3), (UserId 1, 2024, 4)]
        \<lparr>ad_rows = [], ad_draws = 0\<rparr>)) =
     (fst (detect_periods (\<lambda>n. n) (Date 2024 4 1, 0) [] [past_tx] [(UserId 1, 2024, 3), (UserId 1, 2024, 4)]
        \<lparr>ad_rows = [], ad_draws = 0\<rparr>), db2)"
proof -
  let ?db = "\<lparr>ad_rows = [], ad_draws = 0\<rparr>"
  have "distinct (map alert_key (ad_rows ?db))" by simp
  from alert_job_idempotent [OF prod.collapse [symmetric] this] show ?thesis by blast
qed

section \<open>A long category name\<close>

lemma insert_alerts_overlong:
  assumes "s \<in> set ss" "shift_to_alert_type (sh_type s) \<noteq> None" "varchar 100 (subtype_of s) = None"
  shows "insert_alerts gen u y m now ss db = Inl StorageError"
  using assms(1)
proof (induction ss arbitrary: db)
  case (Cons x ss)
  show ?case
  proof (cases "shift_to_alert_type (sh_type x)")
    case None
    then show ?thesis using Cons assms(2) by auto
  next
    case (Some ty)
    show ?thesis
    proof (cases "insert_alert gen u y m now ty x db")
      case (Inl e)
      then show ?thesis using Some by (auto simp: insert_alert_def Let_def split: option.splits)
    next
      case (Inr d)
      then have "x \<noteq> s" using assms(3) by (auto simp: insert_alert_def)
      then show ?thesis using Cons Some Inr by auto
    qed
  qed
qed simp

lemma detect_periods_append:
  "detect_periods gen now cats txs (ps @ qs) db =
     (case detect_periods gen now cats txs ps db of
        (Some e, d) \<Rightarrow> (Some e, d) | (None, d) \<Rightarrow> detect_periods gen now cats txs qs d)"
  by (induction ps arbitrary: db) (auto split: prod.splits option.splits)

text \<open>A category name is limited to 100 characters but its alert subtype, with the prefix of 15
  characters, has to fit into 100 as well: when a period has an alertworthy spike of a category with a name
  of more than 85 characters, writing the alerts of the period fails, and the job stops there, so that no
  user after this one is looked at.\<close>

theorem long_category_stops_job:
  assumes found: "found_shifts cats txs u y m = Inr ss" and s: "s \<in> set ss" "sh_type s = ''category_spike''"
    and c: "sh_category s = Some c" "85 < length c" "last c \<noteq> CHR '' ''"
    and before: "detect_periods gen now cats txs ps db = (None, db1)"
  shows "detect_periods gen now cats txs (ps @ (u, y, m) # qs) db = (Some StorageError, db1)"
proof -
  have "c \<noteq> []" using c(2) by auto
  then have "subtype_of s = ''category_spike:'' @ c"
    using c(1) s(2) by (simp add: subtype_of_def named_category_def)
  then obtain pre where sub: "subtype_of s = pre @ c" "length pre = 15"
    using that [of "''category_spike:''"] by simp
  have ne: "drop 100 (pre @ c) \<noteq> []" using c(2) sub(2) by simp
  have "last (drop 100 (pre @ c)) = last (pre @ c)" by (rule last_drop) (use c(2) sub(2) in simp)
  also have "\<dots> = last c" using \<open>c \<noteq> []\<close> by simp
  finally have mem: "last c \<in> set (drop 100 (pre @ c))" using last_in_set [OF ne] by (simp only:)
  have "\<not> list_all (\<lambda>c. c = CHR '' '') (drop 100 (pre @ c))"
    unfolding list_all_iff using c(3) mem by blast
  moreover have "100 < length (pre @ c)" using c(2) sub(2) by simp
  ultimately have "varchar 100 (subtype_of s) = None" unfolding varchar_def sub(1) by presburger
  then have "insert_alerts gen u y m now ss db1 = Inl StorageError"
    using s by (intro insert_alerts_overlong [OF s(1)]) (simp_all add: shift_to_alert_type_def)
  then have "detect_for_period gen now cats txs u y m db1 = (Some StorageError, db1)"
    by (simp add: detect_for_period_def detect_shift_alerts_found found)
  then show ?thesis by (simp add: detect_periods_append before)
qed

definition long_name :: string where
  "long_name = replicate 90 (CHR ''x'')"

definition long_category :: category where
  "long_category = \<lparr>cat_id = CategoryId 1, cat_name = long_name, cat_icon = None, cat_color = None,
     cat_is_system = False, cat_user = Some (UserId 1), cat_parent = None, cat_type = CT_EXPENSE,
     cat_created_at = (Date 2024 1 1, 0)\<rparr>"

definition spend :: "int \<Rightarrow> nat \<Rightarrow> transaction" where
  "spend m n = \<lparr>tx_id = TransactionId (nat m), tx_user = UserId 1,
     tx_amount = Money (Dec False n (- 2)) (Currency ''USD'' 2), tx_date = Date 2024 m 1,
     tx_type = TT_EXPENSE, tx_merchant = None, tx_notes = None, tx_category = Some (CategoryId 1),
     tx_created_at = (Date 2024 m 1, 0), tx_updated_at = None, tx_rule = None\<rparr>"

definition long_row :: "nat \<Rightarrow> budget_row" where
  "long_row n = \<lparr>br_amount = Dec False (100 * n) (- 4), br_currency = ''USD'', br_type = ''expense'',
     br_category = Some long_name, br_day = 1\<rparr>"

definition spending :: "transaction list" where
  "spending = [spend 2 10000, spend 3 10000, spend 4 20000]"

lemma long_name_simps [simp]: "long_name \<noteq> []" "length long_name = 90" "last long_name = CHR ''x''"
  by (simp_all add: long_name_def last_replicate)

lemma spend_row: "budget_row_of [long_category] (spend m n) = long_row n"
proof -
  have "\<lfloor>of_nat (100 * n) + 1 / 2 :: rat\<rfloor> = int (100 * n)"
    by (rule floor_unique) simp_all
  then show ?thesis
    by (simp add: budget_row_of_def spend_def long_row_def numeric_column_def dec_val_def pow10_def
        get_category_def long_category_def mult.commute [of _ 100])
qed

lemma spend_fields [simp]: "tx_user (spend m n) = UserId 1" "tx_date (spend m n) = Date 2024 m 1"
  by (simp_all add: spend_def)

lemma spending_months: "months_back 2024 4 n_history_months = [(2024, 3), (2024, 2), (2024, 1)]"
  unfolding n_history_months_def by code_simp

lemma spending_rows:
  "read_month [long_category] spending (UserId 1) 2024 4 = Inr [long_row 20000]"
  "read_history_months [long_category] spending (UserId 1) 2024 4 n_history_months =
     Inr [((2024, 3), [long_row 10000]), ((2024, 2), [long_row 10000]), ((2024, 1), [])]"
proof -
  show "read_month [long_category] spending (UserId 1) 2024 4 = Inr [long_row 20000]"
    by (simp add: read_month_def mk_date_def monthrange_days_def days_in_month_def fetch_budget_rows_def
        spending_def spend_row)
  show "read_history_months [long_category] spending (UserId 1) 2024 4 n_history_months =
     Inr [((2024, 3), [long_row 10000]), ((2024, 2), [long_row 10000]), ((2024, 1), [])]"
    unfolding read_history_months_def spending_months
    by (simp add: n_history_months_def mk_date_def monthrange_days_def days_in_month_def fetch_budget_rows_def
        spending_def spend_row)
qed

definition spend_month :: "int \<Rightarrow> nat \<Rightarrow> monthly_aggregation" where
  "spend_month m n = currency_aggregation 2024 m ''USD'' [long_row n]"

lemma long_row_simps [simp]:
  "br_currency (long_row n) = ''USD''" "br_amount (long_row n) = Dec False (100 * n) (- 4)"
  "is_expense (long_row n)" "\<not> is_income (long_row n)" "labelled (long_row n)" "br_category (long_row n) = Some long_name"
  by (simp_all add: long_row_def is_expense_def is_income_def labelled_def)

lemma aggregate_long_row: "aggregate y m [long_row n] = [currency_aggregation y m ''USD'' [long_row n]]"
  by (simp add: aggregate_by_filter currencies_def in_currency_def)

lemma spend_month_simps:
  assumes "n \<le> 20000"
  shows "ma_income (spend_month m n) = dec_zero" "ma_expenses (spend_month m n) = Dec False (100 * n) (- 4)"
    "ma_savings_rate (spend_month m n) = 0" "ma_currency (spend_month m n) = ''USD''"
    "\<exists>pct. ma_top_categories (spend_month m n) = [(long_name, Dec False (100 * n) (- 4), pct)]"
proof -
  have sum: "dec_add dec_zero (Dec False (100 * n) (- 4)) = Dec False (100 * n) (- 4)"
    using dec_add_four(2) [of 0 "100 * n"] assms by simp
  show "ma_income (spend_month m n) = dec_zero" "ma_expenses (spend_month m n) = Dec False (100 * n) (- 4)"
    "ma_savings_rate (spend_month m n) = 0" "ma_currency (spend_month m n) = ''USD''"
    using sum by (simp_all add: spend_month_def currency_aggregation_def dec_sum_def dec_zero_def dec_val_def Let_def)
  show "\<exists>pct. ma_top_categories (spend_month m n) = [(long_name, Dec False (100 * n) (- 4), pct)]"
    using sum by (simp add: spend_month_def top_categories_def category_totals_def add_to_def)
qed

lemma spending_history:
  "history_aggregations [((2024, 3), [long_row 10000]), ((2024, 2), [long_row 10000]), ((2024, 1), [])] =
     [spend_month 2 10000, spend_month 3 10000]"
  by (simp add: history_aggregations_def aggregate_long_row spend_month_def)

lemma zero_average: "average_of [dec_zero, dec_zero] = Dec False 0 (- 1)"
proof -
  have "mean (map float_of_dec [dec_zero, dec_zero]) = 0"
    by (simp add: mean_def float_of_dec_def dec_val_def dec_zero_def fl_def)
  moreover have "parse_decimal ''0.0'' = Some (Dec False 0 (- 1))"
    by (simp add: parse_decimal_def strip_def is_space_def split_sign_def parse_body_def is_digit_def
        parse_exponent_def digits_val_def digit_val_def Let_def)
  ultimately show ?thesis by (simp add: average_of_def dec_of_float_def float_repr_def)
qed

lemma doubled_change: "relative_change (Dec False 2000000 (- 4)) (Dec False 1000000 (- 4)) = 1"
proof -
  have "dec_sub (Dec False 2000000 (- 4)) (Dec False 1000000 (- 4)) = Dec False 1000000 (- 4)"
    by (simp add: dec_sub_def signed_coeff_def Let_def dec_rounded_exact)
  moreover have "length (nat_str 1000000) = 7" by (simp add: nat_str.simps)
  then have "dec_div (Dec False 1000000 (- 4)) (Dec False 1000000 (- 4)) = Dec False 1 0"
    by (simp add: Let_def dec_prec_def dec_rounded_exact strip_to.simps)
  moreover have "fl 1 = 1" by code_simp
  ultimately show ?thesis by (simp add: relative_change_def float_of_dec_def dec_val_def pow10_def)
qed

definition long_spike :: detected_shift where
  "long_spike = mk_shift ''category_spike'' ''high'' 1 (Some long_name) ''USD'' (Dec False 1000000 (- 4))"

lemma long_spike_detected:
  "long_spike \<in> set (detect default_thresholds (spend_month 4 20000) [spend_month 2 10000, spend_month 3 10000])"
proof -
  obtain p2 p3 p4 where tops:
    "ma_top_categories (spend_month 2 10000) = [(long_name, Dec False 1000000 (- 4), p2)]"
    "ma_top_categories (spend_month 3 10000) = [(long_name, Dec False 1000000 (- 4), p3)]"
    "ma_top_categories (spend_month 4 20000) = [(long_name, Dec False 2000000 (- 4), p4)]"
    using spend_month_simps(5) [of 10000 2] spend_month_simps(5) [of 10000 3] spend_month_simps(5) [of 20000 4]
    by auto
  have "dec_add dec_zero (Dec False 1000000 (- 4)) = Dec False 1000000 (- 4)"
    "dec_add (Dec False 1000000 (- 4)) (Dec False 1000000 (- 4)) = Dec False 2000000 (- 4)"
    using dec_add_four [of 1000000 1000000] by simp_all
  moreover have "length (nat_str 2000000) = 7" "length (nat_str 2) = 1" by (simp_all add: nat_str.simps)
  then have "dec_div (Dec False 2000000 (- 4)) (Dec False (Suc (Suc 0)) 0) = Dec False 1000000 (- 4)"
    unfolding numeral_2_eq_2 [symmetric]
    by (simp add: Let_def dec_prec_def dec_rounded_exact strip_to.simps)
  ultimately have avgs: "avg_categories [spend_month 2 10000, spend_month 3 10000] =
      [(long_name, Dec False 1000000 (- 4))]"
    by (simp add: avg_categories_def tops add_to_def count_of_def dict_get_def dec_of_nat_def Let_def
        del: dec_div.simps dec_add.simps)
  have "fl (40 / 100) < 1" by code_simp
  moreover have "dec_sub (Dec False 2000000 (- 4)) (Dec False 1000000 (- 4)) = Dec False 1000000 (- 4)"
    by (simp add: dec_sub_def signed_coeff_def Let_def dec_rounded_exact)
  ultimately have "category_shifts default_thresholds (spend_month 4 20000) [(long_name, Dec False 1000000 (- 4))]
      (long_name, Dec False 2000000 (- 4), p4) = [long_spike]"
    by (simp add: category_shifts_def doubled_change dec_val_Dec4 default_thresholds_def long_spike_def
        spend_month_simps(4) dec_rounded_exact)
  then show ?thesis by (simp add: detect_def tops avgs Let_def)
qed

lemma long_found:
  "\<exists>ss. found_shifts [long_category] spending (UserId 1) 2024 4 = Inr ss \<and> long_spike \<in> set ss"
proof -
  have "is_alertworthy long_spike"
    by (simp add: is_alertworthy_def long_spike_def dec_val_Dec4 min_amounts_def)
  then show ?thesis
    using long_spike_detected
    by (simp add: found_shifts_def spending_rows spending_history aggregate_long_row Let_def spend_month_simps(4)
        flip: spend_month_def del: One_nat_def)
qed

lemma long_category_stops_job_witness:
  "detect_periods (\<lambda>n. n) (Date 2024 4 2, 0) [long_category] spending [(UserId 1, 2024, 4), (UserId 2, 2024, 4)]
     \<lparr>ad_rows = [], ad_draws = 0\<rparr> = (Some StorageError, \<lparr>ad_rows = [], ad_draws = 0\<rparr>)"
proof -
  obtain ss where ss: "found_shifts [long_category] spending (UserId 1) 2024 4 = Inr ss" "long_spike \<in> set ss"
    using long_found by blast
  show ?thesis
    using long_category_stops_job [OF ss, of long_name "\<lambda>n. n" "(Date 2024 4 2, 0)" "[]"
      "\<lparr>ad_rows = [], ad_draws = 0\<rparr>" _ "[(UserId 2, 2024, 4)]"]
    by (simp add: long_spike_def)
qed

end
