(* ===== verification/Outbox.thy ===== *)
theory Outbox
  imports Values PyStr "HOL-Library.Product_Lexorder"
begin

text \<open>The transactional outbox: the rows of outbox_events, SqlaOutboxRepository.append, the relay
  OutboxPoller and the maintenance operation SqlaOutboxAdmin.requeue_failed with its script.  The
  broker and the commit of a row's transaction are parameters indexed by the number of publish
  attempts made so far, so that they may succeed or fail differently each time.  The first part
  runs one poller; the last part interleaves the database steps of several.\<close>

type_synonym outbox_id = nat

record outbox_event =
  oe_event_type :: string
  oe_aggregate_id :: string
  oe_payload :: string
  oe_occurred_at :: timestamp
  oe_user :: uuid

record outbox_row =
  ob_id :: outbox_id
  ob_event_type :: string
  ob_aggregate_id :: string
  ob_payload :: string
  ob_status :: outbox_status
  ob_occurred_at :: timestamp
  ob_created_at :: timestamp
  ob_user :: "uuid option"
  ob_retry_count :: nat
  ob_last_error :: "string option"
  ob_failed_at :: "timestamp option"

record outbox_message =
  om_event_id :: string
  om_event_type :: string
  om_aggregate_id :: string
  om_user :: "string option"
  om_payload :: string
  om_occurred_at :: timestamp

definition append_event :: "outbox_event \<Rightarrow> outbox_id \<Rightarrow> timestamp \<Rightarrow> outbox_row list \<Rightarrow> outbox_row list" where
  "append_event e new_id now rows =
     rows @ [\<lparr>ob_id = new_id, ob_event_type = oe_event_type e, ob_aggregate_id = oe_aggregate_id e,
              ob_payload = oe_payload e, ob_status = OS_PENDING, ob_occurred_at = oe_occurred_at e,
              ob_created_at = now, ob_user = Some (oe_user e), ob_retry_count = 0,
              ob_last_error = None, ob_failed_at = None\<rparr>]"

definition build_message :: "outbox_row \<Rightarrow> outbox_message" where
  "build_message r =
     \<lparr>om_event_id = uuid_str (ob_id r), om_event_type = ob_event_type r,
      om_aggregate_id = ob_aggregate_id r, om_user = map_option uuid_str (ob_user r),
      om_payload = ob_payload r, om_occurred_at = ob_occurred_at r\<rparr>"

section \<open>The statements of the poller\<close>

definition update_row :: "outbox_id \<Rightarrow> (outbox_row \<Rightarrow> outbox_row) \<Rightarrow> outbox_row list \<Rightarrow> outbox_row list" where
  "update_row i f rows = map (\<lambda>r. if ob_id r = i then f r else r) rows"

definition snapshot_pending_ids :: "nat \<Rightarrow> outbox_row list \<Rightarrow> outbox_id list" where
  "snapshot_pending_ids batch_size rows =
     map ob_id (take batch_size (sort_key ob_created_at (filter (\<lambda>r. ob_status r = OS_PENDING) rows)))"

definition lock_row :: "outbox_id \<Rightarrow> outbox_row list \<Rightarrow> outbox_row option" where
  "lock_row i rows = find_by (\<lambda>r. ob_id r = i \<and> ob_status r = OS_PENDING) rows"

definition mark_failed ::
  "outbox_id \<Rightarrow> string \<Rightarrow> nat option \<Rightarrow> timestamp \<Rightarrow> outbox_row list \<Rightarrow> outbox_row list" where
  "mark_failed i err count now rows =
     update_row i (\<lambda>r. r\<lparr>ob_status := OS_FAILED, ob_last_error := Some (take 1000 err),
         ob_failed_at := Some now,
         ob_retry_count := (case count of None \<Rightarrow> ob_retry_count r | Some c \<Rightarrow> c)\<rparr>) rows"

definition mark_sent :: "outbox_id \<Rightarrow> outbox_row list \<Rightarrow> outbox_row list" where
  "mark_sent i rows = update_row i (\<lambda>r. r\<lparr>ob_status := OS_SENT\<rparr>) rows"

text \<open>The row is read again by its id only: its status is not looked at.\<close>

definition record_failure ::
  "nat \<Rightarrow> outbox_id \<Rightarrow> string \<Rightarrow> timestamp \<Rightarrow> outbox_row list \<Rightarrow> outbox_row list" where
  "record_failure max_retries i err now rows =
     (case find_by (\<lambda>r. ob_id r = i) rows of
        None \<Rightarrow> rows
      | Some r \<Rightarrow>
          (let new_count = ob_retry_count r + 1
           in if new_count \<ge> max_retries then mark_failed i err (Some new_count) now rows
              else update_row i (\<lambda>r. r\<lparr>ob_retry_count := new_count,
                                     ob_last_error := Some (take 1000 err)\<rparr>) rows))"

section \<open>run_once\<close>

record relay =
  rl_rows :: "outbox_row list"
  rl_published :: "(outbox_message \<times> string) list"
  rl_attempts :: nat

record poller_config =
  pc_topic_map :: "(string \<times> string) list"
  pc_batch_size :: nat
  pc_max_retries :: nat

text \<open>\<open>broker n msg topic\<close> is the error of the n-th publish, if any; \<open>commits n\<close> says whether the row's
  transaction then commits.\<close>

definition process_one ::
  "poller_config \<Rightarrow> (nat \<Rightarrow> outbox_message \<Rightarrow> string \<Rightarrow> string option) \<Rightarrow> (nat \<Rightarrow> bool) \<Rightarrow> timestamp \<Rightarrow>
     outbox_id \<Rightarrow> relay \<Rightarrow> bool \<times> relay" where
  "process_one cfg broker commits now i w =
     (case lock_row i (rl_rows w) of
        None \<Rightarrow> (False, w)
      | Some row \<Rightarrow>
          (case map_of (pc_topic_map cfg) (ob_event_type row) of
             None \<Rightarrow>
               (False, w\<lparr>rl_rows := mark_failed i (''no topic for '' @ ob_event_type row) None now (rl_rows w)\<rparr>)
           | Some topic \<Rightarrow>
               (let msg = build_message row; n = rl_attempts w; w' = w\<lparr>rl_attempts := n + 1\<rparr>
                in case broker n msg topic of
                     Some err \<Rightarrow>
                       (False, w'\<lparr>rl_rows := record_failure (pc_max_retries cfg) i err now (rl_rows w)\<rparr>)
                   | None \<Rightarrow>
                       (let w'' = w'\<lparr>rl_published := rl_published w @ [(msg, topic)]\<rparr>
                        in if commits n then (True, w''\<lparr>rl_rows := mark_sent i (rl_rows w)\<rparr>)
                           else (False, w''\<lparr>rl_rows :=
                                   record_failure (pc_max_retries cfg) i ''commit failed'' now (rl_rows w)\<rparr>)))))"

fun process_ids ::
  "poller_config \<Rightarrow> (nat \<Rightarrow> outbox_message \<Rightarrow> string \<Rightarrow> string option) \<Rightarrow> (nat \<Rightarrow> bool) \<Rightarrow> timestamp \<Rightarrow>
     outbox_id list \<Rightarrow> relay \<Rightarrow> nat \<times> relay" where
  "process_ids cfg broker commits now [] w = (0, w)"
| "process_ids cfg broker commits now (i # is) w =
     (let (ok, w') = process_one cfg broker commits now i w;
          (n, w'') = process_ids cfg broker commits now is w'
      in (if ok then n + 1 else n, w''))"

definition run_once ::
  "poller_config \<Rightarrow> (nat \<Rightarrow> outbox_message \<Rightarrow> string \<Rightarrow> string option) \<Rightarrow> (nat \<Rightarrow> bool) \<Rightarrow> timestamp \<Rightarrow>
     relay \<Rightarrow> nat \<times> relay" where
  "run_once cfg broker commits now w =
     process_ids cfg broker commits now (snapshot_pending_ids (pc_batch_size cfg) (rl_rows w)) w"

section \<open>SqlaOutboxAdmin.requeue_failed\<close>

definition requeue_targets ::
  "outbox_id list option \<Rightarrow> string option \<Rightarrow> timestamp option \<Rightarrow> nat option \<Rightarrow> outbox_row list \<Rightarrow> outbox_id list"
  where
  "requeue_targets ids event_type failed_before limit rows =
     (let hits = filter (\<lambda>r. ob_status r = OS_FAILED
            \<and> (case ids of None \<Rightarrow> True | Some is \<Rightarrow> ob_id r \<in> set is)
            \<and> (case event_type of None \<Rightarrow> True | Some t \<Rightarrow> ob_event_type r = t)
            \<and> (case failed_before of None \<Rightarrow> True
               | Some t \<Rightarrow> (case ob_failed_at r of None \<Rightarrow> False | Some f \<Rightarrow> f < t))) rows;
          sorted = sort_key (\<lambda>r. case ob_failed_at r of None \<Rightarrow> (1::nat, 0) | Some f \<Rightarrow> (0, f)) hits
      in map ob_id (case limit of None \<Rightarrow> sorted | Some n \<Rightarrow> take n sorted))"

definition requeue_failed ::
  "outbox_id list option \<Rightarrow> string option \<Rightarrow> timestamp option \<Rightarrow> nat option \<Rightarrow> bool \<Rightarrow> outbox_row list \<Rightarrow>
     outbox_id list \<times> outbox_row list" where
  "requeue_failed ids event_type failed_before limit dry_run rows =
     (let targets = requeue_targets ids event_type failed_before limit rows
      in if dry_run \<or> targets = [] then (targets, rows)
         else (targets, map (\<lambda>r. if ob_id r \<in> set targets
                               then r\<lparr>ob_status := OS_PENDING, ob_retry_count := 0,
                                      ob_last_error := None, ob_failed_at := None\<rparr>
                               else r) rows))"

text \<open>scripts/replay_outbox.py refuses to run without a selector.\<close>

record replay_args =
  ra_ids :: "outbox_id list"
  ra_event_type :: "string option"
  ra_min_age_minutes :: nat
  ra_limit :: "nat option"
  ra_all :: bool
  ra_dry_run :: bool

definition replay_outbox :: "replay_args \<Rightarrow> timestamp \<Rightarrow> outbox_row list \<Rightarrow> (outbox_id list \<times> outbox_row list) option"
  where
  "replay_outbox args now rows =
     (if ra_ids args = [] \<and> (ra_event_type args = None \<or> ra_event_type args = Some []) \<and> \<not> ra_all args
      then None
      else Some (requeue_failed (if ra_ids args = [] then None else Some (ra_ids args))
             (ra_event_type args)
             (if ra_min_age_minutes args = 0 then None
              else Some (now - int (ra_min_age_minutes args) * 60000000))
             (ra_limit args) (ra_dry_run args) rows))"

section \<open>Rows keep their identity\<close>

lemma update_row_ids: "(\<And>r. ob_id (f r) = ob_id r) \<Longrightarrow> map ob_id (update_row i f rows) = map ob_id rows"
  by (simp add: update_row_def)

definition recorded_row :: "nat \<Rightarrow> string \<Rightarrow> timestamp \<Rightarrow> outbox_row \<Rightarrow> outbox_row" where
  "recorded_row mx err now r =
     (if ob_retry_count r + 1 \<ge> mx
      then r\<lparr>ob_status := OS_FAILED, ob_last_error := Some (take 1000 err), ob_failed_at := Some now,
             ob_retry_count := ob_retry_count r + 1\<rparr>
      else r\<lparr>ob_retry_count := ob_retry_count r + 1, ob_last_error := Some (take 1000 err)\<rparr>)"

lemma unique_row: "distinct (map ob_id rows) \<Longrightarrow> r \<in> set rows \<Longrightarrow> x \<in> set rows \<Longrightarrow> ob_id x = ob_id r \<Longrightarrow> x = r"
  by (meson distinct_map inj_onD)

lemma update_unique:
  assumes "distinct (map ob_id rows)" "r \<in> set rows" "ob_id r = i"
  shows "update_row i f rows = map (\<lambda>x. if ob_id x = i then f r else x) rows"
  using unique_row [OF assms(1,2)] assms(3) by (simp add: update_row_def)

lemma record_failure_row:
  assumes "distinct (map ob_id rows)" "r \<in> set rows" "ob_id r = i"
  shows "record_failure mx i err now rows = map (\<lambda>x. if ob_id x = i then recorded_row mx err now r else x) rows"
proof -
  obtain q where q: "find_by (\<lambda>r. ob_id r = i) rows = Some q"
    using assms(2,3) find_by_None [of "\<lambda>r. ob_id r = i" rows]
    by (cases "find_by (\<lambda>r. ob_id r = i) rows") auto
  then have "q \<in> set rows" "ob_id q = ob_id r" using find_by_Some [OF q] assms(3) by auto
  then have "q = r" by (rule unique_row [OF assms(1,2)])
  then show ?thesis
    using q by (simp add: record_failure_def mark_failed_def update_unique [OF assms] recorded_row_def Let_def)
qed

lemma lock_row_Some:
  "lock_row i rows = Some r \<Longrightarrow> r \<in> set rows \<and> ob_id r = i \<and> ob_status r = OS_PENDING"
  unfolding lock_row_def by (drule find_by_Some) simp

text \<open>One call of \<open>process_one\<close> rewrites at most the locked row, to one of four results.\<close>

definition row_result :: "poller_config \<Rightarrow> outbox_row \<Rightarrow> outbox_row \<Rightarrow> bool" where
  "row_result cfg r r' =
     (ob_id r' = ob_id r \<and> build_message r' = build_message r \<and> ob_event_type r' = ob_event_type r \<and>
      (case ob_status r' of
         OS_SENT \<Rightarrow> ob_retry_count r' = ob_retry_count r
       | OS_PENDING \<Rightarrow> ob_retry_count r' = ob_retry_count r + 1 \<and> ob_retry_count r' < pc_max_retries cfg
       | OS_FAILED \<Rightarrow> (ob_retry_count r' = ob_retry_count r \<and> map_of (pc_topic_map cfg) (ob_event_type r) = None)
           \<or> (ob_retry_count r' = ob_retry_count r + 1 \<and> pc_max_retries cfg \<le> ob_retry_count r')))"

lemma process_one_skip:
  "lock_row i (rl_rows w) = None \<Longrightarrow> process_one cfg broker commits now i w = (False, w)"
  by (simp add: process_one_def)

lemma process_one_row:
  assumes "distinct (map ob_id (rl_rows w))" "process_one cfg broker commits now i w = (ok, w')"
    and lock: "lock_row i (rl_rows w) = Some r"
  shows "\<exists>r' pub. row_result cfg r r' \<and>
       rl_rows w' = map (\<lambda>x. if ob_id x = i then r' else x) (rl_rows w) \<and>
       rl_published w' = rl_published w @ pub \<and> (ok \<longleftrightarrow> ob_status r' = OS_SENT) \<and>
       (pub = [] \<or> (\<exists>topic. map_of (pc_topic_map cfg) (ob_event_type r) = Some topic \<and>
                    pub = [(build_message r, topic)])) \<and>
       (pub = [] \<longrightarrow> ob_status r' \<noteq> OS_SENT) \<and>
       (pub \<noteq> [] \<longrightarrow> ob_status r' = OS_SENT \<or> ob_retry_count r' = ob_retry_count r + 1)"
proof -
  have r: "r \<in> set (rl_rows w)" "ob_id r = i" "ob_status r = OS_PENDING"
    using lock_row_Some [OF lock] by auto
  note upd = update_unique [OF assms(1) r(1,2)] and rec = record_failure_row [OF assms(1) r(1,2)]
  have recorded: "row_result cfg r (recorded_row (pc_max_retries cfg) err now r)"
    "ob_status (recorded_row (pc_max_retries cfg) err now r) \<noteq> OS_SENT"
    "ob_retry_count (recorded_row (pc_max_retries cfg) err now r) = ob_retry_count r + 1" for err
    using r(3) by (auto simp: row_result_def recorded_row_def build_message_def)
  show ?thesis
  proof (cases "map_of (pc_topic_map cfg) (ob_event_type r)")
    case None
    define r' where "r' = r\<lparr>ob_status := OS_FAILED, ob_last_error := Some (take 1000 (''no topic for '' @ ob_event_type r)),
        ob_failed_at := Some now\<rparr>"
    have "row_result cfg r r'" using None by (simp add: row_result_def r'_def build_message_def)
    moreover have "w' = w\<lparr>rl_rows := map (\<lambda>x. if ob_id x = i then r' else x) (rl_rows w)\<rparr>" "\<not> ok"
      using assms(2) lock None by (auto simp: process_one_def mark_failed_def upd r'_def simp del: take_Cons')
    ultimately show ?thesis
      by (intro exI [of _ r'] exI [of _ "[]"]) (simp add: r'_def)
  next
    case topic: (Some topic)
    show ?thesis
    proof (cases "broker (rl_attempts w) (build_message r) topic")
      case (Some err)
      have "\<not> ok" "w' = w\<lparr>rl_attempts := rl_attempts w + 1, rl_rows := map (\<lambda>x. if ob_id x = i
          then recorded_row (pc_max_retries cfg) err now r else x) (rl_rows w)\<rparr>"
        using assms(2) lock topic Some
        by (simp_all add: process_one_def rec Let_def)
      then show ?thesis
        using recorded [of err]
        by (intro exI [of _ "recorded_row (pc_max_retries cfg) err now r"]
            exI [of _ "[]"]) simp
    next
      case None
      note sent = lock topic None
      show ?thesis
      proof (cases "commits (rl_attempts w)")
        case True
        define r' where "r' = r\<lparr>ob_status := OS_SENT\<rparr>"
        have "ok" "rl_rows w' = map (\<lambda>x. if ob_id x = i then r' else x) (rl_rows w)"
          "rl_published w' = rl_published w @ [(build_message r, topic)]"
          using assms(2) sent True by (auto simp: process_one_def mark_sent_def upd r'_def Let_def)
        moreover have "row_result cfg r r'" by (simp add: row_result_def r'_def build_message_def)
        ultimately show ?thesis
          using sent by (intro exI [of _ r'] exI [of _ "[(build_message r, topic)]"])
            (simp add: r'_def)
      next
        case False
        have "\<not> ok" "rl_rows w' = map (\<lambda>x. if ob_id x = i
            then recorded_row (pc_max_retries cfg) ''commit failed'' now r else x) (rl_rows w)"
          "rl_published w' = rl_published w @ [(build_message r, topic)]"
          using assms(2) sent False by (auto simp: process_one_def rec Let_def)
        then show ?thesis
          using sent recorded [of "''commit failed''"]
          by (intro exI [of _ "recorded_row (pc_max_retries cfg) ''commit failed'' now r"]
              exI [of _ "[(build_message r, topic)]"]) simp
      qed
    qed
  qed
qed

section \<open>Invariant of the relay\<close>

definition pub_count :: "outbox_id \<Rightarrow> (outbox_message \<times> string) list \<Rightarrow> nat" where
  "pub_count i pub = length (filter (\<lambda>p. om_event_id (fst p) = uuid_str i) pub)"

definition row_inv :: "poller_config \<Rightarrow> (outbox_message \<times> string) list \<Rightarrow> outbox_row \<Rightarrow> bool" where
  "row_inv cfg pub r =
     (ob_id r < 2 ^ 128 \<and> ob_retry_count r \<le> pc_max_retries cfg \<and>
      (ob_status r = OS_PENDING \<longrightarrow> ob_retry_count r < pc_max_retries cfg) \<and>
      (ob_status r = OS_SENT \<longrightarrow> ob_retry_count r < pc_max_retries cfg \<and>
         (\<exists>topic. map_of (pc_topic_map cfg) (ob_event_type r) = Some topic \<and> (build_message r, topic) \<in> set pub)) \<and>
      pub_count (ob_id r) pub \<le> ob_retry_count r + (if ob_status r = OS_SENT then 1 else 0))"

definition relay_inv :: "poller_config \<Rightarrow> relay \<Rightarrow> bool" where
  "relay_inv cfg w = (distinct (map ob_id (rl_rows w)) \<and>
     (\<forall>r\<in>set (rl_rows w). row_inv cfg (rl_published w) r))"

lemma row_inv_other:
  assumes "row_inv cfg pub x" "ob_id x \<noteq> ob_id r" "ob_id r < 2 ^ 128"
    and "extra = [] \<or> (\<exists>topic. extra = [(build_message r, topic)])"
  shows "row_inv cfg (pub @ extra) x"
proof -
  have "ob_id x < 2 ^ 128" using assms(1) unfolding row_inv_def by (rule conjunct1)
  then have "uuid_str (ob_id r) \<noteq> uuid_str (ob_id x)"
    using uuid_str_inj [OF assms(3), of "ob_id x"] assms(2) by metis
  then have "pub_count (ob_id x) (pub @ extra) = pub_count (ob_id x) pub"
    using assms(4) by (auto simp: pub_count_def build_message_def)
  then show ?thesis using assms(1) by (auto simp: row_inv_def)
qed

lemma row_inv_result:
  assumes "row_inv cfg pub r" "ob_status r = OS_PENDING" "row_result cfg r r'"
    and "extra = [] \<or> (\<exists>topic. map_of (pc_topic_map cfg) (ob_event_type r) = Some topic \<and>
                    extra = [(build_message r, topic)])"
    and "extra = [] \<longrightarrow> ob_status r' \<noteq> OS_SENT"
    and "extra \<noteq> [] \<longrightarrow> ob_status r' = OS_SENT \<or> ob_retry_count r' = ob_retry_count r + 1"
  shows "row_inv cfg (pub @ extra) r'"
proof -
  have same: "ob_id r' = ob_id r" "build_message r' = build_message r" "ob_event_type r' = ob_event_type r"
    using assms(3) by (auto simp: row_result_def)
  have c: "pub_count (ob_id r) (pub @ extra) \<le> ob_retry_count r + (if extra = [] then 0 else 1)"
    using assms(1,2,4) by (auto simp: row_inv_def pub_count_def)
  have sent: "ob_status r' = OS_SENT \<Longrightarrow> \<exists>topic. map_of (pc_topic_map cfg) (ob_event_type r') = Some topic \<and>
      (build_message r', topic) \<in> set (pub @ extra)"
    using assms(4,5) same by auto
  show ?thesis
    using assms(1-3,5,6) c sent unfolding row_inv_def row_result_def same
    by (cases "ob_status r'"; cases "extra = []") auto
qed

lemma process_one_inv:
  assumes "relay_inv cfg w" "process_one cfg broker commits now i w = (ok, w')"
  shows "relay_inv cfg w'"
proof (cases "lock_row i (rl_rows w)")
  case None
  then show ?thesis using assms process_one_skip [OF None, of cfg broker commits now] by simp
next
  case (Some r)
  have d: "distinct (map ob_id (rl_rows w))" using assms(1) by (simp add: relay_inv_def)
  obtain r' pub where res: "row_result cfg r r'"
    and rows: "rl_rows w' = map (\<lambda>x. if ob_id x = i then r' else x) (rl_rows w)"
    and pub: "rl_published w' = rl_published w @ pub"
      "pub = [] \<or> (\<exists>topic. map_of (pc_topic_map cfg) (ob_event_type r) = Some topic \<and>
                    pub = [(build_message r, topic)])"
      "pub = [] \<longrightarrow> ob_status r' \<noteq> OS_SENT"
      "pub \<noteq> [] \<longrightarrow> ob_status r' = OS_SENT \<or> ob_retry_count r' = ob_retry_count r + 1"
    using process_one_row [OF d assms(2) Some] by blast
  have r: "r \<in> set (rl_rows w)" "ob_id r = i" "ob_status r = OS_PENDING"
    using lock_row_Some [OF Some] by auto
  have inv: "row_inv cfg (rl_published w) x" if "x \<in> set (rl_rows w)" for x
    using assms(1) that by (simp add: relay_inv_def)
  have ri: "ob_id r < 2 ^ 128" using inv [OF r(1)] unfolding row_inv_def by (rule conjunct1)
  have pub': "pub = [] \<or> (\<exists>topic. pub = [(build_message r, topic)])" using pub(2) by blast
  have "map ob_id (rl_rows w') = map ob_id (rl_rows w)"
    using res r(2) unfolding rows by (auto simp: row_result_def)
  then have "distinct (map ob_id (rl_rows w'))" using d by simp
  moreover have "row_inv cfg (rl_published w') r'"
    unfolding pub(1) by (rule row_inv_result [OF inv [OF r(1)] r(3) res pub(2-4)])
  moreover have "row_inv cfg (rl_published w') x" if x: "x \<in> set (rl_rows w)" "ob_id x \<noteq> i" for x
  proof -
    have "ob_id x \<noteq> ob_id r" using x(2) r(2) by simp
    then show ?thesis unfolding pub(1) by (rule row_inv_other [OF inv [OF x(1)] _ ri pub'])
  qed
  ultimately show ?thesis unfolding relay_inv_def by (auto simp: rows)
qed

lemma process_ids_inv:
  "relay_inv cfg w \<Longrightarrow> relay_inv cfg (snd (process_ids cfg broker commits now is w))"
proof (induction "is" arbitrary: w)
  case (Cons i "is")
  obtain ok w1 where "process_one cfg broker commits now i w = (ok, w1)" by fastforce
  then show ?case
    using Cons.IH [OF process_one_inv [OF Cons.prems]] by (auto simp: case_prod_unfold Let_def)
qed simp

lemma run_once_inv: "relay_inv cfg w \<Longrightarrow> relay_inv cfg (snd (run_once cfg broker commits now w))"
  by (simp add: run_once_def process_ids_inv)

inductive relay_reach ::
  "poller_config \<Rightarrow> (nat \<Rightarrow> outbox_message \<Rightarrow> string \<Rightarrow> string option) \<Rightarrow> (nat \<Rightarrow> bool) \<Rightarrow> relay \<Rightarrow> bool"
  for cfg broker commits where
  start: "relay_reach cfg broker commits \<lparr>rl_rows = [], rl_published = [], rl_attempts = 0\<rparr>"
| append: "relay_reach cfg broker commits w \<Longrightarrow> i < 2 ^ 128 \<Longrightarrow> i \<notin> ob_id ` set (rl_rows w) \<Longrightarrow>
    uuid_str i \<notin> (om_event_id \<circ> fst) ` set (rl_published w) \<Longrightarrow>
    relay_reach cfg broker commits (w\<lparr>rl_rows := append_event e i now (rl_rows w)\<rparr>)"
| poll: "relay_reach cfg broker commits w \<Longrightarrow>
    relay_reach cfg broker commits (snd (run_once cfg broker commits now w))"

lemma relay_reach_inv:
  "relay_reach cfg broker commits w \<Longrightarrow> 0 < pc_max_retries cfg \<Longrightarrow> relay_inv cfg w"
proof (induction rule: relay_reach.induct)
  case start
  then show ?case by (simp add: relay_inv_def)
next
  case (append w i e now)
  have "pub_count i (rl_published w) = 0"
    using append.hyps(4) by (force simp: pub_count_def filter_empty_conv)
  then show ?case
    using append by (auto simp: relay_inv_def append_event_def row_inv_def)
qed (simp add: run_once_inv)

section \<open>The queue drains\<close>

definition row_debt :: "nat \<Rightarrow> outbox_row \<Rightarrow> nat" where
  "row_debt mx r = (if ob_status r = OS_PENDING then mx - ob_retry_count r else 0)"

definition debt :: "nat \<Rightarrow> outbox_row list \<Rightarrow> nat" where
  "debt mx rows = sum_list (map (row_debt mx) rows)"

lemma sum_replace_row:
  assumes "distinct (map ob_id rows)" "r \<in> set rows"
  shows "sum_list (map g (map (\<lambda>x. if ob_id x = ob_id r then r' else x) rows)) + g r =
    sum_list (map g rows) + (g r' :: nat)"
proof -
  obtain xs ys where rows: "rows = xs @ r # ys" using assms(2) by (meson split_list)
  then have "ob_id x \<noteq> ob_id r" if "x \<in> set xs \<union> set ys" for x
    using assms(1) that by (auto simp: image_iff)
  then have "map (\<lambda>x. if ob_id x = ob_id r then r' else x) xs = xs"
    "map (\<lambda>x. if ob_id x = ob_id r then r' else x) ys = ys"
    by (auto intro!: map_idI)
  then show ?thesis by (simp add: rows)
qed

lemma process_one_progress:
  assumes "relay_inv cfg w" "process_one cfg broker commits now i w = (ok, w')"
  shows "debt (pc_max_retries cfg) (rl_rows w') \<le> debt (pc_max_retries cfg) (rl_rows w)"
    and "lock_row i (rl_rows w) \<noteq> None \<Longrightarrow>
      debt (pc_max_retries cfg) (rl_rows w') < debt (pc_max_retries cfg) (rl_rows w)"
    and "length (filter (\<lambda>r. ob_status r = OS_SENT) (rl_rows w')) =
      length (filter (\<lambda>r. ob_status r = OS_SENT) (rl_rows w)) + (if ok then 1 else 0)"
    and "r0 \<in> set (rl_rows w) \<Longrightarrow> ob_status r0 \<noteq> OS_PENDING \<Longrightarrow> r0 \<in> set (rl_rows w')"
proof -
  let ?m = "pc_max_retries cfg" and ?sent = "\<lambda>r. if ob_status r = OS_SENT then 1 else 0 :: nat"
  have d: "distinct (map ob_id (rl_rows w))" using assms(1) by (simp add: relay_inv_def)
  have len: "length (filter (\<lambda>r. ob_status r = OS_SENT) rs) = sum_list (map ?sent rs)" for rs
    by (induction rs) auto
  have "debt ?m (rl_rows w') \<le> debt ?m (rl_rows w) \<and>
    (lock_row i (rl_rows w) \<noteq> None \<longrightarrow> debt ?m (rl_rows w') < debt ?m (rl_rows w)) \<and>
    sum_list (map ?sent (rl_rows w')) = sum_list (map ?sent (rl_rows w)) + (if ok then 1 else 0) \<and>
    (r0 \<in> set (rl_rows w) \<longrightarrow> ob_status r0 \<noteq> OS_PENDING \<longrightarrow> r0 \<in> set (rl_rows w'))"
  proof (cases "lock_row i (rl_rows w)")
    case None
    then show ?thesis using assms(2) process_one_skip [OF None, of cfg broker commits now] by simp
  next
    case (Some r)
    have r: "r \<in> set (rl_rows w)" "ob_id r = i" "ob_status r = OS_PENDING"
      using lock_row_Some [OF Some] by auto
    obtain r' where r': "row_result cfg r r'"
      "rl_rows w' = map (\<lambda>x. if ob_id x = ob_id r then r' else x) (rl_rows w)"
      "ok \<longleftrightarrow> ob_status r' = OS_SENT"
      using process_one_row [OF d assms(2) Some] r(2) by blast
    have lt: "ob_retry_count r < ?m" using assms(1) r(1,3) by (simp add: relay_inv_def row_inv_def)
    have "row_debt ?m r' < row_debt ?m r"
      using r'(1) r(3) lt by (cases "ob_status r'") (auto simp: row_debt_def row_result_def)
    then have "debt ?m (rl_rows w') < debt ?m (rl_rows w)"
      using sum_replace_row [OF d r(1), of "row_debt ?m" r'] by (simp add: debt_def r'(2))
    moreover have "sum_list (map ?sent (rl_rows w')) = sum_list (map ?sent (rl_rows w)) + (if ok then 1 else 0)"
      using sum_replace_row [OF d r(1), of ?sent r'] r(3) r'(2,3) by simp
    moreover have "r0 \<in> set (rl_rows w')" if "r0 \<in> set (rl_rows w)" "ob_status r0 \<noteq> OS_PENDING"
    proof -
      have "ob_id r0 \<noteq> ob_id r" using that r unique_row [OF d r(1) that(1)] by auto
      then show ?thesis using that(1) by (force simp: r'(2))
    qed
    ultimately show ?thesis by simp
  qed
  then show "debt ?m (rl_rows w') \<le> debt ?m (rl_rows w)"
    "lock_row i (rl_rows w) \<noteq> None \<Longrightarrow> debt ?m (rl_rows w') < debt ?m (rl_rows w)"
    "length (filter (\<lambda>r. ob_status r = OS_SENT) (rl_rows w')) =
      length (filter (\<lambda>r. ob_status r = OS_SENT) (rl_rows w)) + (if ok then 1 else 0)"
    "r0 \<in> set (rl_rows w) \<Longrightarrow> ob_status r0 \<noteq> OS_PENDING \<Longrightarrow> r0 \<in> set (rl_rows w')"
    unfolding len by blast+
qed

lemma process_ids_progress:
  assumes "relay_inv cfg w" "process_ids cfg broker commits now is w = (n, w')"
  shows "debt (pc_max_retries cfg) (rl_rows w') \<le> debt (pc_max_retries cfg) (rl_rows w)"
    and "is \<noteq> [] \<Longrightarrow> lock_row (hd is) (rl_rows w) \<noteq> None \<Longrightarrow>
      debt (pc_max_retries cfg) (rl_rows w') < debt (pc_max_retries cfg) (rl_rows w)"
    and "length (filter (\<lambda>r. ob_status r = OS_SENT) (rl_rows w')) =
      length (filter (\<lambda>r. ob_status r = OS_SENT) (rl_rows w)) + n"
    and "r0 \<in> set (rl_rows w) \<Longrightarrow> ob_status r0 \<noteq> OS_PENDING \<Longrightarrow> r0 \<in> set (rl_rows w')"
proof -
  have "debt (pc_max_retries cfg) (rl_rows w') \<le> debt (pc_max_retries cfg) (rl_rows w) \<and>
    (is \<noteq> [] \<longrightarrow> lock_row (hd is) (rl_rows w) \<noteq> None \<longrightarrow>
      debt (pc_max_retries cfg) (rl_rows w') < debt (pc_max_retries cfg) (rl_rows w)) \<and>
    length (filter (\<lambda>r. ob_status r = OS_SENT) (rl_rows w')) =
      length (filter (\<lambda>r. ob_status r = OS_SENT) (rl_rows w)) + n \<and>
    (r0 \<in> set (rl_rows w) \<longrightarrow> ob_status r0 \<noteq> OS_PENDING \<longrightarrow> r0 \<in> set (rl_rows w'))"
    using assms
  proof (induction "is" arbitrary: w n)
    case (Cons i "is")
    obtain ok w1 where p: "process_one cfg broker commits now i w = (ok, w1)" by fastforce
    obtain k w2 where q: "process_ids cfg broker commits now is w1 = (k, w2)" by fastforce
    have w': "w' = w2" "n = (if ok then k + 1 else k)"
      using Cons.prems(2) p q by (auto simp: Let_def)
    note first = process_one_progress [OF Cons.prems(1) p]
    note rest = Cons.IH [OF process_one_inv [OF Cons.prems(1) p], of k]
    have "ob_status r0 \<noteq> OS_PENDING \<Longrightarrow> r0 \<in> set (rl_rows w1) \<Longrightarrow> r0 \<in> set (rl_rows w2)"
      using rest q w'(1) by simp
    then show ?case using first rest q w' by (auto intro: le_less_trans le_trans)
  qed simp
  then show "debt (pc_max_retries cfg) (rl_rows w') \<le> debt (pc_max_retries cfg) (rl_rows w)"
    "is \<noteq> [] \<Longrightarrow> lock_row (hd is) (rl_rows w) \<noteq> None \<Longrightarrow>
      debt (pc_max_retries cfg) (rl_rows w') < debt (pc_max_retries cfg) (rl_rows w)"
    "length (filter (\<lambda>r. ob_status r = OS_SENT) (rl_rows w')) =
      length (filter (\<lambda>r. ob_status r = OS_SENT) (rl_rows w)) + n"
    "r0 \<in> set (rl_rows w) \<Longrightarrow> ob_status r0 \<noteq> OS_PENDING \<Longrightarrow> r0 \<in> set (rl_rows w')"
    by blast+
qed

definition pending_rows :: "outbox_row list \<Rightarrow> outbox_row list" where
  "pending_rows rows = filter (\<lambda>r. ob_status r = OS_PENDING) rows"

lemma snapshot_head:
  assumes "pending_rows rows \<noteq> []" "0 < n"
  shows "snapshot_pending_ids n rows \<noteq> []" "lock_row (hd (snapshot_pending_ids n rows)) rows \<noteq> None"
proof -
  let ?s = "take n (sort_key ob_created_at (filter (\<lambda>r. ob_status r = OS_PENDING) rows))"
  have "sort_key ob_created_at (filter (\<lambda>r. ob_status r = OS_PENDING) rows) \<noteq> []"
    using assms(1) by (metis pending_rows_def set_empty set_sort)
  then have s: "?s \<noteq> []" using assms(2) by simp
  then show "snapshot_pending_ids n rows \<noteq> []" by (simp only: snapshot_pending_ids_def map_is_Nil_conv simp_thms)
  have "hd ?s \<in> set ?s" using s by (rule hd_in_set)
  then have "hd ?s \<in> set rows" "ob_status (hd ?s) = OS_PENDING"
    by (auto dest!: in_set_takeD)
  then show "lock_row (hd (snapshot_pending_ids n rows)) rows \<noteq> None"
    using s by (auto simp: snapshot_pending_ids_def lock_row_def find_by_None hd_map)
qed

fun run_many ::
  "poller_config \<Rightarrow> (nat \<Rightarrow> outbox_message \<Rightarrow> string \<Rightarrow> string option) \<Rightarrow> (nat \<Rightarrow> bool) \<Rightarrow> (nat \<Rightarrow> timestamp) \<Rightarrow>
     nat \<Rightarrow> relay \<Rightarrow> relay" where
  "run_many cfg broker commits clock 0 w = w"
| "run_many cfg broker commits clock (Suc n) w =
     run_many cfg broker commits clock n (snd (run_once cfg broker commits (clock n) w))"

lemma debt_pending:
  assumes "relay_inv cfg w"
  shows "debt (pc_max_retries cfg) (rl_rows w) = 0 \<longleftrightarrow> pending_rows (rl_rows w) = []"
    and "debt (pc_max_retries cfg) (rl_rows w) \<le> pc_max_retries cfg * length (pending_rows (rl_rows w))"
proof -
  have "\<forall>r\<in>set (rl_rows w). ob_status r = OS_PENDING \<longrightarrow> ob_retry_count r < pc_max_retries cfg"
    using assms by (auto simp: relay_inv_def row_inv_def)
  then have "row_debt (pc_max_retries cfg) r = 0 \<longleftrightarrow> ob_status r \<noteq> OS_PENDING" if "r \<in> set (rl_rows w)" for r
    using that by (auto simp: row_debt_def)
  then show "debt (pc_max_retries cfg) (rl_rows w) = 0 \<longleftrightarrow> pending_rows (rl_rows w) = []"
    by (simp add: debt_def pending_rows_def filter_empty_conv)
  have "sum_list (map (row_debt m) rows) \<le> m * length (filter (\<lambda>r. ob_status r = OS_PENDING) rows)" for m rows
    by (induction rows) (auto simp: row_debt_def)
  then show "debt (pc_max_retries cfg) (rl_rows w) \<le> pc_max_retries cfg * length (pending_rows (rl_rows w))"
    by (simp add: debt_def pending_rows_def)
qed

lemma run_once_debt:
  assumes "relay_inv cfg w" "0 < pc_batch_size cfg"
  shows "debt (pc_max_retries cfg) (rl_rows (snd (run_once cfg broker commits now w))) \<le>
    debt (pc_max_retries cfg) (rl_rows w) - 1"
proof -
  obtain n w' where p: "process_ids cfg broker commits now
      (snapshot_pending_ids (pc_batch_size cfg) (rl_rows w)) w = (n, w')" by fastforce
  show ?thesis
  proof (cases "pending_rows (rl_rows w) = []")
    case True
    then show ?thesis
      using debt_pending(1) [OF assms(1)] process_ids_progress(1) [OF assms(1) p] by (simp add: run_once_def p)
  next
    case False
    then show ?thesis
      using process_ids_progress(2) [OF assms(1) p] snapshot_head [OF False assms(2)] by (simp add: run_once_def p)
  qed
qed

lemma run_many_debt:
  assumes "relay_inv cfg w" "0 < pc_batch_size cfg"
  shows "relay_inv cfg (run_many cfg broker commits clock n w) \<and>
    debt (pc_max_retries cfg) (rl_rows (run_many cfg broker commits clock n w)) \<le>
      debt (pc_max_retries cfg) (rl_rows w) - n"
  using assms(1)
proof (induction n arbitrary: w)
  case (Suc n)
  have "relay_inv cfg (snd (run_once cfg broker commits (clock n) w))"
    using Suc.prems by (rule run_once_inv)
  note ih = Suc.IH [OF this] and one = run_once_debt [OF Suc.prems assms(2), of broker commits "clock n"]
  show ?case
    unfolding run_many.simps
  proof (rule conjI [OF conjunct1 [OF ih]])
    show "debt (pc_max_retries cfg) (rl_rows (run_many cfg broker commits clock n
        (snd (run_once cfg broker commits (clock n) w)))) \<le> debt (pc_max_retries cfg) (rl_rows w) - Suc n"
      using conjunct2 [OF ih] one by linarith
  qed
qed simp

section \<open>Several pollers\<close>

text \<open>A worker's call of \<open>process_one\<close> is three database steps: locking the row (skipping locked
  rows), the end of that transaction, and, after an exception, the separate transaction of
  \<open>record_failure\<close>, which waits for the row's lock.\<close>

datatype worker_phase = Idle | Publishing outbox_id | Recording outbox_id string

record relay_pool =
  rp_rows :: "outbox_row list"
  rp_published :: "(outbox_message \<times> string) list"
  rp_workers :: "nat \<Rightarrow> worker_phase"

definition locked :: "relay_pool \<Rightarrow> outbox_id \<Rightarrow> bool" where
  "locked w i = (\<exists>k. rp_workers w k = Publishing i)"

inductive pool_step :: "poller_config \<Rightarrow> relay_pool \<Rightarrow> relay_pool \<Rightarrow> bool" for cfg where
  lock: "rp_workers w k = Idle \<Longrightarrow> \<not> locked w i \<Longrightarrow> lock_row i (rp_rows w) = Some r \<Longrightarrow>
    pool_step cfg w (w\<lparr>rp_workers := (rp_workers w)(k := Publishing i)\<rparr>)"
| sent: "rp_workers w k = Publishing i \<Longrightarrow> lock_row i (rp_rows w) = Some r \<Longrightarrow>
    map_of (pc_topic_map cfg) (ob_event_type r) = Some topic \<Longrightarrow>
    pool_step cfg w (w\<lparr>rp_rows := mark_sent i (rp_rows w),
      rp_published := rp_published w @ [(build_message r, topic)],
      rp_workers := (rp_workers w)(k := Idle)\<rparr>)"
| failed: "rp_workers w k = Publishing i \<Longrightarrow>
    pool_step cfg w (w\<lparr>rp_workers := (rp_workers w)(k := Recording i err)\<rparr>)"
| recorded: "rp_workers w k = Recording i err \<Longrightarrow> \<not> locked w i \<Longrightarrow>
    pool_step cfg w (w\<lparr>rp_rows := record_failure (pc_max_retries cfg) i err now (rp_rows w),
      rp_workers := (rp_workers w)(k := Idle)\<rparr>)"

inductive pool_steps :: "poller_config \<Rightarrow> relay_pool \<Rightarrow> relay_pool \<Rightarrow> bool" for cfg where
  none: "pool_steps cfg w w"
| more: "pool_step cfg w w' \<Longrightarrow> pool_steps cfg w' w'' \<Longrightarrow> pool_steps cfg w w''"

inductive_cases pool_stepE: "pool_step cfg w w'"

lemma pool_step_exclusive:
  assumes "pool_step cfg w w'"
    and "\<forall>j k i. rp_workers w j = Publishing i \<and> rp_workers w k = Publishing i \<longrightarrow> j = k"
  shows "\<forall>j k i. rp_workers w' j = Publishing i \<and> rp_workers w' k = Publishing i \<longrightarrow> j = k"
  using assms(1)
proof cases
  case (lock k i r)
  then show ?thesis using assms(2) by (auto simp: locked_def)
qed (use assms(2) in auto)

section \<open>Properties\<close>


definition sample_config :: poller_config where
  "sample_config = \<lparr>pc_topic_map = [(''InsightRequested'', ''insights'')], pc_batch_size = 10, pc_max_retries = 5\<rparr>"

definition sample_event :: outbox_event where
  "sample_event = \<lparr>oe_event_type = ''InsightRequested'', oe_aggregate_id = ''a'', oe_payload = [],
     oe_occurred_at = 0, oe_user = 3\<rparr>"

definition sample_relay :: relay where
  "sample_relay = \<lparr>rl_rows = append_event sample_event 1 0 [], rl_published = [], rl_attempts = 0\<rparr>"

lemma sample_relay_reach: "relay_reach sample_config broker commits sample_relay"
  using relay_reach.append [OF relay_reach.start, of 1 sample_config broker commits sample_event 0]
  by (simp add: sample_relay_def)

lemma sample_relay_sent:
  "rl_rows (snd (run_once sample_config (\<lambda>_ _ _. None) (\<lambda>_. True) 0 sample_relay)) =
     mark_sent 1 (rl_rows sample_relay)"
  by (simp add: run_once_def snapshot_pending_ids_def sample_relay_def sample_config_def append_event_def
      sample_event_def process_one_def lock_row_def mark_sent_def update_row_def Let_def)


text \<open>C27 The queue drains: with a positive batch size, after \<open>max_retries\<close> runs per pending row no row
  of the backlog is pending, even when every publish fails.\<close>

theorem queue_drains:
  assumes "relay_inv cfg w" "0 < pc_batch_size cfg"
  shows "pending_rows (rl_rows (run_many cfg broker commits clock
    (pc_max_retries cfg * length (pending_rows (rl_rows w))) w)) = []"
proof -
  let ?n = "pc_max_retries cfg * length (pending_rows (rl_rows w))"
  let ?w = "run_many cfg broker commits clock ?n w"
  have "relay_inv cfg ?w \<and> debt (pc_max_retries cfg) (rl_rows ?w) \<le> debt (pc_max_retries cfg) (rl_rows w) - ?n"
    by (rule run_many_debt [OF assms])
  then have "debt (pc_max_retries cfg) (rl_rows ?w) = 0" "relay_inv cfg ?w"
    using debt_pending(2) [OF assms(1)] by auto
  then show ?thesis using debt_pending(1) by blast
qed

lemma sample_relay_inv: "relay_inv sample_config sample_relay"
  by (rule relay_reach_inv [OF sample_relay_reach]) (simp add: sample_config_def)

lemma queue_drains_witness:
  "pending_rows (rl_rows (run_many sample_config (\<lambda>_ _ _. Some ''down'') (\<lambda>_. True) (\<lambda>_. 0)
     (5 * length (pending_rows (rl_rows sample_relay))) sample_relay)) = []"
  using queue_drains [OF sample_relay_inv, of "\<lambda>_ _ _. Some ''down''" "\<lambda>_. True" "\<lambda>_. 0"]
  by (simp add: sample_config_def)

text \<open>A run of one poller never touches a row that is already SENT or FAILED, and the number it
  returns is the number of rows it has turned SENT.\<close>

theorem run_once_settles:
  assumes "relay_inv cfg w" "run_once cfg broker commits now w = (n, w')"
  shows "(\<forall>r\<in>set (rl_rows w). ob_status r \<noteq> OS_PENDING \<longrightarrow> r \<in> set (rl_rows w')) \<and>
    length (filter (\<lambda>r. ob_status r = OS_SENT) (rl_rows w')) =
      length (filter (\<lambda>r. ob_status r = OS_SENT) (rl_rows w)) + n"
  using process_ids_progress(3,4) [OF assms(1) assms(2) [unfolded run_once_def]] by blast

lemma run_once_settles_witness:
  "length (filter (\<lambda>r. ob_status r = OS_SENT) (rl_rows (snd (run_once sample_config (\<lambda>_ _ _. None)
     (\<lambda>_. True) 0 sample_relay)))) = fst (run_once sample_config (\<lambda>_ _ _. None) (\<lambda>_. True) 0 sample_relay)"
proof -
  obtain n w' where r: "run_once sample_config (\<lambda>_ _ _. None) (\<lambda>_. True) 0 sample_relay = (n, w')"
    by fastforce
  have "filter (\<lambda>r. ob_status r = OS_SENT) (rl_rows sample_relay) = []"
    by (simp add: sample_relay_def append_event_def)
  then show ?thesis using run_once_settles [OF sample_relay_inv r] r by simp
qed

text \<open>The maintenance operation returns at most \<open>limit\<close> ids, all of FAILED rows; it turns exactly
  those rows back to PENDING with a fresh retry budget and leaves every other row, SENT rows
  included, as it was; a dry run changes nothing.\<close>

theorem requeue_touches_failed_only:
  assumes "requeue_failed ids ty before limit dry rows = (targets, rows')" "distinct (map ob_id rows)"
  shows "(\<forall>i\<in>set targets. \<exists>r\<in>set rows. ob_id r = i \<and> ob_status r = OS_FAILED) \<and>
    (\<forall>n. limit = Some n \<longrightarrow> length targets \<le> n) \<and>
    (if dry then rows' = rows
     else rows' = map (\<lambda>r. if ob_id r \<in> set targets
         then r\<lparr>ob_status := OS_PENDING, ob_retry_count := 0, ob_last_error := None, ob_failed_at := None\<rparr>
         else r) rows \<and>
       (\<forall>r\<in>set rows. ob_status r \<noteq> OS_FAILED \<longrightarrow> r \<in> set rows'))"
proof -
  have t: "targets = requeue_targets ids ty before limit rows"
    using assms(1) by (auto simp: requeue_failed_def Let_def split: if_splits)
  have failed: "\<exists>r\<in>set rows. ob_id r = i \<and> ob_status r = OS_FAILED" if "i \<in> set targets" for i
  proof -
    define hits where "hits = filter (\<lambda>r. ob_status r = OS_FAILED
            \<and> (case ids of None \<Rightarrow> True | Some is \<Rightarrow> ob_id r \<in> set is)
            \<and> (case ty of None \<Rightarrow> True | Some t \<Rightarrow> ob_event_type r = t)
            \<and> (case before of None \<Rightarrow> True
               | Some t \<Rightarrow> (case ob_failed_at r of None \<Rightarrow> False | Some f \<Rightarrow> f < t))) rows"
    have "set targets \<subseteq> ob_id ` set hits"
      unfolding t requeue_targets_def Let_def hits_def [symmetric]
      by (cases limit) (auto dest!: in_set_takeD)
    then obtain r where "r \<in> set hits" "ob_id r = i" using \<open>i \<in> set targets\<close> by blast
    then show ?thesis by (auto simp: hits_def)
  qed
  have len: "length targets \<le> n" if "limit = Some n" for n
    using that by (simp add: t requeue_targets_def Let_def)
  show ?thesis
  proof (cases dry)
    case True
    then show ?thesis using assms(1) failed len by (auto simp: requeue_failed_def Let_def)
  next
    case False
    then have rows': "rows' = map (\<lambda>r. if ob_id r \<in> set targets
         then r\<lparr>ob_status := OS_PENDING, ob_retry_count := 0, ob_last_error := None, ob_failed_at := None\<rparr>
         else r) rows"
      using assms(1) by (auto simp: requeue_failed_def Let_def split: if_splits)
    have "r \<in> set rows'" if r: "r \<in> set rows" "ob_status r \<noteq> OS_FAILED" for r
    proof -
      have "ob_id r \<notin> set targets"
      proof
        assume "ob_id r \<in> set targets"
        then obtain q where "q \<in> set rows" "ob_id q = ob_id r" "ob_status q = OS_FAILED"
          using failed by blast
        then show False using unique_row [OF assms(2) r(1)] r(2) by auto
      qed
      then show ?thesis using r(1) by (force simp: rows')
    qed
    then show ?thesis using False failed len rows' by auto
  qed
qed

definition failed_sample :: "outbox_row list" where
  "failed_sample = mark_failed 1 ''down'' (Some 5) 7 (append_event sample_event 1 0 [])"

lemma requeue_touches_failed_only_witness:
  "fst (requeue_failed None None None (Some 1) False failed_sample) = [1] \<and>
   length (fst (requeue_failed None None None (Some 1) False failed_sample)) \<le> 1"
proof -
  have "distinct (map ob_id failed_sample)"
    by (simp add: failed_sample_def mark_failed_def update_row_def append_event_def)
  then show ?thesis
    using requeue_touches_failed_only [of None None None "Some 1" False failed_sample
      "fst (requeue_failed None None None (Some 1) False failed_sample)"
      "snd (requeue_failed None None None (Some 1) False failed_sample)"]
    by (simp add: failed_sample_def mark_failed_def update_row_def append_event_def requeue_failed_def
        requeue_targets_def Let_def)
qed

definition pool_start :: relay_pool where
  "pool_start = \<lparr>rp_rows = map (\<lambda>r. r\<lparr>ob_retry_count := 4\<rparr>) (append_event sample_event 1 0 []),
     rp_published = [], rp_workers = (\<lambda>_. Idle)\<rparr>"

text \<open>With two pollers a row can be published, committed as SENT, and afterwards turned FAILED: the
  poller whose earlier attempt failed records that failure without looking at the row's status, and
  the operator's requeue would then publish the message again.\<close>

theorem late_failure_overwrites_sent:
  "\<exists>w1 w2. pool_steps sample_config pool_start w1 \<and> pool_steps sample_config w1 w2 \<and>
     map ob_status (rp_rows w1) = [OS_SENT] \<and> length (rp_published w1) = 1 \<and>
     map ob_status (rp_rows w2) = [OS_FAILED] \<and>
     fst (requeue_failed None None None None False (rp_rows w2)) = [1]"
proof -
  define r where "r = hd (rp_rows pool_start)"
  let ?w0 = "pool_start\<lparr>rp_workers := (\<lambda>_. Idle)(0 := Publishing 1)\<rparr>"
  let ?w1 = "pool_start\<lparr>rp_workers := (\<lambda>_. Idle)(0 := Recording 1 ''timeout'')\<rparr>"
  let ?w2 = "pool_start\<lparr>rp_workers := ((\<lambda>_. Idle)(0 := Recording 1 ''timeout''))(1 := Publishing 1)\<rparr>"
  let ?w3 = "pool_start\<lparr>rp_rows := mark_sent 1 (rp_rows pool_start),
    rp_published := [(build_message r, ''insights'')],
    rp_workers := ((\<lambda>_. Idle)(0 := Recording 1 ''timeout'')) (1 := Publishing 1, 1 := Idle)\<rparr>"
  let ?w4 = "pool_start\<lparr>rp_rows := record_failure 5 1 ''timeout'' 9 (mark_sent 1 (rp_rows pool_start)),
    rp_published := [(build_message r, ''insights'')],
    rp_workers := (\<lambda>_. Idle)(0 := Recording 1 ''timeout'', 1 := Publishing 1, 1 := Idle, 0 := Idle)\<rparr>"
  have l: "lock_row 1 (rp_rows pool_start) = Some r"
    by (simp add: lock_row_def pool_start_def append_event_def r_def)
  have s0: "pool_step sample_config pool_start ?w0"
    using pool_step.lock [of pool_start 0 1 r sample_config] l by (simp add: pool_start_def locked_def)
  have s1: "pool_step sample_config ?w0 ?w1"
    using pool_step.failed [of ?w0 0 1 sample_config "''timeout''"] by simp
  have s2: "pool_step sample_config ?w1 ?w2"
    using pool_step.lock [of ?w1 1 1 r sample_config] l by (simp add: locked_def)
  have s3: "pool_step sample_config ?w2 ?w3"
    using pool_step.sent [of ?w2 1 1 r sample_config "''insights''"] l
    by (simp add: sample_config_def pool_start_def r_def append_event_def sample_event_def)
  have s4: "pool_step sample_config ?w3 ?w4"
  proof -
    have "rp_workers ?w3 0 = Recording 1 ''timeout''" "\<not> locked ?w3 1" by (auto simp: locked_def)
    moreover have "?w4 = ?w3\<lparr>rp_rows := record_failure (pc_max_retries sample_config) 1 ''timeout'' 9 (rp_rows ?w3),
        rp_workers := (rp_workers ?w3)(0 := Idle)\<rparr>"
      by (simp add: sample_config_def pool_start_def)
    ultimately show ?thesis using pool_step.recorded [of ?w3 0 1 "''timeout''" sample_config 9] by simp
  qed
  have "pool_steps sample_config pool_start ?w3"
    by (rule pool_steps.more [OF s0], rule pool_steps.more [OF s1], rule pool_steps.more [OF s2],
        rule pool_steps.more [OF s3], rule pool_steps.none)
  moreover have "pool_steps sample_config ?w3 ?w4"
    by (rule pool_steps.more [OF s4], rule pool_steps.none)
  moreover have "map ob_status (rp_rows ?w3) = [OS_SENT]" "map ob_status (rp_rows ?w4) = [OS_FAILED]"
    "fst (requeue_failed None None None None False (rp_rows ?w4)) = [1]" "length (rp_published ?w3) = 1"
    by (simp_all add: pool_start_def append_event_def mark_sent_def update_row_def record_failure_def
        mark_failed_def requeue_failed_def requeue_targets_def Let_def)
  ultimately show ?thesis
    by (intro exI [of _ ?w3] exI [of _ ?w4] conjI)
qed

end
