(* ===== verification/Insights.thy ===== *)
theory Insights
  imports Shifts Outbox
begin

text \<open>Insights: the entity and its status machine, the table with SqlaInsightRepository, the request use
  case, and the worker's steps (claim, build the context, complete, record a failure), each of which is a
  transaction of its own.  The AI client is a parameter, and so is the text an exception is recorded with.
  The mapper of mappings/insight.py knows neither \<open>processing_deadline\<close> nor \<open>retry_count\<close>, although
  the entity and the table have both: an entity is stored and loaded without them.\<close>

section \<open>The entity\<close>

record insight =
  in_id :: insight_id
  in_user :: user_id
  in_period :: period
  in_year :: int
  in_month :: int
  in_status :: insight_status
  in_quality :: "context_quality option"
  in_title :: "string option"
  in_description :: "string option"
  in_impact :: "int option"
  in_generated_at :: "datetime option"
  in_error :: "string option"
  in_created_at :: datetime
  in_updated_at :: "datetime option"
  in_summary :: "budget_snapshot option"
  in_deadline :: "datetime option"
  in_retry :: nat

definition mark_queued :: "insight \<Rightarrow> exn + insight" where
  "mark_queued i = (if in_status i \<noteq> IS_PENDING then Inl ValueError else Inr (i\<lparr>in_status := IS_QUEUED\<rparr>))"

definition mark_processing :: "datetime option \<Rightarrow> insight \<Rightarrow> exn + insight" where
  "mark_processing deadline i =
     (if in_status i \<noteq> IS_QUEUED then Inl ValueError
      else (let i' = i\<lparr>in_status := IS_PROCESSING\<rparr>
            in Inr (case deadline of None \<Rightarrow> i' | Some d \<Rightarrow> i'\<lparr>in_deadline := Some d\<rparr>)))"

record insight_response =
  re_title :: string
  re_description :: string
  re_impact :: int
  re_prompt_tokens :: nat
  re_completion_tokens :: nat

definition mark_completed ::
  "insight_response \<Rightarrow> context_quality \<Rightarrow> datetime \<Rightarrow> budget_snapshot option \<Rightarrow> insight \<Rightarrow> exn + insight" where
  "mark_completed r quality now summary i =
     (if in_status i \<noteq> IS_PROCESSING then Inl ValueError
      else if \<not> (1 \<le> re_impact r \<and> re_impact r \<le> 10) then Inl ValueError
      else Inr (i\<lparr>in_status := IS_COMPLETED, in_title := Some (re_title r),
             in_description := Some (re_description r), in_impact := Some (re_impact r),
             in_quality := Some quality, in_generated_at := Some now, in_summary := summary\<rparr>))"

definition mark_insight_failed :: "string \<Rightarrow> insight \<Rightarrow> exn + insight" where
  "mark_insight_failed err i =
     (if in_status i \<noteq> IS_PROCESSING then Inl ValueError
      else Inr (i\<lparr>in_status := IS_FAILED, in_error := Some err\<rparr>))"

section \<open>The table and SqlaInsightRepository\<close>

record insight_row =
  ir_insight :: insight
  ir_deadline :: "datetime option"
  ir_retry :: nat

definition mapped :: "insight \<Rightarrow> insight" where
  "mapped i = i\<lparr>in_deadline := None, in_retry := 0\<rparr>"

definition row_id :: "insight_row \<Rightarrow> insight_id" where
  "row_id r = in_id (ir_insight r)"

definition row_status :: "insight_row \<Rightarrow> insight_status" where
  "row_status r = in_status (ir_insight r)"

text \<open>\<open>session.merge\<close> of an entity followed by the commit: an UPDATE of the mapped columns, or an INSERT
  that leaves the other columns to their defaults.\<close>

definition save_insight :: "insight \<Rightarrow> insight_row list \<Rightarrow> insight_row list" where
  "save_insight i rows =
     (if in_id i \<in> row_id ` set rows
      then map (\<lambda>r. if row_id r = in_id i then r\<lparr>ir_insight := mapped i\<rparr> else r) rows
      else rows @ [\<lparr>ir_insight = mapped i, ir_deadline = None, ir_retry = 0\<rparr>])"

definition find_insight :: "insight_id \<Rightarrow> user_id \<Rightarrow> insight_row list \<Rightarrow> insight option" where
  "find_insight i u rows =
     map_option ir_insight (find_by (\<lambda>r. row_id r = i \<and> in_user (ir_insight r) = u) rows)"

definition claim_for_processing ::
  "insight_id \<Rightarrow> user_id \<Rightarrow> datetime \<Rightarrow> insight_row list \<Rightarrow> exn + insight \<times> insight_row list" where
  "claim_for_processing i u deadline rows =
     (case find_insight i u rows of
        None \<Rightarrow> Inl InsightNotFoundError
      | Some x \<Rightarrow>
          if in_status x \<noteq> IS_QUEUED then Inl (InsightAlreadyTerminalError (in_status x))
          else bindR (mark_processing None x) (\<lambda>x'.
                 (let x'' = x'\<lparr>in_deadline := Some deadline\<rparr> in Inr (x'', save_insight x'' rows))))"

text \<open>The reaper works on the columns in SQL; a comparison with NULL is not true.\<close>

definition lease_expired :: "datetime \<Rightarrow> insight_row \<Rightarrow> bool" where
  "lease_expired now r \<longleftrightarrow> row_status r = IS_PROCESSING \<and>
     (case ir_deadline r of None \<Rightarrow> False | Some d \<Rightarrow> d < now)"

record reaped_insight =
  rp_insight :: insight_id
  rp_user :: user_id
  rp_period :: period
  rp_year :: int
  rp_month :: int

definition reaped_of :: "insight_row \<Rightarrow> reaped_insight" where
  "reaped_of r = \<lparr>rp_insight = row_id r, rp_user = in_user (ir_insight r), rp_period = in_period (ir_insight r),
     rp_year = in_year (ir_insight r), rp_month = in_month (ir_insight r)\<rparr>"

definition requeued_row :: "datetime \<Rightarrow> insight_row \<Rightarrow> insight_row" where
  "requeued_row now r = r\<lparr>ir_insight := (ir_insight r)\<lparr>in_status := IS_QUEUED, in_updated_at := Some now\<rparr>,
     ir_retry := ir_retry r + 1, ir_deadline := None\<rparr>"

definition exhausted_row :: "datetime \<Rightarrow> insight_row \<Rightarrow> insight_row" where
  "exhausted_row now r = r\<lparr>ir_insight := (ir_insight r)\<lparr>in_status := IS_FAILED,
     in_error := Some ''max retries exceeded'', in_updated_at := Some now\<rparr>\<rparr>"

definition reap_expired_processing ::
  "nat \<Rightarrow> datetime \<Rightarrow> insight_row list \<Rightarrow> exn + reaped_insight list \<times> nat \<times> insight_row list" where
  "reap_expired_processing max_retries now rows =
     (if max_retries < 1 then Inl ValueError
      else (let again = (\<lambda>r. lease_expired now r \<and> ir_retry r < max_retries);
                rows' = map (\<lambda>r. if again r then requeued_row now r else r) rows;
                spent = (\<lambda>r. lease_expired now r \<and> max_retries \<le> ir_retry r)
            in Inr (map reaped_of (filter again rows), length (filter spent rows'),
                    map (\<lambda>r. if spent r then exhausted_row now r else r) rows')))"

section \<open>Events\<close>

definition micros :: "datetime \<Rightarrow> timestamp" where
  "micros t = toordinal (fst t) * 86400000000 + snd t"

definition json_pair :: "string \<Rightarrow> string \<Rightarrow> string" where
  "json_pair k v = [CHR 34] @ k @ [CHR 34] @ '': '' @ v"

definition quoted :: "string \<Rightarrow> string" where
  "quoted s = [CHR 34] @ s @ [CHR 34]"

definition id_str :: "insight_id \<Rightarrow> string" where
  "id_str i = (case i of InsightId n \<Rightarrow> uuid_str n)"

definition user_str :: "user_id \<Rightarrow> string" where
  "user_str u = (case u of UserId n \<Rightarrow> uuid_str n)"

definition insight_requested :: "insight_id \<Rightarrow> user_id \<Rightarrow> period \<Rightarrow> int \<Rightarrow> int \<Rightarrow> datetime \<Rightarrow> outbox_event" where
  "insight_requested i u p y m now =
     \<lparr>oe_event_type = ''InsightRequested'', oe_aggregate_id = id_str i,
      oe_payload = ''{'' @ join '', '' [json_pair ''insight_id'' (quoted (id_str i)),
        json_pair ''user_id'' (quoted (user_str u)), json_pair ''period'' (quoted (period_value p)),
        json_pair ''period_year'' (int_str y), json_pair ''period_month'' (int_str m)] @ ''}'',
      oe_occurred_at = micros now, oe_user = (case u of UserId n \<Rightarrow> n)\<rparr>"

text \<open>One tick of the reaper: the requeued insights are announced again.\<close>

fun append_reaped ::
  "(nat \<Rightarrow> outbox_id) \<Rightarrow> datetime \<Rightarrow> reaped_insight list \<Rightarrow> outbox_row list \<Rightarrow> outbox_row list" where
  "append_reaped gen now [] out = out"
| "append_reaped gen now (r # rs) out =
     append_reaped gen now rs
       (append_event (insight_requested (rp_insight r) (rp_user r) (rp_period r) (rp_year r) (rp_month r) now)
          (gen (length out)) (micros now) out)"

definition reaper_tick ::
  "(nat \<Rightarrow> outbox_id) \<Rightarrow> datetime \<Rightarrow> nat \<Rightarrow> insight_row list \<times> outbox_row list \<Rightarrow>
     exn + insight_row list \<times> outbox_row list" where
  "reaper_tick gen now max_retries s =
     bindR (reap_expired_processing max_retries now (fst s)) (\<lambda>(requeued, exhausted, rows).
       Inr (rows, append_reaped gen now requeued (snd s)))"

section \<open>RequestInsightUseCase\<close>

record request_insight_command =
  rc_user :: user_id
  rc_period :: period
  rc_year :: int
  rc_month :: int

definition count_for_period :: "transaction list \<Rightarrow> user_id \<Rightarrow> int \<Rightarrow> int \<Rightarrow> nat" where
  "count_for_period txs u year month =
     length (filter (\<lambda>t. tx_user t = u \<and> date_year (tx_date t) = year \<and> date_month (tx_date t) = month) txs)"

definition min_transactions :: nat where "min_transactions = 3"

definition new_insight :: "insight_id \<Rightarrow> request_insight_command \<Rightarrow> datetime \<Rightarrow> insight" where
  "new_insight i cmd now =
     \<lparr>in_id = i, in_user = rc_user cmd, in_period = rc_period cmd, in_year = rc_year cmd, in_month = rc_month cmd,
      in_status = IS_PENDING, in_quality = None, in_title = None, in_description = None, in_impact = None,
      in_generated_at = None, in_error = None, in_created_at = now, in_updated_at = None, in_summary = None,
      in_deadline = None, in_retry = 0\<rparr>"

definition request_insight ::
  "(user_id \<Rightarrow> plan) \<Rightarrow> transaction list \<Rightarrow> insight_id \<Rightarrow> outbox_id \<Rightarrow> datetime \<Rightarrow> request_insight_command \<Rightarrow>
     insight_row list \<times> outbox_row list \<Rightarrow> exn + insight_id \<times> insight_row list \<times> outbox_row list" where
  "request_insight plan_of txs new_id event_id now cmd s =
     bindR (check_quota (\<lambda>r. in_user (ir_insight r)) (\<lambda>r. in_created_at (ir_insight r)) Q_INSIGHTS (rc_user cmd)
              (plan_of (rc_user cmd)) now (fst s)) (\<lambda>_.
     (let n = count_for_period txs (rc_user cmd) (rc_year cmd) (rc_month cmd)
      in if n < min_transactions then Inl (InsufficientTransactionsError n min_transactions)
         else bindR (mark_queued (new_insight new_id cmd now)) (\<lambda>i.
           Inr (new_id, save_insight i (fst s),
                append_event (insight_requested new_id (rc_user cmd) (rc_period cmd) (rc_year cmd) (rc_month cmd) now)
                  event_id (micros now) (snd s)))))"

section \<open>The worker's steps\<close>

record claimed_insight =
  cl_period :: period
  cl_year :: int
  cl_month :: int

definition lease_deadline :: "datetime \<Rightarrow> nat \<Rightarrow> exn + datetime" where
  "lease_deadline now minutes =
     (let t = snd now + int minutes * 60000000
      in bindR (add_days (fst now) (nat (t div 86400000000))) (\<lambda>d. Inr (d, t mod 86400000000)))"

definition claim_insight ::
  "insight_id \<Rightarrow> user_id \<Rightarrow> nat \<Rightarrow> datetime \<Rightarrow> insight_row list \<Rightarrow> exn + claimed_insight \<times> insight_row list" where
  "claim_insight i u lease_minutes now rows =
     bindR (lease_deadline now lease_minutes) (\<lambda>deadline.
     bindR (claim_for_processing i u deadline rows) (\<lambda>(x, rows').
       Inr (\<lparr>cl_period = in_period x, cl_year = in_year x, cl_month = in_month x\<rparr>, rows')))"

record context_chunk =
  ch_content :: string
  ch_type :: string
  ch_label :: string
  ch_year :: int
  ch_month :: int
  ch_shifts :: "shift_metadata list"

record assembled_context =
  ac_chunks :: "context_chunk list"
  ac_quality :: context_quality

definition period_label :: "int \<Rightarrow> int \<Rightarrow> string" where
  "period_label y m = int_str y @ ''-'' @ (if 0 \<le> m \<and> m < 10 then ''0'' @ int_str m else int_str m)"

definition build_insight_context ::
  "category list \<Rightarrow> transaction list \<Rightarrow> user_id \<Rightarrow> int \<Rightarrow> int \<Rightarrow> exn + assembled_context" where
  "build_insight_context cats txs u year month =
     bindR (read_month cats txs u year month) (\<lambda>rows.
       if rows = [] then Inr \<lparr>ac_chunks = [], ac_quality = CQ_NONE\<rparr>
       else bindR (read_history_months cats txs u year month n_history_months) (\<lambda>raw.
         (let current = aggregate year month rows;
              history = history_aggregations raw;
              summary = \<lparr>ch_content = format_monthly_summary current, ch_type = ''monthly_summary'',
                ch_label = period_label year month, ch_year = year, ch_month = month, ch_shifts = []\<rparr>
          in case current of
               [] \<Rightarrow> Inr \<lparr>ac_chunks = [summary], ac_quality = CQ_PARTIAL\<rparr>
             | primary # _ \<Rightarrow>
                 (let shifts = detect default_thresholds primary
                        (filter (\<lambda>h. ma_currency h = ma_currency primary) history)
                  in Inr (if shifts = [] then \<lparr>ac_chunks = [summary], ac_quality = CQ_PARTIAL\<rparr>
                     else \<lparr>ac_chunks = [summary,
                             \<lparr>ch_content = format_shift_text primary shifts, ch_type = ''behavioral_shift'',
                              ch_label = period_label year month, ch_year = year, ch_month = month,
                              ch_shifts = map to_metadata shifts\<rparr>], ac_quality = CQ_FULL\<rparr>)))))"

definition complete_insight ::
  "category list \<Rightarrow> transaction list \<Rightarrow> insight_id \<Rightarrow> user_id \<Rightarrow> insight_response \<Rightarrow> context_quality \<Rightarrow>
     int \<Rightarrow> int \<Rightarrow> datetime \<Rightarrow> insight_row list \<Rightarrow> exn + insight_row list" where
  "complete_insight cats txs i u response quality year month now rows =
     bindR (read_month cats txs u year month) (\<lambda>budget.
       case find_insight i u rows of
         None \<Rightarrow> Inl InsightNotFoundError
       | Some fresh \<Rightarrow>
           bindR (mark_completed response quality now (aggregate_rows budget) fresh) (\<lambda>fresh'.
             Inr (save_insight fresh' rows)))"

text \<open>An error while the failure is recorded is logged and swallowed.\<close>

definition record_insight_failure :: "insight_id \<Rightarrow> user_id \<Rightarrow> string \<Rightarrow> insight_row list \<Rightarrow> insight_row list" where
  "record_insight_failure i u err rows =
     (case find_insight i u rows of
        None \<Rightarrow> rows
      | Some fresh \<Rightarrow> (case mark_insight_failed err fresh of Inl _ \<Rightarrow> rows | Inr fresh' \<Rightarrow> save_insight fresh' rows))"

section \<open>ProcessInsightUseCase\<close>

record insight_ai_request =
  ai_period :: period
  ai_year :: int
  ai_month :: int
  ai_chunks :: "context_chunk list"
  ai_cache_key :: "string option"

record process_result =
  pr_quality :: context_quality
  pr_terminal_skip :: bool

definition process_claimed ::
  "(insight_ai_request \<Rightarrow> exn + insight_response) \<Rightarrow> category list \<Rightarrow> transaction list \<Rightarrow> datetime \<Rightarrow>
     insight_id \<Rightarrow> user_id \<Rightarrow> claimed_insight \<Rightarrow> insight_row list \<Rightarrow> exn + context_quality \<times> insight_row list" where
  "process_claimed ai cats txs now i u cl rows =
     bindR (build_insight_context cats txs u (cl_year cl) (cl_month cl)) (\<lambda>ctx.
       if ac_quality ctx = CQ_NONE
       then Inr (CQ_NONE, record_insight_failure i u ''No transaction data found for this period'' rows)
       else bindR (ai \<lparr>ai_period = cl_period cl, ai_year = cl_year cl, ai_month = cl_month cl,
                       ai_chunks = ac_chunks ctx, ai_cache_key = Some (user_str u)\<rparr>) (\<lambda>response.
            bindR (complete_insight cats txs i u response (ac_quality ctx) (cl_year cl) (cl_month cl) now rows)
              (\<lambda>rows'. Inr (ac_quality ctx, rows'))))"

text \<open>The value or exception of the call, with the rows committed when it ends; \<open>describe\<close> is \<open>str(exc)\<close>.\<close>

definition process_insight ::
  "(insight_ai_request \<Rightarrow> exn + insight_response) \<Rightarrow> (exn \<Rightarrow> string) \<Rightarrow> category list \<Rightarrow> transaction list \<Rightarrow>
     nat \<Rightarrow> datetime \<Rightarrow> string \<Rightarrow> string \<Rightarrow> insight_row list \<Rightarrow> (exn + process_result) \<times> insight_row list" where
  "process_insight ai describe cats txs lease_minutes now raw_insight raw_user rows =
     (case (parse_uuid raw_insight, parse_uuid raw_user) of
        (Some n, Some k) \<Rightarrow>
          (let i = InsightId n; u = UserId k
           in case claim_insight i u lease_minutes now rows of
                Inl (InsightAlreadyTerminalError st) \<Rightarrow>
                  (Inr \<lparr>pr_quality = (if st = IS_FAILED then CQ_NONE else CQ_FULL), pr_terminal_skip = True\<rparr>, rows)
              | Inl e \<Rightarrow> (Inl e, rows)
              | Inr (cl, claimed) \<Rightarrow>
                  (case process_claimed ai cats txs now i u cl claimed of
                     Inl e \<Rightarrow> (Inl e, record_insight_failure i u (describe e) claimed)
                   | Inr (q, done) \<Rightarrow> (Inr \<lparr>pr_quality = q, pr_terminal_skip = False\<rparr>, done)))
      | _ \<Rightarrow> (Inl ValueError, rows))"

section \<open>StreamInsightUseCase\<close>

definition terminal :: "insight_status \<Rightarrow> bool" where
  "terminal st \<longleftrightarrow> st = IS_COMPLETED \<or> st = IS_FAILED"

text \<open>The reads of the polls are given; the result is what is yielded, and the error if the row is gone.\<close>

fun stream_polls :: "insight_status \<Rightarrow> insight option list \<Rightarrow> insight list \<times> exn option" where
  "stream_polls last_status [] = ([], None)"
| "stream_polls last_status (None # rs) = ([], Some InsightNotFoundError)"
| "stream_polls last_status (Some i # rs) =
     (if in_status i \<noteq> last_status
      then (if terminal (in_status i) then ([i], None)
            else (let (out, e) = stream_polls (in_status i) rs in (i # out, e)))
      else stream_polls last_status rs)"

definition stream_insight :: "nat \<Rightarrow> insight option \<Rightarrow> insight option list \<Rightarrow> insight list \<times> exn option" where
  "stream_insight max_polls first reads =
     (case first of
        None \<Rightarrow> ([], Some InsightNotFoundError)
      | Some i \<Rightarrow> if terminal (in_status i) then ([i], None)
                  else (let (out, e) = stream_polls (in_status i) (take max_polls reads) in (i # out, e)))"

section \<open>Properties\<close>

text \<open>What a watcher should see: the states read, up to the first terminal one, without repetitions of a
  status.\<close>

fun until_terminal :: "insight list \<Rightarrow> insight list" where
  "until_terminal [] = []"
| "until_terminal (x # xs) = (if terminal (in_status x) then [x] else x # until_terminal xs)"

function status_changes :: "insight list \<Rightarrow> insight list" where
  "status_changes [] = []"
| "status_changes (x # xs) = x # status_changes (dropWhile (\<lambda>y. in_status y = in_status x) xs)"
  by pat_completeness auto

termination by (relation "measure length") (auto simp: le_imp_less_Suc length_dropWhile_le)

lemma until_terminal_drop:
  "\<not> terminal st \<Longrightarrow> dropWhile (\<lambda>y. in_status y = st) (until_terminal xs) =
     until_terminal (dropWhile (\<lambda>y. in_status y = st) xs)"
  by (induction xs) auto

lemma stream_polls_changes:
  "\<not> terminal st \<Longrightarrow> stream_polls st (map Some xs) =
     (status_changes (until_terminal (dropWhile (\<lambda>y. in_status y = st) xs)), None)"
proof (induction xs arbitrary: st)
  case (Cons x xs)
  then show ?case
    by (cases "in_status x = st"; cases "terminal (in_status x)") (auto simp: until_terminal_drop)
qed simp

lemma status_changes_distinct: "successively (\<lambda>x y. in_status x \<noteq> in_status y) (status_changes xs)"
proof (induction xs rule: status_changes.induct)
  case (2 x xs)
  show ?case
  proof (cases "dropWhile (\<lambda>y. in_status y = in_status x) xs")
    case (Cons y ys)
    then have "in_status y \<noteq> in_status x" using hd_dropWhile [of "\<lambda>y. in_status y = in_status x" xs] by simp
    then show ?thesis using 2 Cons by simp
  next
    case Nil
    show ?thesis unfolding status_changes.simps Nil by simp
  qed
qed simp

lemma status_changes_length: "length (status_changes xs) \<le> length xs"
proof (induction xs rule: status_changes.induct)
  case (2 x xs)
  have "length (dropWhile (\<lambda>y. in_status y = in_status x) xs) \<le> length xs" by (rule length_dropWhile_le)
  then show ?case using 2 by simp
qed simp

lemma until_terminal_length: "length (until_terminal xs) \<le> length xs"
  by (induction xs) auto

text \<open>C33 The stream of an insight that stays in place yields exactly its status changes up to the first
  terminal status: neighbours differ, at most one element per poll is yielded, and it ends after the
  terminal status or when the polls are used up.\<close>

theorem stream_yields_status_changes:
  "stream_insight max_polls (Some x) (map Some reads) =
     (status_changes (until_terminal (x # take max_polls reads)), None) \<and>
   successively (\<lambda>a b. in_status a \<noteq> in_status b) (fst (stream_insight max_polls (Some x) (map Some reads))) \<and>
   length (fst (stream_insight max_polls (Some x) (map Some reads))) \<le> max_polls + 1"
proof -
  have eq: "stream_insight max_polls (Some x) (map Some reads) =
      (status_changes (until_terminal (x # take max_polls reads)), None)"
    by (simp add: stream_insight_def take_map stream_polls_changes until_terminal_drop)
  have "length (until_terminal (x # take max_polls reads)) \<le> max_polls + 1"
    using until_terminal_length [of "x # take max_polls reads"] by simp
  then show ?thesis
    unfolding eq fst_conv using status_changes_distinct le_trans [OF status_changes_length] by blast
qed

text \<open>A weekly insight carries an ISO week number in the field that every query reads as a month: for a
  week after the twelfth the request is always refused, since no transaction lies in such a month, and were
  there an insight for it, building its context would raise.\<close>

theorem late_week_always_refused:
  assumes "\<forall>t\<in>set txs. valid_date (tx_date t)" "12 < rc_month cmd"
  shows "(\<exists>e. request_insight plan_of txs i ev now cmd s = Inl e) \<and>
    build_insight_context cats txs (rc_user cmd) (rc_year cmd) (rc_month cmd) = Inl ValueError"
proof -
  have "\<forall>t\<in>set txs. date_month (tx_date t) \<noteq> rc_month cmd"
    using assms by (auto simp: valid_date_def)
  then have none: "count_for_period txs (rc_user cmd) (rc_year cmd) (rc_month cmd) = 0"
    by (simp add: count_for_period_def filter_empty_conv)
  show ?thesis
    unfolding request_insight_def build_insight_context_def none read_month_def mk_date_def
    using assms(2)
    by (auto simp: min_transactions_def bindR_def split: sum.splits)
qed

lemma late_week_always_refused_witness:
  "\<exists>e. request_insight (\<lambda>_. FREE) [past_tx, past_tx, past_tx] (InsightId 1) 1 (Date 2024 5 15, 0)
     \<lparr>rc_user = UserId 1, rc_period = P_WEEKLY, rc_year = 2024, rc_month = 20\<rparr> ([], []) = Inl e"
proof -
  let ?cmd = "\<lparr>rc_user = UserId 1, rc_period = P_WEEKLY, rc_year = 2024, rc_month = 20\<rparr>"
  have "\<forall>t\<in>set [past_tx, past_tx, past_tx]. valid_date (tx_date t)"
    by (simp add: past_tx_def sample_tx_def days_in_month_def)
  moreover have "12 < rc_month ?cmd" by simp
  ultimately show ?thesis using late_week_always_refused [of "[past_tx, past_tx, past_tx]" ?cmd] by blast
qed

text \<open>The reaper, on the columns it reads, does what it promises: afterwards no processing insight has
  an expired lease; every row with an expired lease was either put back into the queue with one more retry,
  its lease cleared, and is returned for a new event, or, its retries spent, failed; all others are
  untouched.\<close>

theorem reaper_settles_expired:
  assumes "reap_expired_processing mx now rows = Inr (requeued, exhausted, rows')"
  shows "length rows' = length rows \<and>
    length requeued + exhausted = length (filter (lease_expired now) rows) \<and>
    filter (lease_expired now) rows' = [] \<and>
    list_all2 (\<lambda>r r'. if \<not> lease_expired now r then r' = r
        else if ir_retry r < mx then r' = requeued_row now r else r' = exhausted_row now r) rows rows'"
proof -
  let ?again = "\<lambda>r. lease_expired now r \<and> ir_retry r < mx"
  let ?spent = "\<lambda>r. lease_expired now r \<and> mx \<le> ir_retry r"
  let ?f = "\<lambda>r. if ?again r then requeued_row now r else r"
  let ?g = "\<lambda>r. if ?spent r then exhausted_row now r else r"
  have eqs: "requeued = map reaped_of (filter ?again rows)" "exhausted = length (filter ?spent (map ?f rows))"
    "rows' = map ?g (map ?f rows)"
    using assms by (auto simp: reap_expired_processing_def Let_def split: if_splits)
  have not: "\<not> lease_expired now (requeued_row now r)" "\<not> lease_expired now (exhausted_row now r)" for r
    by (simp_all add: lease_expired_def requeued_row_def exhausted_row_def row_status_def)
  have step: "?g (?f r) = (if \<not> lease_expired now r then r
      else if ir_retry r < mx then requeued_row now r else exhausted_row now r)" for r
    using not by auto
  have spent: "?spent (?f r) \<longleftrightarrow> ?spent r" for r using not by auto
  have "length (filter ?again rows) + length (filter ?spent rows) = length (filter (lease_expired now) rows)"
    by (induction rows) auto
  moreover have "exhausted = length (filter ?spent rows)"
    unfolding eqs(2) filter_map length_map comp_def spent ..
  moreover have "rows' = map (\<lambda>r. if \<not> lease_expired now r then r
      else if ir_retry r < mx then requeued_row now r else exhausted_row now r) rows"
    unfolding eqs(3) map_map comp_def step ..
  ultimately show ?thesis
    using not by (auto simp: eqs(1) filter_empty_conv list_all2_map2 list_all2_same)
qed

definition leased_row :: insight_row where
  "leased_row = \<lparr>ir_insight = (new_insight (InsightId 4) \<lparr>rc_user = UserId 1, rc_period = P_MONTHLY, rc_year = 2024,
       rc_month = 4\<rparr> (Date 2024 4 2, 0))\<lparr>in_status := IS_PROCESSING\<rparr>,
     ir_deadline = Some (Date 2024 4 2, 900), ir_retry = 1\<rparr>"

lemma reaper_settles_expired_witness:
  "\<exists>rows'. reap_expired_processing 3 (Date 2024 4 3, 0) [leased_row] = Inr ([reaped_of leased_row], 0, rows') \<and>
     filter (lease_expired (Date 2024 4 3, 0)) rows' = []"
proof -
  have e: "lease_expired (Date 2024 4 3, 0) leased_row" "ir_retry leased_row = 1"
    "\<not> lease_expired (Date 2024 4 3, 0) (requeued_row (Date 2024 4 3, 0) leased_row)"
    by (simp_all add: lease_expired_def leased_row_def row_status_def requeued_row_def)
  have r: "reap_expired_processing 3 (Date 2024 4 3, 0) [leased_row] =
      Inr ([reaped_of leased_row], 0, [requeued_row (Date 2024 4 3, 0) leased_row])"
    by (simp add: reap_expired_processing_def e Let_def)
  then show ?thesis using reaper_settles_expired [OF r] by blast
qed

end
