(* ===== verification/Listings.thy ===== *)
theory Listings
  imports Cursors Insights SqlTypes
begin

text \<open>The paginated listings of transactions, insights, alerts and audit events: each use case with its
  cursor codec and the query of its repository, and the theorems that a client following the cursors sees
  every row of the user once, in descending order.  The rows are those of the table the query reads.\<close>

text \<open>\<open>xs[-1]\<close>.\<close>

definition last_of :: "'a list \<Rightarrow> exn + 'a" where
  "last_of xs = (if xs = [] then Inl IndexError else Inr (last xs))"

definition cursor_after :: "('a \<Rightarrow> string) \<Rightarrow> 'a list \<Rightarrow> exn + string option" where
  "cursor_after enc xs = bindR (last_of xs) (\<lambda>x. Inr (Some (enc x)))"

definition query_cursor :: "string option \<Rightarrow> string option" where
  "query_cursor c = (case c of None \<Rightarrow> None | Some s \<Rightarrow> if s = [] then None else Some s)"

fun uuid_of_tx :: "transaction_id \<Rightarrow> uuid" where "uuid_of_tx (TransactionId u) = u"
fun uuid_of_insight :: "insight_id \<Rightarrow> uuid" where "uuid_of_insight (InsightId u) = u"
fun uuid_of_alert :: "alert_id \<Rightarrow> uuid" where "uuid_of_alert (AlertId u) = u"

text \<open>How SQLAlchemy binds a value compared with a typed column; as documented this is
  \<open>bind_param\<close>.\<close>

type_synonym column_binding = "column_type \<Rightarrow> py_value \<Rightarrow> sql_value"

fun sql_uuid_less :: "sql_value \<Rightarrow> sql_value \<Rightarrow> bool" where
  "sql_uuid_less (SQL_Uuid a) (SQL_Uuid b) = (a < b)"
| "sql_uuid_less _ _ = False"

section \<open>Transactions\<close>

record tx_query =
  tq_user :: user_id
  tq_limit :: nat
  tq_cursor :: "string option"
  tq_type :: "string option"
  tq_currency :: "string option"
  tq_category :: "string option"

definition encode_tx_cursor :: "transaction \<Rightarrow> string" where
  "encode_tx_cursor t = encode_cursor [(''date'', date_iso (tx_date t)),
     (''created_at'', datetime_iso (tx_created_at t)), (''id'', uuid_str (uuid_of_tx (tx_id t)))]"

text \<open>Every exception becomes an \<open>InvalidCursorError\<close>.\<close>

definition decode_tx_cursor :: "string \<Rightarrow> exn + date \<times> datetime \<times> uuid" where
  "decode_tx_cursor c =
     (case bindR (decode_cursor c) (\<lambda>raw.
        bindR (text_at date_of_iso raw ''date'') (\<lambda>d.
        bindR (text_at datetime_of_iso raw ''created_at'') (\<lambda>t.
        bindR (text_at uuid_of raw ''id'') (\<lambda>u. Inr (d, t, u))))) of
        Inl e \<Rightarrow> Inl InvalidCursorError | Inr x \<Rightarrow> Inr x)"

text \<open>The row comparison of SQL with the cursor's three values; one with NULL is not true.\<close>

definition tx_before :: "column_binding \<Rightarrow> date \<times> datetime \<times> uuid \<Rightarrow> transaction \<Rightarrow> bool" where
  "tx_before bind cur t = (case cur of (d, c, u) \<Rightarrow>
     tx_date t < d \<or> tx_date t = d \<and> (tx_created_at t < c \<or> tx_created_at t = c \<and>
       sql_uuid_less (bind_param TransactionIdType (P_TransactionId (tx_id t)))
         (bind TransactionIdType (P_Uuid u))))"

definition tx_order :: "transaction \<Rightarrow> date \<times> datetime \<times> uuid" where
  "tx_order t = (tx_date t, tx_created_at t, uuid_of_tx (tx_id t))"

definition tx_type_is :: "column_binding \<Rightarrow> string option \<Rightarrow> transaction \<Rightarrow> bool" where
  "tx_type_is bind f t = (case f of None \<Rightarrow> True | Some s \<Rightarrow>
     sql_eq (bind_param TransactionTypeType (P_TransactionType (tx_type t))) (bind TransactionTypeType (P_Str s)))"

definition tx_currency_is :: "string option \<Rightarrow> transaction \<Rightarrow> bool" where
  "tx_currency_is f t = (case f of None \<Rightarrow> True | Some s \<Rightarrow> cur_code (currency (tx_amount t)) = s)"

definition tx_category_is :: "column_binding \<Rightarrow> uuid option \<Rightarrow> transaction \<Rightarrow> bool" where
  "tx_category_is bind f t = (case f of None \<Rightarrow> True | Some u \<Rightarrow> (case tx_category t of None \<Rightarrow> False
     | Some c \<Rightarrow> sql_eq (bind_param CategoryIdType (P_CategoryId c)) (bind CategoryIdType (P_Uuid u))))"

definition optional_uuid :: "string option \<Rightarrow> exn + uuid option" where
  "optional_uuid f = (case f of None \<Rightarrow> Inr None | Some s \<Rightarrow> bindR (uuid_of s) (\<lambda>u. Inr (Some u)))"

definition list_by_user ::
  "column_binding \<Rightarrow> tx_query \<Rightarrow> (date \<times> datetime \<times> uuid) option \<Rightarrow> transaction list \<Rightarrow> exn + transaction list" where
  "list_by_user bind q cur rows = bindR (optional_uuid (tq_category q)) (\<lambda>cat.
     Inr (take (tq_limit q) (descending_by tx_order
       (filter (\<lambda>t. tx_user t = tq_user q \<and> (case cur of None \<Rightarrow> True | Some c \<Rightarrow> tx_before bind c t) \<and>
          tx_type_is bind (tq_type q) t \<and> tx_currency_is (tq_currency q) t \<and> tx_category_is bind cat t) rows))))"

definition list_transactions ::
  "column_binding \<Rightarrow> tx_query \<Rightarrow> transaction list \<Rightarrow> exn + transaction list \<times> string option" where
  "list_transactions bind q rows =
     bindR (case query_cursor (tq_cursor q) of None \<Rightarrow> Inr None
            | Some c \<Rightarrow> bindR (decode_tx_cursor c) (\<lambda>x. Inr (Some x))) (\<lambda>cur.
     bindR (list_by_user bind q cur rows) (\<lambda>txs.
     bindR (if length txs = tq_limit q then cursor_after encode_tx_cursor txs else Inr None) (\<lambda>nxt.
     Inr (txs, nxt))))"

text \<open>\<open>get_by_ids\<close> of the same repository: the ids are unwrapped to UUIDs before they are compared.\<close>

definition repository_get_by_ids :: "column_binding \<Rightarrow> transaction_id list \<Rightarrow> user_id \<Rightarrow> transaction list \<Rightarrow> transaction list" where
  "repository_get_by_ids bind ids u rows =
     (let found = filter (\<lambda>t. tx_user t = u \<and>
            sql_in (bind_param TransactionIdType (P_TransactionId (tx_id t)))
              (map (\<lambda>i. bind TransactionIdType (P_Uuid (uuid_of_tx i))) ids)) rows
      in List.map_filter (\<lambda>i. find_by (\<lambda>t. tx_id t = i) found) ids)"

text \<open>The items of the response.\<close>

record tx_item =
  ti_id :: string
  ti_amount :: string
  ti_currency :: string
  ti_date :: string
  ti_type :: string
  ti_merchant :: "string option"
  ti_notes :: "string option"
  ti_category :: "string option"
  ti_rule :: "string option"
  ti_created_at :: string
  ti_updated_at :: "string option"

definition serialize_tx :: "transaction \<Rightarrow> tx_item" where
  "serialize_tx t =
     \<lparr>ti_id = uuid_str (uuid_of_tx (tx_id t)), ti_amount = dec_str (amount (tx_amount t)),
      ti_currency = cur_code (currency (tx_amount t)), ti_date = date_iso (tx_date t),
      ti_type = transaction_type_value (tx_type t), ti_merchant = tx_merchant t, ti_notes = tx_notes t,
      ti_category = map_option (\<lambda>c. case c of CategoryId u \<Rightarrow> uuid_str u) (tx_category t),
      ti_rule = map_option (\<lambda>r. case r of RecurringRuleId u \<Rightarrow> uuid_str u) (tx_rule t),
      ti_created_at = datetime_iso (tx_created_at t),
      ti_updated_at = map_option datetime_iso (tx_updated_at t)\<rparr>"

section \<open>Insights\<close>

record insight_query =
  iq_user :: user_id
  iq_limit :: nat
  iq_cursor :: "string option"
  iq_period :: "period option"
  iq_year :: "int option"
  iq_month :: "int option"

definition encode_insight_cursor :: "insight \<Rightarrow> string" where
  "encode_insight_cursor i = encode_cursor [(''created_at'', datetime_iso (in_created_at i)),
     (''id'', uuid_str (uuid_of_insight (in_id i)))]"

definition decode_insight_cursor :: "string \<Rightarrow> exn + datetime \<times> insight_id" where
  "decode_insight_cursor c = bindR (decode_cursor c) (\<lambda>raw.
     bindR (text_at datetime_of_iso raw ''created_at'') (\<lambda>t.
     bindR (text_at uuid_of raw ''id'') (\<lambda>u. Inr (t, InsightId u))))"

definition insight_order :: "insight \<Rightarrow> datetime \<times> uuid" where
  "insight_order i = (in_created_at i, uuid_of_insight (in_id i))"

definition insight_before :: "datetime \<times> insight_id \<Rightarrow> insight \<Rightarrow> bool" where
  "insight_before cur i = (case cur of (t, InsightId u) \<Rightarrow>
     in_created_at i < t \<or> in_created_at i = t \<and> uuid_of_insight (in_id i) < u)"

definition insight_matches :: "insight_query \<Rightarrow> insight \<Rightarrow> bool" where
  "insight_matches q i = (in_user i = iq_user q \<and>
     (case iq_period q of None \<Rightarrow> True | Some p \<Rightarrow> in_period i = p) \<and>
     (case iq_year q of None \<Rightarrow> True | Some y \<Rightarrow> in_year i = y) \<and>
     (case iq_month q of None \<Rightarrow> True | Some m \<Rightarrow> in_month i = m))"

definition list_insights_of :: "insight_query \<Rightarrow> (datetime \<times> insight_id) option \<Rightarrow> insight list \<Rightarrow> insight list" where
  "list_insights_of q cur rows = take (iq_limit q) (descending_by insight_order
     (filter (\<lambda>i. insight_matches q i \<and> (case cur of None \<Rightarrow> True | Some c \<Rightarrow> insight_before c i)) rows))"

definition list_insights :: "insight_query \<Rightarrow> insight list \<Rightarrow> exn + insight list \<times> string option" where
  "list_insights q rows =
     bindR (case query_cursor (iq_cursor q) of None \<Rightarrow> Inr None
            | Some c \<Rightarrow> bindR (decode_insight_cursor c) (\<lambda>x. Inr (Some x))) (\<lambda>cur.
     (let xs = list_insights_of q cur rows in
      bindR (if length xs = iq_limit q then cursor_after encode_insight_cursor xs else Inr None) (\<lambda>nxt.
      Inr (xs, nxt))))"

section \<open>Alerts\<close>

definition encode_alert_cursor :: "alert \<Rightarrow> string" where
  "encode_alert_cursor a = encode_cursor [(''created_at'', datetime_iso (al_created_at a)),
     (''id'', uuid_str (uuid_of_alert (al_id a)))]"

definition decode_alert_cursor :: "string \<Rightarrow> exn + datetime \<times> alert_id" where
  "decode_alert_cursor c = bindR (decode_cursor c) (\<lambda>raw.
     bindR (text_at datetime_of_iso raw ''created_at'') (\<lambda>t.
     bindR (text_at uuid_of raw ''id'') (\<lambda>u. Inr (t, AlertId u))))"

definition alert_order :: "alert \<Rightarrow> datetime \<times> uuid" where
  "alert_order a = (al_created_at a, uuid_of_alert (al_id a))"

text \<open>The query compares the text of the ids, and orders by the ids.\<close>

definition alert_before :: "datetime \<times> alert_id \<Rightarrow> alert \<Rightarrow> bool" where
  "alert_before cur a = (case cur of (t, i) \<Rightarrow> al_created_at a < t \<or>
     al_created_at a = t \<and> uuid_str (uuid_of_alert (al_id a)) < uuid_str (uuid_of_alert i))"

definition list_alerts_of :: "user_id \<Rightarrow> nat \<Rightarrow> (datetime \<times> alert_id) option \<Rightarrow> alert list \<Rightarrow> alert list" where
  "list_alerts_of u limit cur rows = take limit (descending_by alert_order
     (filter (\<lambda>a. al_user a = u \<and> (case cur of None \<Rightarrow> True | Some c \<Rightarrow> alert_before c a)) rows))"

definition list_alerts ::
  "user_id \<Rightarrow> nat \<Rightarrow> string option \<Rightarrow> alerts_db \<Rightarrow> exn + alert list \<times> string option \<times> nat" where
  "list_alerts u limit cursor db =
     bindR (case query_cursor cursor of None \<Rightarrow> Inr None
            | Some c \<Rightarrow> bindR (decode_alert_cursor c) (\<lambda>x. Inr (Some x))) (\<lambda>cur.
     (let xs = list_alerts_of u limit cur (ad_rows db) in
      bindR (if length xs = limit \<and> 0 < limit then cursor_after encode_alert_cursor xs else Inr None) (\<lambda>nxt.
      Inr (xs, nxt, unread_count u db))))"

section \<open>Audit events\<close>

record audit_row =
  ar_id :: uuid
  ar_user :: "user_id option"
  ar_type :: string
  ar_at :: datetime
  ar_ip :: "string option"
  ar_user_agent :: "string option"

record audit_query =
  aq_user :: user_id
  aq_limit :: nat
  aq_cursor :: "string option"
  aq_type :: "string option"
  aq_from :: "datetime option"
  aq_to :: "datetime option"

definition encode_audit_cursor :: "audit_row \<Rightarrow> string" where
  "encode_audit_cursor r = encode_cursor [(''occurred_at'', datetime_iso (ar_at r)), (''id'', uuid_str (ar_id r))]"

text \<open>The id is passed on as the JSON value it is.\<close>

definition decode_audit_cursor :: "string \<Rightarrow> exn + datetime \<times> json" where
  "decode_audit_cursor c = bindR (decode_cursor c) (\<lambda>raw.
     bindR (text_at datetime_of_iso raw ''occurred_at'') (\<lambda>t.
     bindR (subscript raw ''id'') (\<lambda>i. Inr (t, i))))"

definition audit_order :: "audit_row \<Rightarrow> datetime \<times> uuid" where
  "audit_order r = (ar_at r, ar_id r)"

definition audit_before :: "datetime \<times> string \<Rightarrow> audit_row \<Rightarrow> bool" where
  "audit_before cur r = (case cur of (t, s) \<Rightarrow> ar_at r < t \<or> ar_at r = t \<and> uuid_str (ar_id r) < s)"

definition audit_matches :: "audit_query \<Rightarrow> audit_row \<Rightarrow> bool" where
  "audit_matches q r = (ar_user r = Some (aq_user q) \<and>
     (case aq_type q of None \<Rightarrow> True | Some t \<Rightarrow> ar_type r = t) \<and>
     (case aq_from q of None \<Rightarrow> True | Some f \<Rightarrow> f \<le> ar_at r) \<and>
     (case aq_to q of None \<Rightarrow> True | Some t \<Rightarrow> ar_at r \<le> t))"

text \<open>A cursor id that is null drops the comparison; one that is not a string cannot be bound to the
  text parameter.\<close>

definition list_audit_of :: "audit_query \<Rightarrow> nat \<Rightarrow> (datetime \<times> json) option \<Rightarrow> audit_row list \<Rightarrow> exn + audit_row list" where
  "list_audit_of q limit cur rows =
     bindR (case cur of None \<Rightarrow> Inr (\<lambda>_. True)
            | Some (t, JNull) \<Rightarrow> Inr (\<lambda>_. True)
            | Some (t, JStr s) \<Rightarrow> Inr (audit_before (t, s))
            | Some (t, _) \<Rightarrow> Inl StorageError) (\<lambda>keyset.
     Inr (take limit (descending_by audit_order (filter (\<lambda>r. audit_matches q r \<and> keyset r) rows))))"

definition list_audit_events :: "audit_query \<Rightarrow> audit_row list \<Rightarrow> exn + audit_row list \<times> string option" where
  "list_audit_events q rows =
     bindR (case query_cursor (aq_cursor q) of None \<Rightarrow> Inr None
            | Some c \<Rightarrow> bindR (decode_audit_cursor c) (\<lambda>x. Inr (Some x))) (\<lambda>cur.
     bindR (list_audit_of q (aq_limit q + 1) cur rows) (\<lambda>xs.
     (let has_more = aq_limit q < length xs; page = take (aq_limit q) xs in
      bindR (if has_more then cursor_after encode_audit_cursor page else Inr None) (\<lambda>nxt.
      Inr (page, nxt)))))"

section \<open>Reading back a cursor\<close>

lemmas cursor_roundtrips = decode_encode_cursor text_at_JStr date_iso_roundtrip datetime_iso_roundtrip
  uuid_of_str

definition valid_tx_row :: "transaction \<Rightarrow> bool" where
  "valid_tx_row t \<longleftrightarrow> valid_date (tx_date t) \<and> valid_datetime (tx_created_at t) \<and> uuid_of_tx (tx_id t) < 2 ^ 128"

definition valid_insight :: "insight \<Rightarrow> bool" where
  "valid_insight i \<longleftrightarrow> valid_datetime (in_created_at i) \<and> uuid_of_insight (in_id i) < 2 ^ 128"

definition valid_alert :: "alert \<Rightarrow> bool" where
  "valid_alert a \<longleftrightarrow> valid_datetime (al_created_at a) \<and> uuid_of_alert (al_id a) < 2 ^ 128"

definition valid_audit :: "audit_row \<Rightarrow> bool" where
  "valid_audit r \<longleftrightarrow> valid_datetime (ar_at r) \<and> ar_id r < 2 ^ 128"

lemma tx_cursor_roundtrip:
  "valid_tx_row t \<Longrightarrow> decode_tx_cursor (encode_tx_cursor t) = Inr (tx_order t)"
  by (simp add: valid_tx_row_def decode_tx_cursor_def encode_tx_cursor_def tx_order_def cursor_roundtrips)

lemma insight_cursor_roundtrip:
  "valid_insight i \<Longrightarrow> decode_insight_cursor (encode_insight_cursor i) = Inr (in_created_at i, in_id i)"
  by (cases "in_id i")
    (simp add: valid_insight_def decode_insight_cursor_def encode_insight_cursor_def cursor_roundtrips)

lemma alert_cursor_roundtrip:
  "valid_alert a \<Longrightarrow> decode_alert_cursor (encode_alert_cursor a) = Inr (al_created_at a, al_id a)"
  by (cases "al_id a")
    (simp add: valid_alert_def decode_alert_cursor_def encode_alert_cursor_def cursor_roundtrips)

lemma audit_cursor_roundtrip:
  "valid_audit r \<Longrightarrow> decode_audit_cursor (encode_audit_cursor r) = Inr (ar_at r, JStr (uuid_str (ar_id r)))"
  by (simp add: valid_audit_def decode_audit_cursor_def encode_audit_cursor_def cursor_roundtrips subscript_def)

lemma query_cursor_simps [simp]:
  "query_cursor None = None" "s \<noteq> [] \<Longrightarrow> query_cursor (Some s) = Some s"
  by (simp_all add: query_cursor_def)

lemma encoded_nonempty [simp]:
  "encode_tx_cursor t \<noteq> []" "encode_insight_cursor i \<noteq> []" "encode_alert_cursor a \<noteq> []"
  "encode_audit_cursor r \<noteq> []"
  by (simp_all add: encode_tx_cursor_def encode_insight_cursor_def encode_alert_cursor_def encode_audit_cursor_def)

lemma cursor_after_page:
  assumes "0 < n"
  shows "(if length (take n xs) = n then cursor_after enc (take n xs) else Inr None) =
    Inr (if n \<le> length xs then Some (enc (last (take n xs))) else None)"
proof (cases "n \<le> length xs")
  case True
  then have "take n xs \<noteq> []" using assms by auto
  then show ?thesis using True by (simp add: cursor_after_def last_of_def)
qed simp

section \<open>The listings meet the contract\<close>

definition insights_valid :: "insight list \<Rightarrow> bool" where
  "insights_valid rows \<longleftrightarrow> list_all valid_insight rows \<and> distinct (map (\<lambda>i. uuid_of_insight (in_id i)) rows)"

definition insights_listed :: "insight_query \<Rightarrow> insight list \<Rightarrow> insight list" where
  "insights_listed q rows = descending_by insight_order (filter (insight_matches q) rows)"

lemma distinct_snd_key: "distinct (map (\<lambda>x. snd (key x)) xs) \<Longrightarrow> distinct (map key xs)"
  by (induction xs) auto

interpretation insights_pages: keyset_listing
    "\<lambda>rows n c. list_insights (q\<lparr>iq_limit := n, iq_cursor := c\<rparr>) rows" insights_valid "insights_listed q"
    insight_order encode_insight_cursor "\<lambda>n xs. n \<le> length xs"
  for q
proof (unfold_locales, goal_cases)
  case (1 db)
  then have "distinct (map insight_order db)"
    by (intro distinct_snd_key) (simp add: insights_valid_def insight_order_def)
  then show ?case
    unfolding insights_listed_def by (intro descending_strict distinct_map_filter_key)
next
  case (2 db n)
  have "insight_matches (q\<lparr>iq_limit := n, iq_cursor := None\<rparr>) = insight_matches q"
    by (intro ext) (simp add: insight_matches_def)
  then show ?case
    using 2 by (simp add: list_insights_def list_insights_of_def insights_listed_def Let_def
        cursor_after_page del: length_take)
next
  case (3 db n r rest)
  let ?q = "q\<lparr>iq_limit := n, iq_cursor := Some (encode_insight_cursor r)\<rparr>"
  have m: "insight_matches ?q = insight_matches q" by (intro ext) (simp add: insight_matches_def)
  have "valid_insight r" using 3 by (auto simp: insights_valid_def insights_listed_def list_all_iff)
  then have d: "decode_insight_cursor (encode_insight_cursor r) = Inr (in_created_at r, in_id r)"
    by (rule insight_cursor_roundtrip)
  have "insight_before (in_created_at r, in_id r) x \<longleftrightarrow> insight_order x < insight_order r" for x
    by (cases "in_id r") (auto simp: insight_before_def insight_order_def le_less)
  then have "descending_by insight_order (filter (\<lambda>i. insight_matches q i \<and>
      insight_before (in_created_at r, in_id r) i) db) = rest"
    by (simp add: 3(4) insights_listed_def flip: descending_filter)
  then show ?case
    using 3(2) by (simp add: list_insights_def list_insights_of_def Let_def m d cursor_after_page
        del: length_take)
qed auto

definition alerts_valid :: "alerts_db \<Rightarrow> bool" where
  "alerts_valid db \<longleftrightarrow> list_all valid_alert (ad_rows db) \<and>
     distinct (map (\<lambda>a. uuid_of_alert (al_id a)) (ad_rows db))"

definition alerts_listed :: "user_id \<Rightarrow> alerts_db \<Rightarrow> alert list" where
  "alerts_listed u db = descending_by alert_order (filter (\<lambda>a. al_user a = u) (ad_rows db))"

text \<open>A page without the unread counter.\<close>

definition alerts_page ::
  "user_id \<Rightarrow> alerts_db \<Rightarrow> nat \<Rightarrow> string option \<Rightarrow> exn + alert list \<times> string option" where
  "alerts_page u db n c = bindR (list_alerts u n c db) (\<lambda>(xs, nxt, unread). Inr (xs, nxt))"

interpretation alerts_pages: keyset_listing "alerts_page u" alerts_valid "alerts_listed u"
    alert_order encode_alert_cursor "\<lambda>n xs. n \<le> length xs"
  for u
proof (unfold_locales, goal_cases)
  case (1 db)
  then have "distinct (map alert_order (ad_rows db))"
    by (intro distinct_snd_key) (simp add: alerts_valid_def alert_order_def)
  then show ?case
    unfolding alerts_listed_def by (intro descending_strict distinct_map_filter_key)
next
  case (2 db n)
  then show ?case
    by (simp add: alerts_page_def list_alerts_def list_alerts_of_def alerts_listed_def Let_def
        cursor_after_page del: length_take)
next
  case (3 db n r rest)
  have valid: "valid_alert x" if "x \<in> set (ad_rows db)" for x
    using 3(1) that by (auto simp: alerts_valid_def list_all_iff)
  have r: "r \<in> set (ad_rows db)" using 3(3) by (simp add: alerts_listed_def)
  note d = alert_cursor_roundtrip [OF valid [OF r]]
  have "alert_before (al_created_at r, al_id r) x \<longleftrightarrow> alert_order x < alert_order r"
    if "x \<in> set (ad_rows db)" for x
    using valid [OF r] valid [OF that] uuid_str_less [of "uuid_of_alert (al_id x)" "uuid_of_alert (al_id r)"]
    by (auto simp: alert_before_def alert_order_def valid_alert_def le_less)
  then have "filter (\<lambda>a. al_user a = u \<and> alert_before (al_created_at r, al_id r) a) (ad_rows db) =
      filter (\<lambda>a. al_user a = u \<and> alert_order a < alert_order r) (ad_rows db)"
    by (intro filter_cong) auto
  then have "descending_by alert_order (filter (\<lambda>a. al_user a = u \<and>
      alert_before (al_created_at r, al_id r) a) (ad_rows db)) = rest"
    by (simp add: 3(4) alerts_listed_def flip: descending_filter)
  then show ?case
    using 3(2) by (simp add: alerts_page_def list_alerts_def list_alerts_of_def Let_def d cursor_after_page
        del: length_take)
qed auto

definition audit_valid :: "audit_row list \<Rightarrow> bool" where
  "audit_valid rows \<longleftrightarrow> list_all valid_audit rows \<and> distinct (map ar_id rows)"

definition audit_listed :: "audit_query \<Rightarrow> audit_row list \<Rightarrow> audit_row list" where
  "audit_listed q rows = descending_by audit_order (filter (audit_matches q) rows)"

lemma cursor_after_peek:
  assumes "0 < n"
  shows "(if n < length (take (Suc n) xs) then cursor_after enc (take n (take (Suc n) xs)) else Inr None) =
    Inr (if n < length xs then Some (enc (last (take n xs))) else None)"
proof (cases "n < length xs")
  case True
  then have "take n xs \<noteq> []" using assms by auto
  then show ?thesis using True by (simp add: cursor_after_def last_of_def)
qed simp

interpretation audit_pages: keyset_listing
    "\<lambda>rows n c. list_audit_events (q\<lparr>aq_limit := n, aq_cursor := c\<rparr>) rows" audit_valid "audit_listed q"
    audit_order encode_audit_cursor "\<lambda>n xs. n < length xs"
  for q
proof (unfold_locales, goal_cases)
  case (1 db)
  then have "distinct (map audit_order db)"
    by (intro distinct_snd_key) (simp add: audit_valid_def audit_order_def)
  then show ?case
    unfolding audit_listed_def by (intro descending_strict distinct_map_filter_key)
next
  case (2 db n)
  have "audit_matches (q\<lparr>aq_limit := n, aq_cursor := None\<rparr>) = audit_matches q"
    by (intro ext) (simp add: audit_matches_def)
  then show ?case
    using 2 by (simp add: list_audit_events_def list_audit_of_def audit_listed_def Let_def
        cursor_after_peek del: length_take take_take) simp
next
  case (3 db n r rest)
  let ?q = "q\<lparr>aq_limit := n, aq_cursor := Some (encode_audit_cursor r)\<rparr>"
  have m: "audit_matches ?q = audit_matches q" by (intro ext) (simp add: audit_matches_def)
  have valid: "valid_audit x" if "x \<in> set db" for x
    using 3(1) that by (auto simp: audit_valid_def list_all_iff)
  have r: "r \<in> set db" using 3(3) by (simp add: audit_listed_def)
  note d = audit_cursor_roundtrip [OF valid [OF r]]
  have "audit_before (ar_at r, uuid_str (ar_id r)) x \<longleftrightarrow> audit_order x < audit_order r"
    if "x \<in> set db" for x
    using valid [OF r] valid [OF that] uuid_str_less [of "ar_id x" "ar_id r"]
    by (auto simp: audit_before_def audit_order_def valid_audit_def le_less)
  then have "filter (\<lambda>x. audit_matches q x \<and> audit_before (ar_at r, uuid_str (ar_id r)) x) db =
      filter (\<lambda>x. audit_matches q x \<and> audit_order x < audit_order r) db"
    by (intro filter_cong) auto
  then have "descending_by audit_order (filter (\<lambda>x. audit_matches q x \<and>
      audit_before (ar_at r, uuid_str (ar_id r)) x) db) = rest"
    by (simp add: 3(4) audit_listed_def flip: descending_filter)
  then show ?case
    using 3(2) by (simp add: list_audit_events_def list_audit_of_def Let_def m d cursor_after_peek
        del: length_take take_take) simp
qed auto

definition user_query :: "user_id \<Rightarrow> string option \<Rightarrow> nat \<Rightarrow> string option \<Rightarrow> tx_query" where
  "user_query u f n c = \<lparr>tq_user = u, tq_limit = n, tq_cursor = c, tq_type = None, tq_currency = f,
     tq_category = None\<rparr>"

text \<open>The date and the creation time, which the cursor is compared with, tell a user's transactions
  apart.\<close>

definition tx_moment :: "transaction \<Rightarrow> date \<times> datetime" where
  "tx_moment t = (tx_date t, tx_created_at t)"

definition txs_valid :: "user_id \<Rightarrow> transaction list \<Rightarrow> bool" where
  "txs_valid u rows \<longleftrightarrow> list_all valid_tx_row rows \<and>
     distinct (map tx_moment (filter (\<lambda>t. tx_user t = u) rows))"

definition tx_listed :: "user_id \<Rightarrow> string option \<Rightarrow> transaction list \<Rightarrow> transaction list" where
  "tx_listed u f rows = descending_by tx_order (filter (\<lambda>t. tx_user t = u \<and> tx_currency_is f t) rows)"

lemma tx_listed_after:
  "descending_by tx_order (filter (\<lambda>t. tx_user t = u \<and> P t \<and> tx_currency_is f t) rows) =
    filter P (tx_listed u f rows)"
proof -
  have "filter (\<lambda>t. tx_user t = u \<and> P t \<and> tx_currency_is f t) rows =
      filter P (filter (\<lambda>t. tx_user t = u \<and> tx_currency_is f t) rows)"
    by (auto intro: filter_cong)
  then show ?thesis by (simp only: tx_listed_def descending_filter)
qed

lemma list_transactions_first:
  assumes "0 < n"
  shows "list_transactions bind (user_query u f n None) rows =
    Inr (take n (tx_listed u f rows), if n \<le> length (tx_listed u f rows)
      then Some (encode_tx_cursor (last (take n (tx_listed u f rows)))) else None)"
  using tx_listed_after [of u "\<lambda>_. True" f rows] assms
  by (simp add: list_transactions_def list_by_user_def user_query_def
      optional_uuid_def tx_type_is_def tx_category_is_def cursor_after_page del: length_take)

lemma list_transactions_resume:
  assumes "0 < n" "valid_tx_row r" "xs = filter (tx_before bind (tx_order r)) (tx_listed u f rows)"
  shows "list_transactions bind (user_query u f n (Some (encode_tx_cursor r))) rows =
    Inr (take n xs, if n \<le> length xs then Some (encode_tx_cursor (last (take n xs))) else None)"
  using tx_listed_after [of u "tx_before bind (tx_order r)" f rows] assms tx_cursor_roundtrip [OF assms(2)]
  by (simp add: list_transactions_def list_by_user_def user_query_def
      optional_uuid_def tx_type_is_def tx_category_is_def cursor_after_page del: length_take)

lemma tx_before_typed:
  "tx_before bind_param (tx_order r) t \<longleftrightarrow> tx_moment t < tx_moment r"
  by (auto simp: tx_before_def tx_order_def tx_moment_def le_less)

interpretation tx_pages: keyset_listing
    "\<lambda>rows n c. list_transactions bind_param (user_query u f n c) rows" "txs_valid u" "tx_listed u f"
    tx_moment encode_tx_cursor "\<lambda>n xs. n \<le> length xs"
  for u f
proof (unfold_locales, goal_cases)
  case (1 db)
  let ?rows = "filter (\<lambda>t. tx_user t = u \<and> tx_currency_is f t) db"
  have d: "distinct (map tx_moment ?rows)"
    using 1 distinct_map_filter_key [of tx_moment "filter (\<lambda>t. tx_user t = u) db" "tx_currency_is f"]
    by (simp add: txs_valid_def conj_commute)
  then have "distinct (map (\<lambda>t. (tx_date t, tx_created_at t, uuid_of_tx (tx_id t))) ?rows)"
    by (auto simp: distinct_map inj_on_def tx_moment_def)
  then have "sorted_wrt (\<lambda>a b. tx_order b < tx_order a) (tx_listed u f db)"
    unfolding tx_listed_def by (intro descending_strict) (simp add: tx_order_def)
  moreover have "distinct (map tx_moment (tx_listed u f db))"
    using d unfolding tx_listed_def distinct_map by (simp add: inj_on_def descending_by_def)
  ultimately show ?case
    by (rule descending_coarse) (auto simp: tx_order_def tx_moment_def le_less)
next
  case (2 db n)
  then show ?case by (intro list_transactions_first)
next
  case (3 db n r rest)
  then have "valid_tx_row r" by (auto simp: txs_valid_def tx_listed_def list_all_iff)
  moreover have "tx_before bind_param (tx_order r) = (\<lambda>x. tx_moment x < tx_moment r)"
    by (intro ext) (rule tx_before_typed)
  ultimately show ?case using 3 by (intro list_transactions_resume) simp_all
qed auto

section \<open>Properties\<close>


definition page_tx :: "nat \<Rightarrow> int \<Rightarrow> transaction" where
  "page_tx k us = \<lparr>tx_id = TransactionId k, tx_user = UserId 1,
     tx_amount = Money (Dec False 5 0) (Currency ''JPY'' 0), tx_date = Date 2024 1 10,
     tx_type = TT_EXPENSE, tx_merchant = None, tx_notes = None, tx_category = None,
     tx_created_at = (Date 2024 1 10, us), tx_updated_at = None, tx_rule = None\<rparr>"

lemma page_tx_valid: "0 \<le> us \<Longrightarrow> us < 86400000000 \<Longrightarrow> k < 2 ^ 128 \<Longrightarrow> valid_tx_row (page_tx k us)"
  by (simp add: page_tx_def valid_tx_row_def valid_datetime_def days_in_month_def)


text \<open>The cursor's id takes no part in the comparison, since a raw UUID is bound as NULL: of two
  transactions with the same date and time, the one behind the page's last is on no later page.\<close>

theorem tied_transaction_is_skipped:
  assumes "valid_tx_row r" "tx_moment t = tx_moment r" "0 < n"
    and "list_transactions bind_param (user_query u f n (Some (encode_tx_cursor r))) rows = Inr (page, nxt)"
  shows "t \<notin> set page"
proof -
  let ?xs = "filter (tx_before bind_param (tx_order r)) (tx_listed u f rows)"
  have "page = take n ?xs"
    using list_transactions_resume [OF assms(3,1) refl, of bind_param u f rows] assms(4) by simp
  then have "set page \<subseteq> set ?xs" by (auto dest: in_set_takeD)
  then show ?thesis using assms(2) by (auto simp: tx_before_typed)
qed

text \<open>A listing filtered by type or by category is empty, whatever the user owns: the filters compare raw
  strings and UUIDs with typed columns.\<close>

theorem filtered_listing_is_empty:
  assumes "tq_type q \<noteq> None \<or> (\<exists>s c. tq_category q = Some s \<and> uuid_of s = Inr c)"
    and "\<forall>s. tq_category q = Some s \<longrightarrow> uuid_of s \<noteq> Inl ValueError" "query_cursor (tq_cursor q) = None" "0 < tq_limit q"
  shows "list_transactions bind_param q rows = Inr ([], None)"
proof -
  obtain cat where c: "optional_uuid (tq_category q) = Inr cat" "tq_category q \<noteq> None \<Longrightarrow> cat \<noteq> None"
    using assms(2) by (cases "tq_category q") (auto simp: optional_uuid_def uuid_of_def split: option.splits)
  have "\<not> (tx_type_is bind_param (tq_type q) t \<and> tx_category_is bind_param cat t)" for t
    using assms(1) c(2) by (auto simp: tx_type_is_def tx_category_is_def split: option.splits)
  then have "filter (\<lambda>t. tx_user t = tq_user q \<and> tx_type_is bind_param (tq_type q) t \<and>
      tx_currency_is (tq_currency q) t \<and> tx_category_is bind_param cat t) rows = []"
    by (auto simp: filter_empty_conv)
  then show ?thesis
    using assms(3,4) c(1) by (simp add: list_transactions_def list_by_user_def descending_by_def)
qed

text \<open>The audit log reads back completely: following the cursors of the audit listing, whatever the
  filters and the page size, gives every matching event of the user once, newest first.\<close>

theorem audit_pages_complete:
  assumes "audit_valid rows" "0 < n"
  shows "walk_pages (\<lambda>c. list_audit_events (q\<lparr>aq_limit := n, aq_cursor := c\<rparr>) rows) (length rows + 1) None =
      Some (Inr (audit_listed q rows)) \<and>
    mset (audit_listed q rows) = mset (filter (audit_matches q) rows) \<and>
    sorted_wrt (\<lambda>a b. audit_order b < audit_order a) (audit_listed q rows)"
proof -
  have "length (audit_listed q rows) < length rows + 1"
    by (simp add: audit_listed_def length_descending le_imp_less_Suc)
  note walk = audit_pages.walk_all [OF assms this]
  show ?thesis
  proof (intro conjI)
    show "mset (audit_listed q rows) = mset (filter (audit_matches q) rows)"
      by (simp add: audit_listed_def)
  qed (rule walk, rule audit_pages.descending [OF assms(1)])
qed

definition sample_audit :: "nat \<Rightarrow> audit_row" where
  "sample_audit k = \<lparr>ar_id = k, ar_user = Some (UserId 1), ar_type = ''user_login'',
     ar_at = (Date 2024 1 10, 0), ar_ip = None, ar_user_agent = None\<rparr>"

definition sample_audit_query :: audit_query where
  "sample_audit_query = \<lparr>aq_user = UserId 1, aq_limit = 1, aq_cursor = None, aq_type = None, aq_from = None,
     aq_to = None\<rparr>"

lemma audit_pages_complete_witness:
  "walk_pages (\<lambda>c. list_audit_events (sample_audit_query\<lparr>aq_limit := 1, aq_cursor := c\<rparr>)
      [sample_audit 1, sample_audit 2]) 3 None = Some (Inr [sample_audit 2, sample_audit 1])"
proof -
  have v: "audit_valid [sample_audit 1, sample_audit 2]"
    by (simp add: audit_valid_def valid_audit_def sample_audit_def valid_datetime_def days_in_month_def)
  have "audit_listed sample_audit_query [sample_audit 1, sample_audit 2] = [sample_audit 2, sample_audit 1]"
    by (simp add: audit_listed_def audit_matches_def descending_by_def sample_audit_def audit_order_def
        sample_audit_query_def)
  moreover have "length [sample_audit 1, sample_audit 2] + 1 = 3" by simp
  ultimately show ?thesis
    using conjunct1 [OF audit_pages_complete [OF v zero_less_one, of sample_audit_query]] by (simp only:)
qed

text \<open>The pages of insights and of alerts are complete in the same way.\<close>

theorem insight_and_alert_pages_complete:
  assumes "insights_valid rows" "alerts_valid db" "0 < n"
  shows "walk_pages (\<lambda>c. list_insights (q\<lparr>iq_limit := n, iq_cursor := c\<rparr>) rows) (length rows + 1) None =
      Some (Inr (insights_listed q rows)) \<and>
    walk_pages (alerts_page u db n) (length (ad_rows db) + 1) None = Some (Inr (alerts_listed u db))"
proof
  have "length (insights_listed q rows) < length rows + 1"
    by (simp add: insights_listed_def length_descending le_imp_less_Suc)
  then show "walk_pages (\<lambda>c. list_insights (q\<lparr>iq_limit := n, iq_cursor := c\<rparr>) rows) (length rows + 1) None =
      Some (Inr (insights_listed q rows))" by (rule insights_pages.walk_all [OF assms(1,3)])
  have "length (alerts_listed u db) < length (ad_rows db) + 1"
    by (simp add: alerts_listed_def length_descending le_imp_less_Suc)
  then show "walk_pages (alerts_page u db n) (length (ad_rows db) + 1) None = Some (Inr (alerts_listed u db))"
    by (rule alerts_pages.walk_all [OF assms(2,3)])
qed

lemma decode_tx_cursor_Inl: "decode_tx_cursor s = Inl e \<Longrightarrow> e = InvalidCursorError"
  by (auto simp: decode_tx_cursor_def split: sum.splits)

text \<open>The listing of transactions answers every cursor: with a page size of at least one and no malformed
  category, its only error is the invalid cursor, which the client is told.  The listings of insights and
  alerts let the \<open>KeyError\<close>, \<open>TypeError\<close> and \<open>ValueError\<close> of a well-encoded but unfit cursor escape.\<close>

theorem bad_cursor_errors:
  assumes "0 < n" "list_transactions bind (user_query u f n c) rows = Inl e"
  shows "e = InvalidCursorError \<and>
    list_insights (q\<lparr>iq_cursor := Some (encode_cursor [])\<rparr>) irows = Inl KeyError \<and>
    alerts_page v db n (Some (encode_cursor [(''created_at'', ''yesterday'')])) = Inl ValueError"
proof (intro conjI)
  show "e = InvalidCursorError"
  proof (cases "\<exists>s e'. query_cursor c = Some s \<and> decode_tx_cursor s = Inl e'")
    case True
    then obtain s e' where "query_cursor c = Some s" "decode_tx_cursor s = Inl e'" by blast
    moreover from this(2) have "e' = InvalidCursorError" by (rule decode_tx_cursor_Inl)
    ultimately show ?thesis using assms(2) by (simp add: list_transactions_def user_query_def)
  next
    case False
    then show ?thesis using assms
      by (auto simp: list_transactions_def list_by_user_def optional_uuid_def user_query_def bindR_Inl_iff
          cursor_after_page simp del: length_take split: option.splits)
  qed
next
  have "decode_insight_cursor (encode_cursor []) = Inl KeyError"
    by (simp add: decode_insight_cursor_def decode_encode_cursor text_at_def subscript_def)
  then show "list_insights (q\<lparr>iq_cursor := Some (encode_cursor [])\<rparr>) irows = Inl KeyError"
    by (simp add: list_insights_def)
next
  have "datetime_of_iso ''yesterday'' = Inl ValueError" by code_simp
  then have "decode_alert_cursor (encode_cursor [(''created_at'', ''yesterday'')]) = Inl ValueError"
    by (simp add: decode_alert_cursor_def decode_encode_cursor text_at_JStr)
  then show "alerts_page v db n (Some (encode_cursor [(''created_at'', ''yesterday'')])) = Inl ValueError"
    by (simp add: alerts_page_def list_alerts_def)
qed

lemma bad_cursor_errors_witness:
  "list_transactions bind_param (user_query (UserId 1) None 1 (Some ''!'')) [] = Inl InvalidCursorError"
proof -
  have "decode_cursor ''!'' = Inl InvalidCursorError" by code_simp
  then have "decode_tx_cursor ''!'' = Inl InvalidCursorError" by (simp add: decode_tx_cursor_def)
  then have l: "list_transactions bind_param (user_query (UserId 1) None 1 (Some ''!'')) [] =
      Inl InvalidCursorError"
    by (simp add: list_transactions_def user_query_def)
  from bad_cursor_errors [OF zero_less_one this] l show ?thesis by simp
qed

end
