(* ===== verification/Chat.thy ===== *)
theory Chat
  imports ChatClient ChatTools Listings
begin

text \<open>The chat use cases: the daily token budget in Redis, the turns in the database with their paginated
  history, the plain and the streamed query with what they bill and save, and the event stream of the HTTP
  controller.  The AI client is a parameter here: what it answers, or the items it yields and how it ends.\<close>

section \<open>RedisChatTokenBudget\<close>

text \<open>A counter per user and day, with the time it expires (microseconds).\<close>

type_synonym budget = "user_id \<times> date \<Rightarrow> (nat \<times> int) option"

definition budget_ttl :: int where "budget_ttl = 25 * 3600 * 1000000"

definition tokens_used :: "datetime \<Rightarrow> user_id \<Rightarrow> budget \<Rightarrow> nat" where
  "tokens_used now u b = (case b (u, fst now) of None \<Rightarrow> 0
     | Some (v, expires) \<Rightarrow> if micros now < expires then v else 0)"

definition check_budget :: "nat \<Rightarrow> datetime \<Rightarrow> user_id \<Rightarrow> budget \<Rightarrow> (nat \<times> nat) + unit" where
  "check_budget limit now u b = (let current = tokens_used now u b
     in guardR (\<not> current \<ge> limit) (current, limit))"

definition record_tokens :: "datetime \<Rightarrow> user_id \<Rightarrow> nat \<Rightarrow> budget \<Rightarrow> budget" where
  "record_tokens now u tokens b =
     (if tokens = 0 then b
      else b((u, fst now) \<mapsto> (tokens_used now u b + tokens, micros now + budget_ttl)))"

section \<open>SqlaChatHistoryStore\<close>

record chat_turn =
  tn_id :: uuid
  tn_user :: user_id
  tn_role :: string
  tn_content :: string
  tn_chunks :: "json list"
  tn_created_at :: datetime

definition turn_order :: "chat_turn \<Rightarrow> datetime \<times> uuid" where
  "turn_order t = (tn_created_at t, tn_id t)"

definition last_n :: "user_id \<Rightarrow> nat \<Rightarrow> chat_turn list \<Rightarrow> chat_turn list" where
  "last_n u n rows = rev (take n (descending_by turn_order (filter (\<lambda>t. tn_user t = u) rows)))"

text \<open>A repeated id violates the primary key and rolls the transaction back.\<close>

fun save_turns :: "chat_turn list \<Rightarrow> chat_turn list \<Rightarrow> exn + chat_turn list" where
  "save_turns [] rows = Inr rows"
| "save_turns (t # ts) rows =
     (if tn_id t \<in> tn_id ` set rows then Inl StorageError else save_turns ts (rows @ [t]))"

definition append_turn_pair :: "chat_turn \<Rightarrow> chat_turn \<Rightarrow> chat_turn list \<Rightarrow> exn + chat_turn list" where
  "append_turn_pair user_turn assistant_turn rows = save_turns [user_turn, assistant_turn] rows"

definition turn_before :: "datetime \<times> uuid \<Rightarrow> chat_turn \<Rightarrow> bool" where
  "turn_before cur t = (case cur of (c, i) \<Rightarrow> tn_created_at t < c \<or> tn_created_at t = c \<and> tn_id t < i)"

definition turns_for_user :: "user_id \<Rightarrow> nat \<Rightarrow> (datetime \<times> uuid) option \<Rightarrow> chat_turn list \<Rightarrow> chat_turn list" where
  "turns_for_user u limit cur rows = take limit (descending_by turn_order
     (filter (\<lambda>t. tn_user t = u \<and> (case cur of None \<Rightarrow> True | Some c \<Rightarrow> turn_before c t)) rows))"

definition clear_turns :: "user_id \<Rightarrow> chat_turn list \<Rightarrow> chat_turn list" where
  "clear_turns u rows = filter (\<lambda>t. tn_user t \<noteq> u) rows"

definition encode_turn_cursor :: "chat_turn \<Rightarrow> string" where
  "encode_turn_cursor t = encode_cursor [(''created_at'', datetime_iso (tn_created_at t)), (''id'', uuid_str (tn_id t))]"

text \<open>A \<open>ValueError\<close> or \<open>KeyError\<close> becomes an \<open>InvalidCursorError\<close>.\<close>

definition decode_turn_cursor :: "string \<Rightarrow> exn + datetime \<times> uuid" where
  "decode_turn_cursor c = bindR (decode_cursor c) (\<lambda>raw.
     case bindR (text_at datetime_of_iso raw ''created_at'') (\<lambda>t.
          bindR (text_at uuid_of raw ''id'') (\<lambda>u. Inr (t, u))) of
       Inl e \<Rightarrow> Inl (if e = ValueError \<or> e = KeyError then InvalidCursorError else e)
     | Inr x \<Rightarrow> Inr x)"

definition list_chat_history ::
  "user_id \<Rightarrow> chat_turn list \<Rightarrow> nat \<Rightarrow> string option \<Rightarrow> exn + chat_turn list \<times> string option" where
  "list_chat_history u rows limit cursor =
     bindR (case query_cursor cursor of None \<Rightarrow> Inr None
            | Some c \<Rightarrow> bindR (decode_turn_cursor c) (\<lambda>x. Inr (Some x))) (\<lambda>cur.
     (let ts = turns_for_user u limit cur rows in
      bindR (if ts \<noteq> [] \<and> length ts = limit then cursor_after encode_turn_cursor ts else Inr None) (\<lambda>nxt.
      Inr (ts, nxt))))"

section \<open>The queries\<close>

definition history_turns :: nat where "history_turns = 5"

record chat_state =
  ch_turns :: "chat_turn list"
  ch_budget :: budget

text \<open>The ids and clock readings of one request, in the order they are taken.\<close>

record chat_stamps =
  sp_check :: datetime
  sp_user_at :: datetime
  sp_record :: datetime
  sp_assistant_at :: datetime
  sp_user_id :: uuid
  sp_assistant_id :: uuid

definition user_turn_of :: "chat_stamps \<Rightarrow> user_id \<Rightarrow> string \<Rightarrow> chat_turn" where
  "user_turn_of sp u msg = \<lparr>tn_id = sp_user_id sp, tn_user = u, tn_role = ''user'', tn_content = msg,
     tn_chunks = [], tn_created_at = sp_user_at sp\<rparr>"

definition assistant_turn_of :: "chat_stamps \<Rightarrow> user_id \<Rightarrow> string \<Rightarrow> string list \<Rightarrow> chat_turn" where
  "assistant_turn_of sp u answer tools = \<lparr>tn_id = sp_assistant_id sp, tn_user = u, tn_role = ''assistant'',
     tn_content = answer, tn_chunks = tools_metadata tools, tn_created_at = sp_assistant_at sp\<rparr>"

datatype chat_failure = BudgetExceeded nat nat | AIFailed ai_error | ChatRaised exn

record chat_result =
  cq_turn :: uuid
  cq_answer :: string
  cq_quality :: context_quality
  cq_created_at :: datetime

text \<open>\<open>ai\<close> answers for the history it is given.  The counter in Redis is not part of the transaction.\<close>

definition chat_query ::
  "nat \<Rightarrow> (chat_turn list \<Rightarrow> ai_error + chat_response) \<Rightarrow> chat_stamps \<Rightarrow> user_id \<Rightarrow> string \<Rightarrow> chat_state \<Rightarrow>
     (chat_failure + chat_result) \<times> chat_state" where
  "chat_query limit ai sp u msg st =
     (case check_budget limit (sp_check sp) u (ch_budget st) of
        Inl (current, l) \<Rightarrow> (Inl (BudgetExceeded current l), st)
      | Inr _ \<Rightarrow> (case ai (last_n u history_turns (ch_turns st)) of
          Inl e \<Rightarrow> (Inl (AIFailed e), st)
        | Inr r \<Rightarrow>
            (let st1 = st\<lparr>ch_budget := record_tokens (sp_record sp) u (cr_prompt r + cr_completion r) (ch_budget st)\<rparr>;
                 a = assistant_turn_of sp u (cr_answer r) (cr_tools r)
             in case append_turn_pair (user_turn_of sp u msg) a (ch_turns st1) of
                  Inl e \<Rightarrow> (Inl (ChatRaised e), st1)
                | Inr rows \<Rightarrow> (Inr \<lparr>cq_turn = tn_id a, cq_answer = cr_answer r, cq_quality = CQ_FULL,
                    cq_created_at = tn_created_at a\<rparr>, st1\<lparr>ch_turns := rows\<rparr>))))"

text \<open>The items a consumer that closes the stream after the \<open>k\<close>-th token has pulled, and whether it
  closed it.\<close>

fun upto_token :: "nat \<Rightarrow> stream_item list \<Rightarrow> stream_item list \<times> bool" where
  "upto_token k [] = ([], False)"
| "upto_token k (Usage p c ts # is) = (case upto_token k is of (xs, b) \<Rightarrow> (Usage p c ts # xs, b))"
| "upto_token k (Token t # is) =
     (if k \<le> 1 then ([Token t], True) else case upto_token (k - 1) is of (xs, b) \<Rightarrow> (Token t # xs, b))"

definition pulled :: "nat option \<Rightarrow> stream_item list \<Rightarrow> stream_item list \<times> bool" where
  "pulled close items = (case close of None \<Rightarrow> (items, False) | Some k \<Rightarrow> upto_token k items)"

definition usage_tokens :: "stream_item list \<Rightarrow> nat" where
  "usage_tokens items = foldl (\<lambda>n i. case i of Usage p c _ \<Rightarrow> p + c | Token _ \<Rightarrow> n) 0 items"

definition usage_tools :: "stream_item list \<Rightarrow> string list" where
  "usage_tools items = foldl (\<lambda>ts i. case i of Usage _ _ ts' \<Rightarrow> ts' | Token _ \<Rightarrow> ts) [] items"

definition estimate_tokens_from_text :: "string \<Rightarrow> chat_turn list \<Rightarrow> string \<Rightarrow> nat" where
  "estimate_tokens_from_text msg history answer =
     (length msg + sum_list (map (\<lambda>t. length (tn_content t)) history) + length answer) div 4 + 1"

datatype stream_outcome = StreamDone uuid string datetime | StreamFailed chat_error | StreamClosed
  | StreamRefused nat nat

text \<open>The \<open>finally\<close> block; \<open>record_ok\<close> and \<open>save_ok\<close> say whether Redis and the database work, since
  their exceptions are logged and swallowed.\<close>

definition tokens_to_record :: "string \<Rightarrow> chat_turn list \<Rightarrow> stream_item list \<Rightarrow> nat" where
  "tokens_to_record msg history items =
     (let answer = answer_of items in
      if usage_tokens items = 0 \<and> answer \<noteq> [] then estimate_tokens_from_text msg history answer
      else usage_tokens items)"

definition stream_finally ::
  "bool \<Rightarrow> bool \<Rightarrow> chat_stamps \<Rightarrow> user_id \<Rightarrow> string \<Rightarrow> chat_turn list \<Rightarrow> stream_item list \<Rightarrow> chat_state \<Rightarrow>
     datetime \<times> chat_state" where
  "stream_finally record_ok save_ok sp u msg history items st =
     (let n = tokens_to_record msg history items;
          st1 = (if 0 < n \<and> record_ok then st\<lparr>ch_budget := record_tokens (sp_record sp) u n (ch_budget st)\<rparr> else st);
          a = assistant_turn_of sp u (answer_of items) (usage_tools items)
      in if answer_of items \<noteq> [] \<and> save_ok then
           (case append_turn_pair (user_turn_of sp u msg) a (ch_turns st1) of
              Inl e \<Rightarrow> (sp_user_at sp, st1)
            | Inr rows \<Rightarrow> (tn_created_at a, st1\<lparr>ch_turns := rows\<rparr>))
         else (sp_user_at sp, st1))"

definition chat_stream ::
  "nat \<Rightarrow> (chat_turn list \<Rightarrow> stream_item list \<times> chat_error option) \<Rightarrow> nat option \<Rightarrow> bool \<Rightarrow> bool \<Rightarrow>
     chat_stamps \<Rightarrow> user_id \<Rightarrow> string \<Rightarrow> chat_state \<Rightarrow> string list \<times> stream_outcome \<times> chat_state" where
  "chat_stream limit ai close record_ok save_ok sp u msg st =
     (case check_budget limit (sp_check sp) u (ch_budget st) of
        Inl (current, l) \<Rightarrow> ([], StreamRefused current l, st)
      | Inr _ \<Rightarrow>
          (let history = last_n u history_turns (ch_turns st);
               (items, err) = ai history;
               (seen, closed) = pulled close items;
               (created, st') = stream_finally record_ok save_ok sp u msg history seen st
           in (List.map_filter (\<lambda>i. case i of Token t \<Rightarrow> Some t | _ \<Rightarrow> None) seen,
               (if closed then StreamClosed
                else case err of Some e \<Rightarrow> StreamFailed e
                  | None \<Rightarrow> StreamDone (sp_assistant_id sp) ''full'' created), st')))"

text \<open>The controller: the lines of the event stream, and whether the response breaks off with an exception
  after its status line has been sent.\<close>

definition sse_line :: "json \<Rightarrow> string" where
  "sse_line v = ''data: '' @ json_dumps v @ [CHR 0x0A, CHR 0x0A]"

definition stream_lines :: "string list \<Rightarrow> stream_outcome \<Rightarrow> string list \<times> bool" where
  "stream_lines tokens out =
     (let ls = map (\<lambda>t. sse_line (JObj [(''type'', JStr ''token''), (''content'', JStr t)])) tokens
      in case out of
        StreamDone i q t \<Rightarrow> (ls @ [sse_line (JObj [(''type'', JStr ''done''), (''turn_id'', JStr (uuid_str i)),
            (''context_quality'', JStr q), (''created_at'', JStr (datetime_iso t))])], False)
      | StreamFailed (AI e) \<Rightarrow> (ls @ [sse_line (JObj [(''type'', JStr ''error''),
            (''message'', JStr ''AI service temporarily unavailable. Please try again.'')])], False)
      | StreamFailed (Raised e) \<Rightarrow> (ls, True)
      | StreamClosed \<Rightarrow> (ls, False)
      | StreamRefused c l \<Rightarrow> (ls, True))"

section \<open>The counter of a day\<close>

definition day_time :: "datetime \<Rightarrow> bool" where
  "day_time t \<longleftrightarrow> 0 \<le> snd t \<and> snd t < 86400000000"

definition day_total :: "user_id \<Rightarrow> date \<Rightarrow> (datetime \<times> user_id \<times> nat) list \<Rightarrow> nat" where
  "day_total u d evs = sum_list (map (\<lambda>(t, v, n). if v = u \<and> fst t = d then n else 0) evs)"

definition record_all :: "(datetime \<times> user_id \<times> nat) list \<Rightarrow> budget \<Rightarrow> budget" where
  "record_all evs b = fold (\<lambda>(t, u, n). record_tokens t u n) evs b"

text \<open>A counter is alive to the end of its day: it was last refreshed on that day, for 25 hours.\<close>

definition counter_ok :: "budget \<Rightarrow> (user_id \<Rightarrow> date \<Rightarrow> nat) \<Rightarrow> bool" where
  "counter_ok b spent \<longleftrightarrow> (\<forall>u d. case b (u, d) of None \<Rightarrow> spent u d = 0
     | Some (v, e) \<Rightarrow> v = spent u d \<and> (toordinal d + 1) * 86400000000 \<le> e)"

lemma counter_live:
  assumes "counter_ok b spent" "day_time now"
  shows "tokens_used now u b = spent u (fst now)"
proof -
  have "micros now < (toordinal (fst now) + 1) * 86400000000"
    using assms(2) by (simp add: micros_def day_time_def)
  moreover have "case b (u, fst now) of None \<Rightarrow> spent u (fst now) = 0
     | Some (v, e) \<Rightarrow> v = spent u (fst now) \<and> (toordinal (fst now) + 1) * 86400000000 \<le> e"
    using assms(1) by (simp add: counter_ok_def)
  ultimately show ?thesis by (auto simp: tokens_used_def split: option.splits)
qed

lemma counter_record:
  assumes "counter_ok b spent" "day_time t"
  shows "counter_ok (record_tokens t v n b) (\<lambda>u d. spent u d + (if v = u \<and> fst t = d then n else 0))"
proof -
  have "(toordinal (fst t) + 1) * 86400000000 \<le> micros t + budget_ttl"
    using assms(2) by (simp add: micros_def day_time_def budget_ttl_def)
  note live = counter_live [OF assms, of v] this
  show ?thesis
    unfolding counter_ok_def
  proof (intro allI)
    fix u d
    have "case b (u, d) of None \<Rightarrow> spent u d = 0
     | Some (w, e) \<Rightarrow> w = spent u d \<and> (toordinal d + 1) * 86400000000 \<le> e"
      using assms(1) by (simp add: counter_ok_def)
    then show "case record_tokens t v n b (u, d) of
        None \<Rightarrow> spent u d + (if v = u \<and> fst t = d then n else 0) = 0
      | Some (w, e) \<Rightarrow> w = spent u d + (if v = u \<and> fst t = d then n else 0) \<and>
          (toordinal d + 1) * 86400000000 \<le> e"
      using live by (auto simp: record_tokens_def split: option.splits)
  qed
qed

lemma counter_all:
  assumes "counter_ok b spent" "list_all (\<lambda>(t, u, n). day_time t) evs"
  shows "counter_ok (record_all evs b) (\<lambda>u d. spent u d + day_total u d evs)"
  using assms
proof (induction evs arbitrary: b spent)
  case (Cons ev evs)
  obtain t v n where ev: "ev = (t, v, n)" by (cases ev)
  have "counter_ok (record_tokens t v n b) (\<lambda>u d. spent u d + (if v = u \<and> fst t = d then n else 0))"
    using Cons.prems ev by (intro counter_record) auto
  from Cons.IH [OF this] Cons.prems(2) ev show ?case
    by (simp add: record_all_def day_total_def add.assoc)
qed (simp add: record_all_def day_total_def)

section \<open>The history meets the contract of a listing\<close>

definition turns_valid :: "chat_turn list \<Rightarrow> bool" where
  "turns_valid rows \<longleftrightarrow> list_all (\<lambda>t. valid_datetime (tn_created_at t) \<and> tn_id t < 2 ^ 128) rows \<and>
     distinct (map tn_id rows)"

definition turns_listed :: "user_id \<Rightarrow> chat_turn list \<Rightarrow> chat_turn list" where
  "turns_listed u rows = descending_by turn_order (filter (\<lambda>t. tn_user t = u) rows)"

lemma turn_cursor_roundtrip:
  "valid_datetime (tn_created_at t) \<Longrightarrow> tn_id t < 2 ^ 128 \<Longrightarrow>
    decode_turn_cursor (encode_turn_cursor t) = Inr (turn_order t)"
  by (simp add: decode_turn_cursor_def encode_turn_cursor_def cursor_roundtrips turn_order_def)

lemma turn_page:
  assumes "0 < n"
  shows "(if take n xs \<noteq> [] \<and> length (take n xs) = n then cursor_after enc (take n xs) else Inr None) =
    Inr (if n \<le> length xs then Some (enc (last (take n xs))) else None)"
proof -
  have "length (take n xs) = n \<Longrightarrow> take n xs \<noteq> []" using assms by auto
  then show ?thesis using cursor_after_page [OF assms, of xs enc] by (simp split: if_splits)
qed

interpretation turn_pages: keyset_listing "list_chat_history u" turns_valid "turns_listed u"
    turn_order encode_turn_cursor "\<lambda>n xs. n \<le> length xs"
  for u
proof (unfold_locales, goal_cases)
  case (1 db)
  then have "distinct (map turn_order db)"
    by (intro distinct_snd_key) (simp add: turns_valid_def turn_order_def)
  then show ?case
    unfolding turns_listed_def by (intro descending_strict distinct_map_filter_key)
next
  case (2 db n)
  then show ?case
    by (simp add: list_chat_history_def turns_for_user_def turns_listed_def Let_def turn_page
        del: length_take take_eq_Nil)
next
  case (3 db n r rest)
  have "valid_datetime (tn_created_at r)" "tn_id r < 2 ^ 128"
    using 3(1,3) by (auto simp: turns_valid_def turns_listed_def list_all_iff)
  note d = turn_cursor_roundtrip [OF this]
  have "turn_before (turn_order r) t \<longleftrightarrow> turn_order t < turn_order r" for t
    by (auto simp: turn_before_def turn_order_def le_less)
  then have "descending_by turn_order (filter (\<lambda>t. tn_user t = u \<and> turn_before (turn_order r) t) db) = rest"
    by (simp add: 3(4) turns_listed_def flip: descending_filter)
  moreover have "encode_turn_cursor r \<noteq> []" by (simp add: encode_turn_cursor_def)
  ultimately show ?case
    using 3(2) d by (simp add: list_chat_history_def turns_for_user_def Let_def turn_page
        del: length_take take_eq_Nil)
qed auto

section \<open>What a stream bills\<close>

definition spent_after :: "(nat \<times> nat) list \<Rightarrow> nat" where
  "spent_after us = sum_list (map (\<lambda>(p, c). p + c) us)"

lemma usage_tokens_last:
  "usage_tokens items = (case usages items of [] \<Rightarrow> 0 | _ \<Rightarrow> fst (last (usages items)) + snd (last (usages items)))"
proof (induction items rule: rev_induct)
  case (snoc i items)
  then show ?case by (cases i) (auto simp: usage_tokens_def split: list.splits)
qed (simp add: usage_tokens_def)

lemma running_totals_nth:
  "j < length us \<Longrightarrow> fst (running_totals p c us ! j) + snd (running_totals p c us ! j) =
    p + c + spent_after (take (Suc j) us)"
proof (induction us arbitrary: p c j)
  case (Cons u us)
  then show ?case by (cases j; cases u) (simp_all add: spent_after_def)
qed simp

lemma length_running_totals [simp]: "length (running_totals p c us) = length us"
  by (induction p c us rule: running_totals.induct) auto

lemma usage_tokens_prefix:
  assumes "usages items = take j (running_totals 0 0 us)" "j \<le> length us"
  shows "usage_tokens items = spent_after (take j us)"
proof (cases j)
  case 0
  then show ?thesis using assms by (simp add: usage_tokens_last spent_after_def)
next
  case (Suc k)
  have "k < length (running_totals 0 0 us)" using assms(2) Suc by simp
  then have "usages items = take k (running_totals 0 0 us) @ [running_totals 0 0 us ! k]"
    using assms(1) Suc by (simp add: take_Suc_conv_app_nth)
  then have l: "last (usages items) = running_totals 0 0 us ! k" "usages items \<noteq> []" by simp_all
  have "usage_tokens items = fst (last (usages items)) + snd (last (usages items))"
    using l(2) by (simp add: usage_tokens_last split: list.splits)
  then show ?thesis using running_totals_nth [of k us 0 0] assms(2) Suc unfolding l(1) by simp
qed

lemma upto_token_usages: "\<exists>j. usages (fst (upto_token k items)) = take j (usages items) \<and> j \<le> length (usages items)"
proof (induction k items rule: upto_token.induct)
  case (2 k p c ts items)
  then obtain j where "usages (fst (upto_token k items)) = take j (usages items)" "j \<le> length (usages items)"
    by blast
  then show ?case by (intro exI [of _ "Suc j"]) (simp add: case_prod_unfold)
next
  case (3 k t items)
  show ?case
  proof (cases "k \<le> 1")
    case False
    then show ?thesis using 3 by (simp add: case_prod_unfold)
  qed (auto intro: exI [of _ 0])
qed simp

lemma pulled_usages: "\<exists>j. usages (fst (pulled close items)) = take j (usages items) \<and> j \<le> length (usages items)"
proof (cases close)
  case None
  then show ?thesis by (intro exI [of _ "length (usages items)"]) (simp add: pulled_def)
next
  case (Some k)
  then show ?thesis using upto_token_usages [of k items] by (simp add: pulled_def)
qed

lemma stream_finally_budget:
  "ch_budget (snd (stream_finally True save_ok sp u msg history items st)) =
    (if 0 < tokens_to_record msg history items
     then record_tokens (sp_record sp) u (tokens_to_record msg history items) (ch_budget st) else ch_budget st)"
  by (auto simp: stream_finally_def Let_def split: sum.split)

section \<open>Properties\<close>

text \<open>C8 The budget is exact for the day: however the recorded uses of all users are spread over the days,
  the counter read on a day is the sum of what the user was billed on that day, no counter expires before its
  day ends, and a request is let through exactly while that sum is below the limit.\<close>

theorem budget_counts_the_day:
  assumes "list_all (\<lambda>(t, v, n). day_time t) evs" "day_time now"
  shows "tokens_used now u (record_all evs (\<lambda>_. None)) = day_total u (fst now) evs \<and>
    (check_budget limit now u (record_all evs (\<lambda>_. None)) = Inr () \<longleftrightarrow> day_total u (fst now) evs < limit)"
proof -
  have "counter_ok (\<lambda>_. None) (\<lambda>_ _. 0)" by (simp add: counter_ok_def)
  from counter_live [OF counter_all [OF this assms(1)] assms(2)]
  have "tokens_used now u (record_all evs (\<lambda>_. None)) = day_total u (fst now) evs" by simp
  then show ?thesis by (simp add: check_budget_def Let_def not_le)
qed

lemma budget_counts_the_day_witness:
  "tokens_used (Date 2024 1 2, 5) (UserId 1) (record_all [((Date 2024 1 1, 7), UserId 1, 30),
      ((Date 2024 1 2, 0), UserId 1, 10), ((Date 2024 1 2, 3), UserId 1, 4)] (\<lambda>_. None)) = 14"
proof -
  let ?evs = "[((Date 2024 1 1, 7 :: int), UserId 1, 30), ((Date 2024 1 2, 0), UserId 1, 10),
    ((Date 2024 1 2, 3), UserId 1, 4 :: nat)]"
  have "list_all (\<lambda>(t, v, n). day_time t) ?evs" "day_time (Date 2024 1 2, 5)" by (simp_all add: day_time_def)
  from budget_counts_the_day [OF this, of "UserId 1"] show ?thesis by (simp add: day_total_def)
qed


definition sample_stamps :: chat_stamps where
  "sample_stamps = \<lparr>sp_check = (Date 2024 1 1, 0), sp_user_at = (Date 2024 1 1, 1), sp_record = (Date 2024 1 1, 2),
     sp_assistant_at = (Date 2024 1 1, 3), sp_user_id = 1, sp_assistant_id = 2\<rparr>"

definition empty_chat :: chat_state where
  "empty_chat = \<lparr>ch_turns = [], ch_budget = \<lambda>_. None\<rparr>"

lemma closed_sample:
  "\<exists>st'. chat_stream 100 (\<lambda>_. stream_with_tools sample_model (\<lambda>_ _. Inr JNull) 1 sample_messages) (Some 1) True True
     sample_stamps (UserId 1) ''hello'' empty_chat = ([''hi''], StreamClosed, st')"
proof -
  have "check_budget 100 (sp_check sample_stamps) (UserId 1) (ch_budget empty_chat) = Inr ()"
    by (simp add: check_budget_def tokens_used_def empty_chat_def sample_stamps_def)
  then show ?thesis
    by (simp add: chat_stream_def sample_stream pulled_def map_filter_simps Let_def split: prod.splits)
qed


lemma insort_snoc: "key x \<le> key a \<Longrightarrow> insort_key key x (ys @ [a]) = insort_key key x ys @ [a]"
  by (induction ys) auto

lemma sort_snoc: "\<forall>x\<in>set xs. key x \<le> key a \<Longrightarrow> sort_key key (xs @ [a]) = sort_key key xs @ [a]"
  by (induction xs) (simp_all add: insort_snoc)

lemma last_two:
  assumes "tn_user a = u" "tn_user b = u" "turn_order a < turn_order b"
    and "\<forall>t\<in>set rows. turn_order t < turn_order a"
  shows "last_n u 2 (rows @ [a, b]) = [a, b]"
proof -
  let ?xs = "filter (\<lambda>t. tn_user t = u) rows"
  have "\<forall>t\<in>set ?xs. turn_order t \<le> turn_order a" using assms(4) by auto
  then have "sort_key turn_order (?xs @ [a]) = sort_key turn_order ?xs @ [a]" by (rule sort_snoc)
  moreover have "\<forall>t\<in>set (?xs @ [a]). turn_order t \<le> turn_order b" using assms(3,4) by fastforce
  then have "sort_key turn_order ((?xs @ [a]) @ [b]) = sort_key turn_order (?xs @ [a]) @ [b]" by (rule sort_snoc)
  ultimately show ?thesis using assms(1,2) by (simp add: last_n_def descending_by_def)
qed

text \<open>A finished exchange is what the next question sees: once a stream has produced text, the last two
  turns of the user are the question and then its answer, even if the client has closed the stream,
  provided that the database takes them, the clock did not go back and the ids are new.\<close>

theorem exchange_is_remembered:
  assumes "chat_stream limit ai close record_ok True sp u msg st = (tokens, out, st')" "concat tokens \<noteq> []"
    and "(sp_user_at sp, sp_user_id sp) < (sp_assistant_at sp, sp_assistant_id sp)"
    and "\<forall>t\<in>set (ch_turns st). turn_order t < (sp_user_at sp, sp_user_id sp) \<and>
      tn_id t \<noteq> sp_user_id sp \<and> tn_id t \<noteq> sp_assistant_id sp"
    and "sp_user_id sp \<noteq> sp_assistant_id sp"
  shows "\<exists>tools. last_n u 2 (ch_turns st') =
    [user_turn_of sp u msg, assistant_turn_of sp u (concat tokens) tools]"
proof -
  let ?h = "last_n u history_turns (ch_turns st)"
  obtain items err where s: "ai ?h = (items, err)" by fastforce
  obtain seen closed where p: "pulled close items = (seen, closed)" by fastforce
  have checked: "check_budget limit (sp_check sp) u (ch_budget st) = Inr ()"
    using assms(1,2) by (cases "check_budget limit (sp_check sp) u (ch_budget st)")
      (auto simp: chat_stream_def)
  have t: "tokens = List.map_filter (\<lambda>i. case i of Token t \<Rightarrow> Some t | _ \<Rightarrow> None) seen"
    and st': "st' = snd (stream_finally record_ok True sp u msg ?h seen st)"
    using assms(1) s p checked by (auto simp: chat_stream_def Let_def split: prod.splits)
  have "concat (List.map_filter (\<lambda>i. case i of Token t \<Rightarrow> Some t | _ \<Rightarrow> None) xs) = answer_of xs" for xs
    by (induction xs) (auto simp: map_filter_simps split: stream_item.splits)
  then have a: "answer_of seen = concat tokens" using t by simp
  let ?u = "user_turn_of sp u msg" and ?a = "assistant_turn_of sp u (concat tokens) (usage_tools seen)"
  have "append_turn_pair ?u ?a (ch_turns st) = Inr (ch_turns st @ [?u, ?a])"
    using assms(4,5) by (auto simp: append_turn_pair_def user_turn_of_def assistant_turn_of_def)
  then have "ch_turns st' = ch_turns st @ [?u, ?a]"
    using assms(2) a by (simp add: st' stream_finally_def Let_def)
  moreover have "last_n u 2 (ch_turns st @ [?u, ?a]) = [?u, ?a]"
    using assms(3,4) by (intro last_two) (simp_all add: user_turn_of_def assistant_turn_of_def turn_order_def)
  ultimately show ?thesis by auto
qed

lemma exchange_is_remembered_witness:
  "\<exists>st' tools. chat_stream 100 (\<lambda>_. stream_with_tools sample_model (\<lambda>_ _. Inr JNull) 1 sample_messages) (Some 1)
      True True sample_stamps (UserId 1) ''hello'' empty_chat = ([''hi''], StreamClosed, st') \<and>
    last_n (UserId 1) 2 (ch_turns st') = [user_turn_of sample_stamps (UserId 1) ''hello'',
      assistant_turn_of sample_stamps (UserId 1) ''hi'' tools]"
proof -
  obtain st' where c: "chat_stream 100 (\<lambda>_. stream_with_tools sample_model (\<lambda>_ _. Inr JNull) 1 sample_messages)
      (Some 1) True True sample_stamps (UserId 1) ''hello'' empty_chat = ([''hi''], StreamClosed, st')"
    using closed_sample by blast
  from exchange_is_remembered [OF this] c show ?thesis by (auto simp: sample_stamps_def empty_chat_def)
qed

text \<open>A request over the budget reaches neither the AI service nor the store; on the stream endpoint the
  refusal is raised inside the response, which has started as a 200 and breaks off without a line.\<close>

theorem over_budget_is_refused:
  assumes "limit \<le> tokens_used (sp_check sp) u (ch_budget st)"
  shows "chat_query limit plain sp u msg st = (Inl (BudgetExceeded (tokens_used (sp_check sp) u (ch_budget st)) limit), st) \<and>
    chat_stream limit ai close record_ok save_ok sp u msg st =
      ([], StreamRefused (tokens_used (sp_check sp) u (ch_budget st)) limit, st) \<and>
    stream_lines [] (StreamRefused (tokens_used (sp_check sp) u (ch_budget st)) limit) = ([], True)"
  using assms by (simp add: chat_query_def chat_stream_def check_budget_def Let_def stream_lines_def)

end
