(* ===== verification/Gateway.thy ===== *)
theory Gateway
  imports ChatClient PyNum
begin

text \<open>The parts of OpenAIGateway around a call: the bounded queue before the rate limiter, with all
  callers interleaved, the translation of every exception of a call, and the price of its tokens
  (pricing.py).  The rate limiter decides when a waiting caller is admitted, the circuit breaker whether
  it is open; both are third-party code and arguments or choices here.\<close>

section \<open>The bounded queue\<close>

datatype endpoint = E_chat | E_vision | E_parse

datatype call_phase = Arriving | Waiting | Admitted | Rejected | Abandoned

record queue_state =
  qs_waiting :: "endpoint \<Rightarrow> nat"
  qs_callers :: "(endpoint \<times> call_phase) list"

definition set_phase :: "nat \<Rightarrow> call_phase \<Rightarrow> queue_state \<Rightarrow> queue_state" where
  "set_phase i ph st = st\<lparr>qs_callers := (qs_callers st)[i := (fst (qs_callers st ! i), ph)]\<rparr>"

text \<open>\<open>_acquire\<close> up to its first suspension: the caller is turned away, or counted and suspended.\<close>

definition acquire_enter :: "nat \<Rightarrow> nat \<Rightarrow> queue_state \<Rightarrow> queue_state" where
  "acquire_enter max_queue i st =
     (let e = fst (qs_callers st ! i) in
      if qs_waiting st e \<ge> max_queue then set_phase i Rejected st
      else set_phase i Waiting (st\<lparr>qs_waiting := (qs_waiting st)(e := qs_waiting st e + 1)\<rparr>))"

text \<open>Its \<open>finally\<close> block, after the limiter's token or a cancellation.\<close>

definition acquire_leave :: "call_phase \<Rightarrow> nat \<Rightarrow> queue_state \<Rightarrow> queue_state" where
  "acquire_leave ph i st =
     (let e = fst (qs_callers st ! i)
      in set_phase i ph (st\<lparr>qs_waiting := (qs_waiting st)(e := qs_waiting st e - 1)\<rparr>))"

inductive queue_step :: "nat \<Rightarrow> queue_state \<Rightarrow> queue_state \<Rightarrow> bool" for max_queue where
  arrive: "queue_step max_queue st (st\<lparr>qs_callers := qs_callers st @ [(e, Arriving)]\<rparr>)"
| enter: "i < length (qs_callers st) \<Longrightarrow> snd (qs_callers st ! i) = Arriving \<Longrightarrow>
    queue_step max_queue st (acquire_enter max_queue i st)"
| admit: "i < length (qs_callers st) \<Longrightarrow> snd (qs_callers st ! i) = Waiting \<Longrightarrow>
    queue_step max_queue st (acquire_leave Admitted i st)"
| cancel: "i < length (qs_callers st) \<Longrightarrow> snd (qs_callers st ! i) = Waiting \<Longrightarrow>
    queue_step max_queue st (acquire_leave Abandoned i st)"

inductive_cases queue_stepE: "queue_step max_queue st st'"

definition idle_queue :: queue_state where
  "idle_queue = \<lparr>qs_waiting = (\<lambda>_. 0), qs_callers = []\<rparr>"

inductive queue_reachable :: "nat \<Rightarrow> queue_state \<Rightarrow> bool" for max_queue where
  start: "queue_reachable max_queue idle_queue"
| step: "queue_reachable max_queue st \<Longrightarrow> queue_step max_queue st st' \<Longrightarrow> queue_reachable max_queue st'"

definition waiting_callers :: "endpoint \<Rightarrow> queue_state \<Rightarrow> nat" where
  "waiting_callers e st = length (filter (\<lambda>c. c = (e, Waiting)) (qs_callers st))"

section \<open>A call\<close>

datatype 'a call_outcome = Returned 'a | Threw sdk_error | CancelledCall

datatype 'a call_result = Answered 'a | Failed ai_error | Interrupted

definition gateway_call :: "bool \<Rightarrow> bool \<Rightarrow> 'a call_outcome \<Rightarrow> 'a call_result" where
  "gateway_call queue_full breaker_open outcome =
     (if queue_full then Failed AIRateLimitedError
      else if breaker_open then Failed (map_exception OpenedState)
      else case outcome of Returned x \<Rightarrow> Answered x | Threw e \<Rightarrow> Failed (map_exception e)
        | CancelledCall \<Rightarrow> Interrupted)"

section \<open>estimate_cost\<close>

definition prompt_rates :: "(string \<times> decimal) list" where
  "prompt_rates = [(''gpt-4o-mini'', Dec False 150 (- 3)), (''gpt-4o-mini-2024-07-18'', Dec False 150 (- 3)),
     (''gpt-4o'', Dec False 2500 (- 3)), (''gpt-4o-2024-08-06'', Dec False 2500 (- 3))]"

definition completion_rates :: "(string \<times> decimal) list" where
  "completion_rates = [(''gpt-4o-mini'', Dec False 600 (- 3)), (''gpt-4o-mini-2024-07-18'', Dec False 600 (- 3)),
     (''gpt-4o'', Dec False 10000 (- 3)), (''gpt-4o-2024-08-06'', Dec False 10000 (- 3))]"

definition dec_of_int :: "int \<Rightarrow> decimal" where
  "dec_of_int i = Dec (i < 0) (nat \<bar>i\<bar>) 0"

definition cached_discount :: decimal where "cached_discount = Dec False 5 (- 1)"

definition estimate_cost :: "string \<Rightarrow> int \<Rightarrow> int \<Rightarrow> int \<Rightarrow> pyfloat" where
  "estimate_cost model prompt_tokens completion_tokens cached_tokens =
     (case (map_of prompt_rates model, map_of completion_rates model) of
        (Some prompt_rate, Some completion_rate) \<Rightarrow>
          (let cached = min (max cached_tokens 0) prompt_tokens; uncached_prompt = prompt_tokens - cached
           in float_of_dec (dec_div
                (dec_add (dec_add (dec_mul prompt_rate (dec_of_int uncached_prompt))
                           (dec_mul (dec_mul prompt_rate cached_discount) (dec_of_int cached)))
                  (dec_mul completion_rate (dec_of_int completion_tokens)))
                (Dec False 1000000 0)))
      | _ \<Rightarrow> 0)"

section \<open>Lemmas\<close>

lemma filter_update_length:
  "i < length xs \<Longrightarrow> length (filter P (xs[i := y])) + (if P (xs ! i) then 1 else 0) =
     length (filter P xs) + (if P y then 1 else 0)"
proof (induction xs arbitrary: i)
  case (Cons x xs)
  then show ?case by (cases i) auto
qed simp

definition queue_inv :: "nat \<Rightarrow> queue_state \<Rightarrow> bool" where
  "queue_inv max_queue st \<longleftrightarrow> (\<forall>e. qs_waiting st e = waiting_callers e st \<and> waiting_callers e st \<le> max_queue)"

lemma waiting_set_phase:
  assumes "i < length (qs_callers st)"
  shows "waiting_callers e (set_phase i ph st) + (if qs_callers st ! i = (e, Waiting) then 1 else 0) =
    waiting_callers e st + (if fst (qs_callers st ! i) = e \<and> ph = Waiting then 1 else 0)"
  using filter_update_length [OF assms, of "\<lambda>c. c = (e, Waiting)" "(fst (qs_callers st ! i), ph)"]
  by (simp add: waiting_callers_def set_phase_def)

lemma waiting_append: "waiting_callers e (st\<lparr>qs_callers := qs_callers st @ [(e', Arriving)]\<rparr>) = waiting_callers e st"
  by (simp add: waiting_callers_def)

lemma waiting_count [simp]: "waiting_callers e (st\<lparr>qs_waiting := w\<rparr>) = waiting_callers e st"
  by (simp add: waiting_callers_def)

lemma qs_waiting_set_phase [simp]: "qs_waiting (set_phase i ph st) = qs_waiting st"
  by (simp add: set_phase_def)

lemma enter_inv:
  assumes "i < length (qs_callers st)" "snd (qs_callers st ! i) = Arriving" "queue_inv max_queue st"
  shows "queue_inv max_queue (acquire_enter max_queue i st)"
proof -
  obtain e where c: "qs_callers st ! i = (e, Arriving)" using assms(2) by (cases "qs_callers st ! i") auto
  show ?thesis
  proof (cases "qs_waiting st e \<ge> max_queue")
    case True
    then have "waiting_callers e' (acquire_enter max_queue i st) = waiting_callers e' st" for e'
      using waiting_set_phase [OF assms(1), of e' Rejected] by (simp add: acquire_enter_def c)
    then show ?thesis using assms(3) True by (simp add: queue_inv_def acquire_enter_def c)
  next
    case False
    let ?st = "st\<lparr>qs_waiting := (qs_waiting st)(e := qs_waiting st e + 1)\<rparr>"
    have "waiting_callers e' (set_phase i Waiting ?st) = waiting_callers e' st + (if e' = e then 1 else 0)" for e'
      using waiting_set_phase [of i ?st e' Waiting] assms(1) by (auto simp: c)
    then show ?thesis using assms(3) False by (auto simp: queue_inv_def acquire_enter_def c Let_def)
  qed
qed

lemma leave_inv:
  assumes "i < length (qs_callers st)" "snd (qs_callers st ! i) = Waiting" "queue_inv max_queue st" "ph \<noteq> Waiting"
  shows "queue_inv max_queue (acquire_leave ph i st)"
proof -
  obtain e where c: "qs_callers st ! i = (e, Waiting)" using assms(2) by (cases "qs_callers st ! i") auto
  let ?st = "st\<lparr>qs_waiting := (qs_waiting st)(e := qs_waiting st e - 1)\<rparr>"
  have n: "waiting_callers e' (set_phase i ph ?st) + (if e' = e then 1 else 0) = waiting_callers e' st" for e'
    using waiting_set_phase [of i ?st e' ph] assms(1,4) by (auto simp: c)
  show ?thesis
    unfolding queue_inv_def
  proof
    fix e'
    show "qs_waiting (acquire_leave ph i st) e' = waiting_callers e' (acquire_leave ph i st) \<and>
        waiting_callers e' (acquire_leave ph i st) \<le> max_queue"
      using n [of e'] assms(3) [unfolded queue_inv_def, rule_format, of e']
      by (auto simp: acquire_leave_def c Let_def split: if_splits)
  qed
qed

lemma queue_step_inv: "queue_step max_queue st st' \<Longrightarrow> queue_inv max_queue st \<Longrightarrow> queue_inv max_queue st'"
proof (induction rule: queue_step.induct)
  case (arrive st e)
  then show ?case by (simp only: queue_inv_def waiting_append) simp
qed (simp_all add: enter_inv leave_inv)

lemma queue_invariant: "queue_reachable max_queue st \<Longrightarrow> queue_inv max_queue st"
proof (induction rule: queue_reachable.induct)
  case start
  then show ?case by (simp add: queue_inv_def idle_queue_def waiting_callers_def)
qed (rule queue_step_inv)

text \<open>A price is never negative.\<close>

lemma dec_add_nonneg: "0 \<le> dec_val a \<Longrightarrow> 0 \<le> dec_val b \<Longrightarrow> 0 \<le> dec_val (dec_add a b)"
  using dec_add_sign [of a b] by (cases "dec_val (dec_add a b) = 0") auto

lemma dec_val_nonneg_Dec: "0 \<le> dec_val (Dec s c e) \<longleftrightarrow> \<not> s \<or> c = 0"
  using pow10_pos [of e] by (auto simp: dec_val_def mult_le_0_iff simp del: pow10_pos)

lemma dec_mul_nonneg: "0 \<le> dec_val a \<Longrightarrow> 0 \<le> dec_val b \<Longrightarrow> 0 \<le> dec_val (dec_mul a b)"
proof (cases a; cases b)
  fix s c e s' c' e'
  assume "0 \<le> dec_val a" "0 \<le> dec_val b" and ab: "a = Dec s c e" "b = Dec s' c' e'"
  then have "(\<not> s \<or> c = 0) \<and> (\<not> s' \<or> c' = 0)" by (simp add: dec_val_nonneg_Dec)
  then consider "\<not> s" "\<not> s'" | "c * c' = 0" by auto
  then show "0 \<le> dec_val (dec_mul a b)"
    by cases (auto simp: ab dec_rounded_sign(1) dec_rounded_sign(3))
qed (simp_all add: dec_val_def)

lemma estimate_cost_nonneg:
  assumes "0 \<le> prompt_tokens" "0 \<le> completion_tokens"
  shows "0 \<le> estimate_cost model prompt_tokens completion_tokens cached_tokens"
proof -
  have int: "0 \<le> dec_val (dec_of_int i)" if "0 \<le> i" for i using that by (simp add: dec_of_int_def dec_val_def)
  have div: "0 \<le> dec_val (dec_div a (Dec False 1000000 0))" if "0 \<le> dec_val a" for a
    using dec_div_sign(2) [of "Dec False 1000000 0" a] that by (auto simp: dec_val_def not_less [symmetric])
  have rate: "0 \<le> dec_val r" if "map_of prompt_rates model = Some r \<or> map_of completion_rates model = Some r" for r
    using that by (auto simp: prompt_rates_def completion_rates_def dec_val_def split: if_splits)
  have "0 \<le> dec_val cached_discount" by (simp add: cached_discount_def dec_val_def)
  then show ?thesis
    unfolding estimate_cost_def float_of_dec_def Let_def using assms int rate
    by (auto intro!: fl_sign(1) div dec_add_nonneg dec_mul_nonneg split: option.split)
qed

section \<open>Properties\<close>

text \<open>C19 The queue before the rate limiter is bounded, for each kind of endpoint by itself: whatever the
  interleaving of callers, admissions and cancellations, the counter is the number of callers that wait for
  the endpoint and never above the maximum, and a caller is turned away exactly when that many wait for
  the same endpoint.\<close>

theorem queue_is_bounded:
  assumes "queue_reachable max_queue st"
  shows "qs_waiting st e = waiting_callers e st \<and> waiting_callers e st \<le> max_queue \<and>
    (i < length (qs_callers st) \<and> qs_callers st ! i = (e, Arriving) \<longrightarrow>
      (qs_callers (acquire_enter max_queue i st) ! i = (e, Rejected) \<longleftrightarrow> waiting_callers e st = max_queue))"
proof -
  have inv: "qs_waiting st e = waiting_callers e st" "waiting_callers e st \<le> max_queue"
    using queue_invariant [OF assms] by (simp_all add: queue_inv_def)
  have "qs_callers (acquire_enter max_queue i st) ! i = (e, Rejected) \<longleftrightarrow> waiting_callers e st = max_queue"
    if "i < length (qs_callers st)" "qs_callers st ! i = (e, Arriving)"
    using that inv by (auto simp: acquire_enter_def set_phase_def Let_def)
  then show ?thesis using inv by blast
qed

lemma one_caller: "queue_reachable 1 (acquire_enter 1 0 \<lparr>qs_waiting = (\<lambda>_. 0), qs_callers = [(E_vision, Arriving)]\<rparr>)"
proof -
  have "queue_step 1 idle_queue (idle_queue\<lparr>qs_callers := qs_callers idle_queue @ [(E_vision, Arriving)]\<rparr>)"
    by (rule queue_step.arrive)
  then have "queue_reachable 1 \<lparr>qs_waiting = (\<lambda>_. 0), qs_callers = [(E_vision, Arriving)]\<rparr>"
    using queue_reachable.step [OF queue_reachable.start] by (simp add: idle_queue_def)
  then show ?thesis by (rule queue_reachable.step) (rule queue_step.enter, simp_all)
qed

lemma queue_is_bounded_witness:
  "waiting_callers E_vision (acquire_enter 1 0 \<lparr>qs_waiting = (\<lambda>_. 0), qs_callers = [(E_vision, Arriving)]\<rparr>) = 1 \<and>
    qs_waiting (acquire_enter 1 0 \<lparr>qs_waiting = (\<lambda>_. 0), qs_callers = [(E_vision, Arriving)]\<rparr>) E_vision \<le> 1"
  using queue_is_bounded [OF one_caller, of E_vision 0]
  by (simp add: acquire_enter_def set_phase_def waiting_callers_def)

end
