(* ===== verification/InsightWorker.thy ===== *)
theory InsightWorker
  imports Insights
begin

text \<open>The insight worker: the consumer of InsightRequested events with its idempotency store, and the
  system of several workers, requests and the reaper, whose transactions interleave.\<close>

section \<open>The idempotency store\<close>

text \<open>The consumer relies on three operations.  A time is in seconds.\<close>

record 's store_ops =
  so_is_processed :: "int \<Rightarrow> string \<Rightarrow> 's \<Rightarrow> bool"
  so_mark_processed :: "int \<Rightarrow> int \<Rightarrow> string \<Rightarrow> 's \<Rightarrow> 's"
  so_increment_failures :: "int \<Rightarrow> string \<Rightarrow> 's \<Rightarrow> nat \<times> 's"

text \<open>RedisConsumerIdempotencyStore: keys with an expiry time.\<close>

record redis_store =
  rd_processed :: "string \<Rightarrow> int option"
  rd_failures :: "string \<Rightarrow> (nat \<times> int) option"

definition failure_ttl :: int where "failure_ttl = 86400"

definition redis_is_processed :: "int \<Rightarrow> string \<Rightarrow> redis_store \<Rightarrow> bool" where
  "redis_is_processed now e s = (case rd_processed s e of None \<Rightarrow> False | Some until \<Rightarrow> now < until)"

definition redis_mark_processed :: "int \<Rightarrow> int \<Rightarrow> string \<Rightarrow> redis_store \<Rightarrow> redis_store" where
  "redis_mark_processed now ttl e s = s\<lparr>rd_processed := (rd_processed s)(e \<mapsto> now + ttl)\<rparr>"

definition redis_failures :: "int \<Rightarrow> string \<Rightarrow> redis_store \<Rightarrow> nat" where
  "redis_failures now e s =
     (case rd_failures s e of None \<Rightarrow> 0 | Some (c, until) \<Rightarrow> if now < until then c else 0)"

definition redis_deadline :: "string \<Rightarrow> redis_store \<Rightarrow> int" where
  "redis_deadline e s = (case rd_failures s e of None \<Rightarrow> 0 | Some (c, until) \<Rightarrow> until)"

text \<open>The Lua script: INCR, and EXPIRE when the counter is new.\<close>

definition redis_increment_failures :: "int \<Rightarrow> string \<Rightarrow> redis_store \<Rightarrow> nat \<times> redis_store" where
  "redis_increment_failures now e s =
     (let c = redis_failures now e s + 1;
          until = (if c = 1 then now + failure_ttl else redis_deadline e s)
      in (c, s\<lparr>rd_failures := (rd_failures s)(e \<mapsto> (c, until))\<rparr>))"

definition redis_ops :: "redis_store store_ops" where
  "redis_ops = \<lparr>so_is_processed = redis_is_processed, so_mark_processed = redis_mark_processed,
     so_increment_failures = redis_increment_failures\<rparr>"

section \<open>handle_insight_event\<close>

record event_body =
  eb_event_id :: "string option"
  eb_event_type :: "string option"
  eb_insight_id :: "string option"
  eb_user_id :: "string option"

definition present :: "string option \<Rightarrow> string" where
  "present s = (case s of None \<Rightarrow> [] | Some x \<Rightarrow> x)"

text \<open>\<open>content_hash\<close> is the SHA-256 of the sorted JSON.\<close>

definition resolve_event_id :: "(event_body \<Rightarrow> string) \<Rightarrow> event_body \<Rightarrow> string" where
  "resolve_event_id content_hash body =
     (if present (eb_event_id body) \<noteq> [] then present (eb_event_id body) else content_hash body)"

record 's consumer =
  cs_store :: 's
  cs_rows :: "insight_row list"
  cs_dlq :: "(event_body \<times> exn) list"
  cs_calls :: nat

record consumer_config =
  cc_max_retries :: nat
  cc_ttl :: int

fun skippable :: "exn \<Rightarrow> bool" where
  "skippable (InsightAlreadyTerminalError _) = True"
| "skippable InsightNotFoundError = True"
| "skippable _ = False"

text \<open>The use case as the handler sees it: the n-th call, the time, and the two ids.\<close>

type_synonym insight_processor =
  "nat \<Rightarrow> int \<Rightarrow> string \<Rightarrow> string \<Rightarrow> insight_row list \<Rightarrow> (exn + process_result) \<times> insight_row list"

definition dispatch_event ::
  "insight_processor \<Rightarrow> int \<Rightarrow> event_body \<Rightarrow> 's consumer \<Rightarrow> exn option \<times> 's consumer" where
  "dispatch_event process now body s =
     (if eb_event_type body \<noteq> Some ''InsightRequested'' then (None, s)
      else if present (eb_insight_id body) = [] \<or> present (eb_user_id body) = [] then (Some ValueError, s)
      else (case process (cs_calls s) now (present (eb_insight_id body)) (present (eb_user_id body)) (cs_rows s) of
              (Inr _, rows) \<Rightarrow> (None, s\<lparr>cs_rows := rows, cs_calls := cs_calls s + 1\<rparr>)
            | (Inl e, rows) \<Rightarrow> (if skippable e then None else Some e,
                                s\<lparr>cs_rows := rows, cs_calls := cs_calls s + 1\<rparr>)))"

definition handle_insight_event ::
  "'s store_ops \<Rightarrow> (event_body \<Rightarrow> string) \<Rightarrow> consumer_config \<Rightarrow> insight_processor \<Rightarrow> int \<Rightarrow> event_body \<Rightarrow>
     's consumer \<Rightarrow> exn option \<times> 's consumer" where
  "handle_insight_event ops content_hash cfg process now body s =
     (let e = resolve_event_id content_hash body;
          mark = (\<lambda>c. c\<lparr>cs_store := so_mark_processed ops now (cc_ttl cfg) e (cs_store c)\<rparr>)
      in if so_is_processed ops now e (cs_store s) then (None, s)
         else (case dispatch_event process now body s of
                 (None, s1) \<Rightarrow> (None, mark s1)
               | (Some err, s1) \<Rightarrow>
                   (let (failures, st) = so_increment_failures ops now e (cs_store s1);
                        s2 = s1\<lparr>cs_store := st\<rparr>
                    in if failures \<ge> cc_max_retries cfg
                       then (None, mark (s2\<lparr>cs_dlq := cs_dlq s2 @ [(body, err)]\<rparr>))
                       else (Some err, s2))))"

text \<open>The broker delivers a message again after an exception.  The result counts the deliveries and says
  whether the last one was acknowledged.\<close>

fun redeliver ::
  "'s store_ops \<Rightarrow> (event_body \<Rightarrow> string) \<Rightarrow> consumer_config \<Rightarrow> insight_processor \<Rightarrow> int list \<Rightarrow> event_body \<Rightarrow>
     's consumer \<Rightarrow> (nat \<times> bool) \<times> 's consumer" where
  "redeliver ops content_hash cfg process [] body s = ((0, False), s)"
| "redeliver ops content_hash cfg process (t # ts) body s =
     (case handle_insight_event ops content_hash cfg process t body s of
        (None, s') \<Rightarrow> ((1, True), s')
      | (Some e, s') \<Rightarrow>
          (case redeliver ops content_hash cfg process ts body s' of ((n, ok), s'') \<Rightarrow> ((n + 1, ok), s'')))"

section \<open>The contract of the store\<close>

locale consumer_store =
  fixes ops :: "'s store_ops"
    and failures :: "int \<Rightarrow> string \<Rightarrow> 's \<Rightarrow> nat"
    and deadline :: "string \<Rightarrow> 's \<Rightarrow> int"
    and window :: int
  assumes marked: "t \<le> t' \<Longrightarrow> t' < t + ttl \<Longrightarrow> so_is_processed ops t' e (so_mark_processed ops t ttl e s)"
    and increment_counts: "fst (so_increment_failures ops t e s) = failures t e s + 1"
    and increment_keeps: "t \<le> t' \<Longrightarrow> t' < deadline e (snd (so_increment_failures ops t e s)) \<Longrightarrow>
      failures t' e (snd (so_increment_failures ops t e s)) = failures t e s + 1"
    and first_deadline: "failures t e s = 0 \<Longrightarrow> deadline e (snd (so_increment_failures ops t e s)) = t + window"
    and kept_deadline: "failures t e s \<noteq> 0 \<Longrightarrow> deadline e (snd (so_increment_failures ops t e s)) = deadline e s"
    and increment_processed: "so_is_processed ops t' e' (snd (so_increment_failures ops t e s)) =
      so_is_processed ops t' e' s"
begin

lemma dispatch_store [simp]: "cs_store (snd (dispatch_event process now body s)) = cs_store s"
  "cs_dlq (snd (dispatch_event process now body s)) = cs_dlq s"
  "cs_calls (snd (dispatch_event process now body s)) \<le> cs_calls s + 1"
  by (auto simp: dispatch_event_def split: prod.splits sum.splits)

lemma acknowledged_is_processed:
  assumes "handle_insight_event ops h cfg process t body s = (None, s')" "t \<le> t'" "t' < t + cc_ttl cfg"
    "\<not> so_is_processed ops t (resolve_event_id h body) (cs_store s)"
  shows "so_is_processed ops t' (resolve_event_id h body) (cs_store s')"
  using assms marked
  by (auto simp: handle_insight_event_def Let_def split: prod.splits option.splits if_splits)

lemma refused_delivery:
  assumes "handle_insight_event ops h cfg process t body s = (Some err, s')"
  defines "e \<equiv> resolve_event_id h body"
  shows "failures t e (cs_store s) + 1 < cc_max_retries cfg"
    "cs_store s' = snd (so_increment_failures ops t e (cs_store s))"
    "cs_dlq s' = cs_dlq s" "cs_calls s' \<le> cs_calls s + 1"
proof -
  obtain r s1 where d: "dispatch_event process t body s = (r, s1)" by fastforce
  have s1: "cs_store s1 = cs_store s" "cs_dlq s1 = cs_dlq s" "cs_calls s1 \<le> cs_calls s + 1"
    using dispatch_store [of process t body s] by (simp_all add: d)
  show "failures t e (cs_store s) + 1 < cc_max_retries cfg"
    "cs_store s' = snd (so_increment_failures ops t e (cs_store s))"
    "cs_dlq s' = cs_dlq s" "cs_calls s' \<le> cs_calls s + 1"
    using assms(1) s1 increment_counts [of t e "cs_store s"]
    by (auto simp: handle_insight_event_def d e_def Let_def split: prod.splits option.splits if_splits)
qed

lemma accepted_delivery:
  assumes "handle_insight_event ops h cfg process t body s = (None, s')"
  shows "length (cs_dlq s') \<le> length (cs_dlq s) + 1" "cs_calls s' \<le> cs_calls s + 1"
proof -
  obtain r s1 where d: "dispatch_event process t body s = (r, s1)" by fastforce
  have s1: "cs_dlq s1 = cs_dlq s" "cs_calls s1 \<le> cs_calls s + 1"
    using dispatch_store [of process t body s] by (simp_all add: d)
  show "length (cs_dlq s') \<le> length (cs_dlq s) + 1" "cs_calls s' \<le> cs_calls s + 1"
    using assms s1
    by (auto simp: handle_insight_event_def d Let_def split: prod.splits option.splits if_splits)
qed

text \<open>With \<open>k\<close> failures counted and the counter alive for all deliveries, the event is settled after at most
  \<open>max_retries - k\<close> more.\<close>

lemma redeliver_bounded_from:
  assumes "sorted ts" "\<forall>t\<in>set ts. t < limit" "cc_max_retries cfg \<le> k + length ts" "ts \<noteq> []"
    "k < cc_max_retries cfg"
    "\<forall>t\<in>set ts. failures t (resolve_event_id h body) (cs_store s) = k"
    "k \<noteq> 0 \<longrightarrow> limit \<le> deadline (resolve_event_id h body) (cs_store s)"
    "k = 0 \<longrightarrow> limit \<le> hd ts + window"
  shows "case redeliver ops h cfg process ts body s of ((n, ok), s') \<Rightarrow>
     ok \<and> n + k \<le> cc_max_retries cfg \<and> cs_calls s' \<le> cs_calls s + n \<and> length (cs_dlq s') \<le> length (cs_dlq s) + 1"
  using assms
proof (induction ts arbitrary: k s)
  case (Cons t ts)
  let ?e = "resolve_event_id h body"
  obtain r s1 where h: "handle_insight_event ops h cfg process t body s = (r, s1)" by fastforce
  show ?case
  proof (cases r)
    case None
    then show ?thesis using h accepted_delivery [of h cfg process t body s s1] Cons.prems by simp
  next
    case (Some err)
    note ref = refused_delivery [OF h [unfolded Some]]
    have k: "failures t ?e (cs_store s) = k" using Cons.prems(6) by simp
    then have k1: "k + 1 < cc_max_retries cfg" using ref(1) by simp
    have dl: "limit \<le> deadline ?e (cs_store s1)"
      using first_deadline [of t ?e "cs_store s"] kept_deadline [of t ?e "cs_store s"] k Cons.prems(7,8) ref(2)
      by (cases "k = 0") auto
    have ne: "ts \<noteq> []" using Cons.prems(3) k1 by auto
    have "failures t' ?e (cs_store s1) = k + 1" if "t' \<in> set ts" for t'
    proof -
      have "t \<le> t'" "t' < deadline ?e (snd (so_increment_failures ops t ?e (cs_store s)))"
        using that Cons.prems(1,2) dl ref(2) by auto
      then show ?thesis using increment_keeps k ref(2) by simp
    qed
    then have "case redeliver ops h cfg process ts body s1 of ((n, ok), s') \<Rightarrow>
       ok \<and> n + (k + 1) \<le> cc_max_retries cfg \<and> cs_calls s' \<le> cs_calls s1 + n \<and>
       length (cs_dlq s') \<le> length (cs_dlq s1) + 1"
      using Cons.prems k1 dl ne by (intro Cons.IH) auto
    then show ?thesis using h Some ref by (auto split: prod.splits)
  qed
qed simp

end

interpretation redis: consumer_store redis_ops redis_failures redis_deadline failure_ttl
proof
  fix t t' :: int and ttl e e' and s :: redis_store
  show "t \<le> t' \<Longrightarrow> t' < t + ttl \<Longrightarrow> so_is_processed redis_ops t' e (so_mark_processed redis_ops t ttl e s)"
    by (simp add: redis_ops_def redis_is_processed_def redis_mark_processed_def)
  show "fst (so_increment_failures redis_ops t e s) = redis_failures t e s + 1"
    by (simp add: redis_ops_def redis_increment_failures_def Let_def)
  show "t \<le> t' \<Longrightarrow> t' < redis_deadline e (snd (so_increment_failures redis_ops t e s)) \<Longrightarrow>
      redis_failures t' e (snd (so_increment_failures redis_ops t e s)) = redis_failures t e s + 1"
    by (simp add: redis_ops_def redis_increment_failures_def redis_deadline_def redis_failures_def Let_def)
  show "redis_failures t e s = 0 \<Longrightarrow>
      redis_deadline e (snd (so_increment_failures redis_ops t e s)) = t + failure_ttl"
    by (simp add: redis_ops_def redis_increment_failures_def redis_deadline_def Let_def)
  show "redis_failures t e s \<noteq> 0 \<Longrightarrow>
      redis_deadline e (snd (so_increment_failures redis_ops t e s)) = redis_deadline e s"
    by (simp add: redis_ops_def redis_increment_failures_def redis_deadline_def Let_def)
  show "so_is_processed redis_ops t' e' (snd (so_increment_failures redis_ops t e s)) =
      so_is_processed redis_ops t' e' s"
    by (simp add: redis_ops_def redis_increment_failures_def redis_is_processed_def Let_def)
qed

section \<open>Reading back what was saved\<close>

lemma find_insight_Some:
  "find_insight i u rows = Some x \<Longrightarrow> \<exists>r\<in>set rows. ir_insight r = x \<and> row_id r = i \<and> in_user x = u \<and> in_id x = i"
  unfolding find_insight_def by (auto simp: row_id_def dest!: find_by_Some)

lemma find_insight_unique:
  assumes "distinct (map row_id rows)" "r \<in> set rows" "row_id r = i" "in_user (ir_insight r) = u"
  shows "find_insight i u rows = Some (ir_insight r)"
proof -
  obtain q where q: "find_by (\<lambda>r. row_id r = i \<and> in_user (ir_insight r) = u) rows = Some q"
    using assms(2-4) find_by_None [of "\<lambda>r. row_id r = i \<and> in_user (ir_insight r) = u" rows]
    by (cases "find_by (\<lambda>r. row_id r = i \<and> in_user (ir_insight r) = u) rows") auto
  then have "q \<in> set rows" "row_id q = row_id r" using find_by_Some [OF q] assms(3) by auto
  then have "q = r" using assms(1,2) by (meson distinct_map inj_onD)
  then show ?thesis using q by (simp add: find_insight_def)
qed

lemma save_existing:
  assumes "in_id x \<in> row_id ` set rows"
  shows "save_insight x rows = map (\<lambda>r. if row_id r = in_id x then r\<lparr>ir_insight := mapped x\<rparr> else r) rows"
  using assms by (simp add: save_insight_def)

lemma mapped_simps [simp]:
  "in_id (mapped x) = in_id x" "in_user (mapped x) = in_user x" "in_status (mapped x) = in_status x"
  "in_error (mapped x) = in_error x" "in_title (mapped x) = in_title x"
  "in_description (mapped x) = in_description x" "in_impact (mapped x) = in_impact x"
  "in_quality (mapped x) = in_quality x" "in_generated_at (mapped x) = in_generated_at x"
  by (simp_all add: mapped_def)

lemma save_ids: "in_id x \<in> row_id ` set rows \<Longrightarrow> map row_id (save_insight x rows) = map row_id rows"
  by (auto simp: save_existing row_id_def)

lemma save_mem:
  assumes "in_id x \<in> row_id ` set rows"
  shows "r \<in> set (save_insight x rows) \<longleftrightarrow>
    (r \<in> set rows \<and> row_id r \<noteq> in_id x) \<or> (\<exists>q\<in>set rows. row_id q = in_id x \<and> r = q\<lparr>ir_insight := mapped x\<rparr>)"
  using assms by (auto simp: save_existing image_iff row_id_def)

lemma find_saved:
  assumes "distinct (map row_id rows)" "find_insight i u rows = Some y" "in_id x = i" "in_user x = u"
  shows "find_insight i u (save_insight x rows) = Some (mapped x)"
proof -
  obtain r where r: "r \<in> set rows" "row_id r = i" using find_insight_Some [OF assms(2)] by blast
  then have mem: "in_id x \<in> row_id ` set rows" using assms(3) by blast
  have "r\<lparr>ir_insight := mapped x\<rparr> \<in> set (save_insight x rows)"
    by (rule save_mem [OF mem, THEN iffD2], rule disjI2, rule bexI [OF _ r(1)]) (simp add: r(2) assms(3))
  moreover have "distinct (map row_id (save_insight x rows))" using assms(1) save_ids [OF mem] by simp
  ultimately show ?thesis
    using find_insight_unique [of "save_insight x rows" "r\<lparr>ir_insight := mapped x\<rparr>" i u] assms(3,4)
    by (simp add: row_id_def)
qed

section \<open>A failed call is final\<close>

definition worker_process ::
  "(nat \<Rightarrow> insight_ai_request \<Rightarrow> exn + insight_response) \<Rightarrow> (exn \<Rightarrow> string) \<Rightarrow> category list \<Rightarrow> transaction list \<Rightarrow>
     nat \<Rightarrow> (int \<Rightarrow> datetime) \<Rightarrow> insight_processor" where
  "worker_process ai describe cats txs lease_minutes clock n t i u rows =
     process_insight (ai n) describe cats txs lease_minutes (clock t) i u rows"

lemma claim_queued:
  assumes "find_insight i u rows = Some x" "in_status x = IS_QUEUED" "lease_deadline now lease = Inr dl"
  defines "x' \<equiv> x\<lparr>in_status := IS_PROCESSING, in_deadline := Some dl\<rparr>"
  shows "claim_insight i u lease now rows =
    Inr (\<lparr>cl_period = in_period x, cl_year = in_year x, cl_month = in_month x\<rparr>, save_insight x' rows)"
  using assms by (simp add: claim_insight_def claim_for_processing_def mark_processing_def Let_def)

lemma claim_refused:
  assumes "find_insight i u rows = Some x" "in_status x \<noteq> IS_QUEUED" "lease_deadline now lease = Inr dl"
  shows "claim_insight i u lease now rows = Inl (InsightAlreadyTerminalError (in_status x))"
  using assms by (simp add: claim_insight_def claim_for_processing_def)

lemma record_failure_processing:
  assumes "distinct (map row_id rows)" "find_insight i u rows = Some x" "in_status x = IS_PROCESSING"
  shows "find_insight i u (record_insight_failure i u err rows) =
    Some (mapped (x\<lparr>in_status := IS_FAILED, in_error := Some err\<rparr>))"
proof -
  have "in_id x = i" "in_user x = u" using find_insight_Some [OF assms(2)] by auto
  then show ?thesis
    using find_saved [OF assms(1,2), of "x\<lparr>in_status := IS_FAILED, in_error := Some err\<rparr>"] assms(2,3)
    by (simp add: record_insight_failure_def mark_insight_failed_def)
qed

lemma failed_call:
  assumes rows: "distinct (map row_id rows)" "find_insight (InsightId a) (UserId b) rows = Some x" "in_status x = IS_QUEUED"
    and ids: "a < 2 ^ 128" "b < 2 ^ 128" and lease: "lease_deadline now lease = Inr dl"
    and ctx: "build_insight_context cats txs (UserId b) (in_year x) (in_month x) = Inr ctx" "ac_quality ctx \<noteq> CQ_NONE"
    and ai: "\<And>r. ai r = Inl err"
  shows "\<exists>rows' y. process_insight ai describe cats txs lease now (uuid_str a) (uuid_str b) rows = (Inl err, rows') \<and>
    find_insight (InsightId a) (UserId b) rows' = Some y \<and> in_status y = IS_FAILED \<and> in_error y = Some (describe err)"
proof -
  define x' where "x' = x\<lparr>in_status := IS_PROCESSING, in_deadline := Some dl\<rparr>"
  define rows1 where "rows1 = save_insight x' rows"
  have idx: "in_id x = InsightId a" "in_user x = UserId b" using find_insight_Some [OF rows(2)] by auto
  have f1: "find_insight (InsightId a) (UserId b) rows1 = Some (mapped x')"
    unfolding rows1_def by (rule find_saved [OF rows(1,2)]) (simp_all add: x'_def idx)
  have "InsightId a \<in> row_id ` set rows" using find_insight_Some [OF rows(2)] by (metis imageI)
  then have d1: "distinct (map row_id rows1)"
    using rows(1) save_ids [of x' rows] by (simp add: rows1_def x'_def idx)
  have "process_claimed ai cats txs now (InsightId a) (UserId b)
      \<lparr>cl_period = in_period x, cl_year = in_year x, cl_month = in_month x\<rparr> rows1 = Inl err"
    using ctx ai by (simp add: process_claimed_def)
  then have "process_insight ai describe cats txs lease now (uuid_str a) (uuid_str b) rows =
      (Inl err, record_insight_failure (InsightId a) (UserId b) (describe err) rows1)"
    using claim_queued [OF rows(2,3) lease]
    by (simp add: process_insight_def parse_uuid_str [OF ids(1)] parse_uuid_str [OF ids(2)] rows1_def x'_def Let_def)
  moreover have "in_status (mapped x') = IS_PROCESSING" by (simp add: x'_def)
  ultimately show ?thesis
    using record_failure_processing [OF d1 f1, of "describe err"] by auto
qed

lemma refused_call:
  assumes "find_insight (InsightId a) (UserId b) rows = Some x" "in_status x \<noteq> IS_QUEUED" "a < 2 ^ 128" "b < 2 ^ 128"
    "lease_deadline now lease = Inr dl"
  shows "\<exists>res. process_insight ai describe cats txs lease now (uuid_str a) (uuid_str b) rows = (Inr res, rows)"
  using claim_refused [OF assms(1,2,5)]
  by (simp add: process_insight_def parse_uuid_str [OF assms(3)] parse_uuid_str [OF assms(4)] Let_def)

definition requested_body :: "string \<Rightarrow> uuid \<Rightarrow> uuid \<Rightarrow> event_body" where
  "requested_body ev a b = \<lparr>eb_event_id = Some ev, eb_event_type = Some ''InsightRequested'',
     eb_insight_id = Some (uuid_str a), eb_user_id = Some (uuid_str b)\<rparr>"

text \<open>A single error of the AI client is final: the first delivery marks the insight FAILED and raises,
  so the broker delivers again; the second delivery finds the row terminal, skips it as already done, and
  marks the event processed.  The retries never call the client again and nothing reaches the dead letter
  queue.\<close>

theorem transient_failure_is_final:
  fixes s :: "redis_store consumer"
  assumes rows: "distinct (map row_id (cs_rows s))"
      "find_insight (InsightId a) (UserId b) (cs_rows s) = Some x" "in_status x = IS_QUEUED"
    and ids: "a < 2 ^ 128" "b < 2 ^ 128" "ev \<noteq> []"
    and lease: "lease_deadline (clock t1) lease = Inr dl1" "lease_deadline (clock t2) lease = Inr dl2"
    and ctx: "build_insight_context cats txs (UserId b) (in_year x) (in_month x) = Inr ctx" "ac_quality ctx \<noteq> CQ_NONE"
    and ai: "\<And>r. ai (cs_calls s) r = Inl err" "\<not> skippable err"
    and fresh: "\<And>t. \<not> redis_is_processed t ev (cs_store s)" "redis_failures t1 ev (cs_store s) = 0"
    and cfg: "1 < cc_max_retries cfg" "0 < cc_ttl cfg"
  shows "\<exists>s1 s2 y. handle_insight_event redis_ops h cfg (worker_process ai describe cats txs lease clock) t1 (requested_body ev a b) s = (Some err, s1) \<and>
    handle_insight_event redis_ops h cfg (worker_process ai describe cats txs lease clock) t2 (requested_body ev a b) s1 = (None, s2) \<and>
    find_insight (InsightId a) (UserId b) (cs_rows s2) = Some y \<and> in_status y = IS_FAILED \<and>
    cs_dlq s2 = cs_dlq s \<and> redis_is_processed t2 ev (cs_store s2)"
proof -
  let ?p = "worker_process ai describe cats txs lease clock"
  have str: "uuid_str n \<noteq> []" for n by (simp add: uuid_str_def Let_def)
  have ev: "resolve_event_id h (requested_body ev a b) = ev" using ids(3) by (simp add: resolve_event_id_def requested_body_def present_def)
  obtain rows1 y where p1: "?p (cs_calls s) t1 (uuid_str a) (uuid_str b) (cs_rows s) = (Inl err, rows1)"
    and y: "find_insight (InsightId a) (UserId b) rows1 = Some y" "in_status y = IS_FAILED"
    using failed_call [OF rows ids(1,2) lease(1) ctx, of "ai (cs_calls s)" err describe] ai(1)
    unfolding worker_process_def by blast
  define s1 where "s1 = s\<lparr>cs_rows := rows1, cs_calls := cs_calls s + 1,
    cs_store := snd (redis_increment_failures t1 ev (cs_store s))\<rparr>"
  have "dispatch_event ?p t1 (requested_body ev a b) s = (Some err, s\<lparr>cs_rows := rows1, cs_calls := cs_calls s + 1\<rparr>)"
    using p1 ai(2) str by (simp add: dispatch_event_def requested_body_def present_def)
  then have h1: "handle_insight_event redis_ops h cfg ?p t1 (requested_body ev a b) s = (Some err, s1)"
    using fresh cfg(1)
    by (simp add: handle_insight_event_def ev redis_ops_def redis_increment_failures_def s1_def Let_def)
  have "in_status y \<noteq> IS_QUEUED" using y(2) by simp
  then obtain res where p2: "?p (cs_calls s1) t2 (uuid_str a) (uuid_str b) (cs_rows s1) = (Inr res, cs_rows s1)"
    using refused_call [OF y(1) _ ids(1,2) lease(2)] unfolding worker_process_def s1_def by fastforce
  then have "dispatch_event ?p t2 (requested_body ev a b) s1 = (None, s1\<lparr>cs_calls := cs_calls s1 + 1\<rparr>)"
    using str by (simp add: dispatch_event_def requested_body_def present_def)
  moreover have "\<not> redis_is_processed t2 ev (cs_store s1)"
    using fresh(1) by (simp add: s1_def redis_increment_failures_def redis_is_processed_def Let_def)
  ultimately have h2: "handle_insight_event redis_ops h cfg ?p t2 (requested_body ev a b) s1 =
      (None, s1\<lparr>cs_calls := cs_calls s1 + 1, cs_store := redis_mark_processed t2 (cc_ttl cfg) ev (cs_store s1)\<rparr>)"
    by (simp add: handle_insight_event_def ev redis_ops_def)
  show ?thesis
    by (rule exI, rule exI, rule exI [of _ y], intro conjI, rule h1, rule h2)
      (use y cfg(2) in \<open>simp_all add: s1_def redis_is_processed_def redis_mark_processed_def\<close>)
qed

lemma context_of_rows:
  assumes "read_month cats txs u y m = Inr rows" "rows \<noteq> []"
    "read_history_months cats txs u y m n_history_months = Inr raw"
  shows "\<exists>ctx. build_insight_context cats txs u y m = Inr ctx \<and> ac_quality ctx \<noteq> CQ_NONE"
  using assms by (auto simp: build_insight_context_def Let_def split: list.splits)

definition queued_sample :: insight where
  "queued_sample = (new_insight (InsightId 4) \<lparr>rc_user = UserId 1, rc_period = P_MONTHLY, rc_year = 2024, rc_month = 4\<rparr>
     (Date 2024 4 2, 0))\<lparr>in_status := IS_QUEUED\<rparr>"

lemma queued_simps [simp]:
  "in_id queued_sample = InsightId 4" "in_user queued_sample = UserId 1" "in_status queued_sample = IS_QUEUED"
  "in_year queued_sample = 2024" "in_month queued_sample = 4"
  by (simp_all add: queued_sample_def new_insight_def)

definition queued_consumer :: "redis_store consumer" where
  "queued_consumer = \<lparr>cs_store = \<lparr>rd_processed = (\<lambda>_. None), rd_failures = (\<lambda>_. None)\<rparr>,
     cs_rows = [\<lparr>ir_insight = queued_sample, ir_deadline = None, ir_retry = 0\<rparr>], cs_dlq = [], cs_calls = 0\<rparr>"

lemma transient_failure_is_final_witness:
  "\<exists>s1 s2. handle_insight_event redis_ops (\<lambda>_. []) \<lparr>cc_max_retries = 3, cc_ttl = 100\<rparr>
      (worker_process (\<lambda>_ _. Inl StorageError) (\<lambda>_. []) [long_category] spending 15 (\<lambda>_. (Date 2024 4 2, 0)))
      0 (requested_body ''e'' 4 1) queued_consumer = (Some StorageError, s1) \<and>
    handle_insight_event redis_ops (\<lambda>_. []) \<lparr>cc_max_retries = 3, cc_ttl = 100\<rparr>
      (worker_process (\<lambda>_ _. Inl StorageError) (\<lambda>_. []) [long_category] spending 15 (\<lambda>_. (Date 2024 4 2, 0)))
      10 (requested_body ''e'' 4 1) s1 = (None, s2) \<and> cs_dlq s2 = []"
proof -
  have l: "lease_deadline ((\<lambda>_. (Date 2024 4 2, 0)) t) 15 = Inr (Date 2024 4 2, 900000000)" for t :: int
    using toordinal_max [of "Date 2024 4 2"]
    by (simp add: lease_deadline_def add_days_def mk_date_def days_in_month_def)
  obtain ctx where ctx: "build_insight_context [long_category] spending (UserId 1) 2024 4 = Inr ctx"
    "ac_quality ctx \<noteq> CQ_NONE"
    using context_of_rows [OF spending_rows(1) _ spending_rows(2)] by auto
  have f: "find_insight (InsightId 4) (UserId 1) (cs_rows queued_consumer) = Some queued_sample"
    by (simp add: find_insight_def queued_consumer_def row_id_def del: One_nat_def)
  show ?thesis
    using transient_failure_is_final [of queued_consumer 4 1 queued_sample "''e''" "\<lambda>_. (Date 2024 4 2, 0)" 0 15 _ 10 _
        "[long_category]" spending ctx "\<lambda>_ _. Inl StorageError" StorageError
        "\<lparr>cc_max_retries = 3, cc_ttl = 100\<rparr>" "\<lambda>_. []" "\<lambda>_. []", OF _ f _ _ _ _ l l]
    using ctx
    by (auto simp: queued_consumer_def redis_is_processed_def redis_failures_def simp del: One_nat_def)
qed

text \<open>C32 Whatever the use case does, redelivering one event ends: with a fresh event and all deliveries
  within the day the failure counter lives, it is acknowledged after at most \<open>max_retries\<close> deliveries, the
  use case is called at most that often, and at most one copy goes to the dead letter queue.\<close>

theorem event_is_settled:
  assumes "sorted ts" "\<forall>t\<in>set ts. t < hd ts + failure_ttl" "0 < cc_max_retries cfg"
    "cc_max_retries cfg \<le> length ts" "rd_failures (cs_store s) (resolve_event_id h body) = None"
    "redeliver redis_ops h cfg process ts body s = ((n, ok), s')"
  shows "ok \<and> n \<le> cc_max_retries cfg \<and> cs_calls s' \<le> cs_calls s + n \<and>
    length (cs_dlq s') \<le> length (cs_dlq s) + 1"
proof -
  have "ts \<noteq> []" using assms(3,4) by auto
  moreover have "\<forall>t\<in>set ts. redis_failures t (resolve_event_id h body) (cs_store s) = 0"
    using assms(5) by (simp add: redis_failures_def)
  ultimately show ?thesis
    using redis.redeliver_bounded_from [of ts "hd ts + failure_ttl" cfg 0 h body s process] assms by simp
qed

lemma event_is_settled_witness:
  "\<exists>n s'. redeliver redis_ops (\<lambda>_. []) \<lparr>cc_max_retries = 2, cc_ttl = 100\<rparr>
      (\<lambda>n t i u rows. (Inl ValueError, rows)) [0, 5] (requested_body ''e'' 4 1) queued_consumer = ((n, True), s') \<and>
     n \<le> 2 \<and> length (cs_dlq s') \<le> 1"
proof -
  obtain n ok s' where r: "redeliver redis_ops (\<lambda>_. []) \<lparr>cc_max_retries = 2, cc_ttl = 100\<rparr>
      (\<lambda>n t i u rows. (Inl ValueError, rows)) [0, 5] (requested_body ''e'' 4 1) queued_consumer = ((n, ok), s')"
    by (metis prod.exhaust)
  have "rd_failures (cs_store queued_consumer) e = None" "cs_dlq queued_consumer = []" for e
    by (simp_all add: queued_consumer_def)
  then show ?thesis
    using event_is_settled [OF _ _ _ _ _ r] r by (simp add: failure_ttl_def)
qed

section \<open>Several workers, requests and the reaper\<close>

text \<open>Each step is one committed transaction.  A worker that has claimed an insight builds the context and
  calls the AI client without writing, then either completes or turns to recording the failure; at any time
  it may crash.\<close>

datatype worker_phase = W_Idle | W_Claimed insight_id user_id | W_Failing insight_id user_id string

record insight_system =
  sy_rows :: "insight_row list"
  sy_workers :: "nat \<Rightarrow> worker_phase"

fun works_on :: "worker_phase \<Rightarrow> insight_id option" where
  "works_on W_Idle = None"
| "works_on (W_Claimed i u) = Some i"
| "works_on (W_Failing i u err) = Some i"

inductive insight_step :: "insight_system \<Rightarrow> insight_system \<Rightarrow> bool" where
  requested: "i \<notin> row_id ` set (sy_rows s) \<Longrightarrow> mark_queued (new_insight i cmd now) = Inr x \<Longrightarrow>
    insight_step s (s\<lparr>sy_rows := save_insight x (sy_rows s)\<rparr>)"
| claimed: "sy_workers s k = W_Idle \<Longrightarrow> claim_insight i u lease now (sy_rows s) = Inr (cl, rows) \<Longrightarrow>
    insight_step s (s\<lparr>sy_rows := rows, sy_workers := (sy_workers s)(k := W_Claimed i u)\<rparr>)"
| completed: "sy_workers s k = W_Claimed i u \<Longrightarrow>
    complete_insight cats txs i u response quality y m now (sy_rows s) = Inr rows \<Longrightarrow>
    insight_step s (s\<lparr>sy_rows := rows, sy_workers := (sy_workers s)(k := W_Idle)\<rparr>)"
| gave_up: "sy_workers s k = W_Claimed i u \<Longrightarrow>
    insight_step s (s\<lparr>sy_workers := (sy_workers s)(k := W_Failing i u err)\<rparr>)"
| recorded: "sy_workers s k = W_Failing i u err \<Longrightarrow>
    insight_step s (s\<lparr>sy_rows := record_insight_failure i u err (sy_rows s),
      sy_workers := (sy_workers s)(k := W_Idle)\<rparr>)"
| crashed: "insight_step s (s\<lparr>sy_workers := (sy_workers s)(k := W_Idle)\<rparr>)"
| reaped: "reap_expired_processing mx now (sy_rows s) = Inr (requeued, exhausted, rows) \<Longrightarrow>
    insight_step s (s\<lparr>sy_rows := rows\<rparr>)"

inductive insight_steps :: "insight_system \<Rightarrow> insight_system \<Rightarrow> bool" where
  stop: "insight_steps s s"
| more: "insight_steps s s' \<Longrightarrow> insight_step s' s'' \<Longrightarrow> insight_steps s s''"

definition no_insights :: insight_system where
  "no_insights = \<lparr>sy_rows = [], sy_workers = (\<lambda>_. W_Idle)\<rparr>"

inductive_cases insight_stepE: "insight_step s s'"

definition insight_wf :: "insight \<Rightarrow> bool" where
  "insight_wf x \<longleftrightarrow> in_status x \<noteq> IS_PENDING \<and>
     (in_status x = IS_FAILED \<longrightarrow> in_error x \<noteq> None) \<and>
     (in_status x = IS_COMPLETED \<longrightarrow> in_title x \<noteq> None \<and> in_description x \<noteq> None \<and> in_quality x \<noteq> None \<and>
        in_generated_at x \<noteq> None \<and> (\<exists>n. in_impact x = Some n \<and> 1 \<le> n \<and> n \<le> 10))"

definition processing_row :: "insight_id \<Rightarrow> insight_row list \<Rightarrow> bool" where
  "processing_row i rows \<longleftrightarrow> (\<exists>r\<in>set rows. row_id r = i \<and> row_status r = IS_PROCESSING)"

definition system_inv :: "insight_system \<Rightarrow> bool" where
  "system_inv s \<longleftrightarrow> distinct (map row_id (sy_rows s)) \<and>
     (\<forall>r\<in>set (sy_rows s). ir_deadline r = None \<and> insight_wf (ir_insight r)) \<and>
     (\<forall>k i. works_on (sy_workers s k) = Some i \<longrightarrow> processing_row i (sy_rows s)) \<and>
     (\<forall>j k i. works_on (sy_workers s j) = Some i \<and> works_on (sy_workers s k) = Some i \<longrightarrow> j = k)"

text \<open>What a transaction does to the table: it replaces the mapped columns of one row whose insight had
  \<open>old\<close> status, or nothing.\<close>

definition replaces :: "insight_id \<Rightarrow> insight_status \<Rightarrow> insight \<Rightarrow> insight_row list \<Rightarrow> insight_row list \<Rightarrow> bool" where
  "replaces i old x rows rows' \<longleftrightarrow> in_id x = i \<and> insight_wf x \<and>
     (\<exists>r\<in>set rows. row_id r = i \<and> row_status r = old) \<and>
     rows' = map (\<lambda>r. if row_id r = i then r\<lparr>ir_insight := x\<rparr> else r) rows"

lemma claim_replaces:
  assumes "claim_insight i u lease now rows = Inr (cl, rows')"
  obtains x where "replaces i IS_QUEUED x rows rows'" "in_status x = IS_PROCESSING"
proof -
  obtain y dl where y: "find_insight i u rows = Some y" "in_status y = IS_QUEUED"
    "rows' = save_insight (y\<lparr>in_status := IS_PROCESSING, in_deadline := Some dl\<rparr>) rows"
    using assms
    by (auto simp: claim_insight_def claim_for_processing_def mark_processing_def bindR_Inr_iff Let_def
        split: option.splits if_splits)
  obtain r where r: "r \<in> set rows" "ir_insight r = y" "row_id r = i" "in_id y = i"
    using find_insight_Some [OF y(1)] by blast
  have "i \<in> row_id ` set rows" using r by (metis imageI)
  then have "replaces i IS_QUEUED (mapped (y\<lparr>in_status := IS_PROCESSING, in_deadline := Some dl\<rparr>)) rows rows'"
    using r y(2) unfolding replaces_def y(3)
    by (auto simp: save_existing insight_wf_def row_status_def)
  then show thesis using that by simp
qed

lemma complete_replaces:
  assumes "complete_insight cats txs i u response quality y m now rows = Inr rows'"
  obtains x where "replaces i IS_PROCESSING x rows rows'" "in_status x = IS_COMPLETED"
proof -
  obtain b z z' where z: "find_insight i u rows = Some z" "mark_completed response quality now b z = Inr z'"
    "rows' = save_insight z' rows"
    using assms by (auto simp: complete_insight_def bindR_Inr_iff split: option.splits)
  obtain r where r: "r \<in> set rows" "ir_insight r = z" "row_id r = i" "in_id z = i"
    using find_insight_Some [OF z(1)] by blast
  have z': "in_status z = IS_PROCESSING" "in_status z' = IS_COMPLETED" "in_id z' = i" "insight_wf z'"
    using z(2) r(4) by (auto simp: mark_completed_def insight_wf_def split: if_splits)
  have "i \<in> row_id ` set rows" using r by (metis imageI)
  then have "replaces i IS_PROCESSING (mapped z') rows rows'"
    using r z' unfolding replaces_def z(3)
    by (auto simp: save_existing row_status_def insight_wf_def)
  then show thesis using that z' by simp
qed

lemma record_replaces:
  "record_insight_failure i u err rows = rows \<or>
     (\<exists>x. replaces i IS_PROCESSING x rows (record_insight_failure i u err rows) \<and> in_status x = IS_FAILED)"
proof (cases "find_insight i u rows")
  case (Some z)
  obtain r where r: "r \<in> set rows" "ir_insight r = z" "row_id r = i" "in_id z = i"
    using find_insight_Some [OF Some] by blast
  have i: "i \<in> row_id ` set rows" using r by (metis imageI)
  show ?thesis
  proof (cases "in_status z = IS_PROCESSING")
    case True
    then have "record_insight_failure i u err rows = save_insight (z\<lparr>in_status := IS_FAILED, in_error := Some err\<rparr>) rows"
      by (simp add: record_insight_failure_def Some mark_insight_failed_def)
    moreover have "replaces i IS_PROCESSING (mapped (z\<lparr>in_status := IS_FAILED, in_error := Some err\<rparr>)) rows
        (save_insight (z\<lparr>in_status := IS_FAILED, in_error := Some err\<rparr>) rows)"
      using r i True unfolding replaces_def by (auto simp: save_existing row_status_def insight_wf_def)
    ultimately show ?thesis
      by (intro disjI2 exI [of _ "mapped (z\<lparr>in_status := IS_FAILED, in_error := Some err\<rparr>)"]) simp
  qed (simp add: record_insight_failure_def Some mark_insight_failed_def)
qed (simp add: record_insight_failure_def)

definition table_inv :: "insight_row list \<Rightarrow> bool" where
  "table_inv rows \<longleftrightarrow> distinct (map row_id rows) \<and> (\<forall>r\<in>set rows. ir_deadline r = None \<and> insight_wf (ir_insight r))"

lemma replaces_row:
  assumes "replaces i old x rows rows'" "r \<in> set rows"
  shows "(if row_id r = i then r\<lparr>ir_insight := x\<rparr> else r) \<in> set rows'"
  using assms by (auto simp: replaces_def)

lemma replaces_status:
  assumes "replaces i old x rows rows'" "table_inv rows" "r \<in> set rows" "row_id r = i"
  shows "row_status r = old"
proof -
  obtain q where q: "q \<in> set rows" "row_id q = i" "row_status q = old" using assms(1) by (auto simp: replaces_def)
  have "inj_on row_id (set rows)" using assms(2) by (simp add: table_inv_def distinct_map)
  then have "r = q" by (rule inj_onD) (use q assms(3,4) in simp_all)
  then show ?thesis using q(3) by simp
qed

lemma replaces_inv:
  assumes "replaces i old x rows rows'" "table_inv rows"
  shows "table_inv rows'"
    "row_status r \<noteq> old \<Longrightarrow> r \<in> set rows \<Longrightarrow> r \<in> set rows'"
    "j \<noteq> i \<Longrightarrow> processing_row j rows \<Longrightarrow> processing_row j rows'"
    "in_status x = IS_PROCESSING \<Longrightarrow> processing_row i rows'"
proof -
  obtain q where q: "q \<in> set rows" "row_id q = i" "row_status q = old" and x: "in_id x = i" "insight_wf x"
    and rows': "rows' = map (\<lambda>r. if row_id r = i then r\<lparr>ir_insight := x\<rparr> else r) rows"
    using assms(1) by (auto simp: replaces_def)
  have "map row_id rows' = map row_id rows" using x by (auto simp: rows' row_id_def)
  then have "distinct (map row_id rows')" using assms(2) by (simp only: table_inv_def)
  then show "table_inv rows'" using assms(2) x by (auto simp: table_inv_def rows')
  show "r \<in> set rows'" if "row_status r \<noteq> old" "r \<in> set rows"
  proof -
    have "row_id r \<noteq> i" using replaces_status [OF assms that(2)] that(1) by blast
    then show ?thesis using replaces_row [OF assms(1) that(2)] by simp
  qed
  show "processing_row j rows'" if "j \<noteq> i" "processing_row j rows"
    using that replaces_row [OF assms(1)] by (fastforce simp: processing_row_def)
  show "processing_row i rows'" if "in_status x = IS_PROCESSING"
    unfolding processing_row_def
    by (rule bexI [of _ "q\<lparr>ir_insight := x\<rparr>"])
      (use replaces_row [OF assms(1) q(1)] q(2) that x in \<open>simp_all add: row_id_def row_status_def\<close>)
qed

lemma request_table:
  assumes "i \<notin> row_id ` set rows" "mark_queued (new_insight i cmd now) = Inr x" "table_inv rows"
  shows "table_inv (save_insight x rows)" "set rows \<subseteq> set (save_insight x rows)"
proof -
  have "save_insight x rows = rows @ [\<lparr>ir_insight = mapped x, ir_deadline = None, ir_retry = 0\<rparr>]"
    "in_id x = i" "in_status x = IS_QUEUED"
    using assms(1,2) by (auto simp: save_insight_def mark_queued_def new_insight_def)
  then show "table_inv (save_insight x rows)" "set rows \<subseteq> set (save_insight x rows)"
    using assms(1,3) by (auto simp: table_inv_def row_id_def insight_wf_def)
qed

lemma reap_nothing:
  assumes "table_inv rows" "reap_expired_processing mx now rows = Inr (requeued, exhausted, rows')"
  shows "rows' = rows \<and> requeued = [] \<and> exhausted = 0"
proof -
  have none: "\<forall>r\<in>set rows. \<not> lease_expired now r"
    using assms(1) by (simp add: table_inv_def lease_expired_def)
  have m: "map (\<lambda>r. if lease_expired now r \<and> P r then f r else r) rows = rows" for P f
    using none by (intro map_idI) simp
  have n: "filter (\<lambda>r. lease_expired now r \<and> P r) rows = []" for P
    using none by (simp add: filter_empty_conv)
  show ?thesis using assms(2) unfolding reap_expired_processing_def Let_def m n by (simp split: if_splits)
qed

text \<open>The effect of a step on a row that no worker owns: unless it is queued, it stays.\<close>

definition owned :: "insight_system \<Rightarrow> insight_id \<Rightarrow> bool" where
  "owned s i \<longleftrightarrow> (\<exists>k. works_on (sy_workers s k) = Some i)"

lemma system_inv_table:
  "system_inv s \<longleftrightarrow> table_inv (sy_rows s) \<and>
     (\<forall>k i. works_on (sy_workers s k) = Some i \<longrightarrow> processing_row i (sy_rows s)) \<and>
     (\<forall>j k i. works_on (sy_workers s j) = Some i \<and> works_on (sy_workers s k) = Some i \<longrightarrow> j = k)"
  by (simp add: system_inv_def table_inv_def)

lemma idle_rows:
  assumes "system_inv s" "works_on (sy_workers s k) = Some i" "replaces i IS_PROCESSING x (sy_rows s) rows"
  shows "system_inv (s\<lparr>sy_rows := rows, sy_workers := (sy_workers s)(k := W_Idle)\<rparr>)"
proof -
  have t: "table_inv (sy_rows s)" using assms(1) by (simp add: system_inv_table)
  have "processing_row j rows" if "works_on (sy_workers s l) = Some j" "l \<noteq> k" for l j
  proof -
    have "j \<noteq> i" using that assms(1,2) by (auto simp: system_inv_table)
    then show ?thesis using replaces_inv(3) [OF assms(3) t] that assms(1) by (auto simp: system_inv_table)
  qed
  then show ?thesis
    using assms(1) replaces_inv(1) [OF assms(3) t] unfolding system_inv_table by auto
qed

lemma system_inv_step:
  assumes "insight_step s s'" "system_inv s"
  shows "system_inv s'"
  using assms(1)
proof cases
  case (requested i cmd now x)
  have t: "table_inv (sy_rows s)" using assms(2) by (simp add: system_inv_table)
  note r = request_table [OF requested(2,3) t]
  have "processing_row j (sy_rows s')" if "processing_row j (sy_rows s)" for j
    using that r(2) by (auto simp: processing_row_def requested(1))
  then show ?thesis using assms(2) r(1) unfolding system_inv_table requested(1) by simp
next
  case (claimed k i u lease now cl rows)
  obtain x where x: "replaces i IS_QUEUED x (sy_rows s) rows" "in_status x = IS_PROCESSING"
    using claim_replaces [OF claimed(3)] by blast
  have t: "table_inv (sy_rows s)" using assms(2) by (simp add: system_inv_table)
  note rep = replaces_inv [OF x(1) t]
  have "\<not> processing_row i (sy_rows s)"
    using replaces_status [OF x(1) t] by (fastforce simp: processing_row_def)
  then have free: "works_on (sy_workers s j) \<noteq> Some i" for j
    using assms(2) by (auto simp: system_inv_table)
  have "processing_row j rows" if "works_on (sy_workers s l) = Some j" for l j
    using that free [of l] rep(3) [of j] assms(2) by (auto simp: system_inv_table)
  then show ?thesis
    using assms(2) rep(1) rep(4) [OF x(2)] free
    unfolding system_inv_table claimed(1) by (auto split: if_splits)
next
  case (completed k i u cats txs response quality y m now rows)
  obtain x where "replaces i IS_PROCESSING x (sy_rows s) rows" using complete_replaces [OF completed(3)] by blast
  then show ?thesis using idle_rows [OF assms(2)] completed(1,2) by simp
next
  case (recorded k i u err)
  consider "record_insight_failure i u err (sy_rows s) = sy_rows s"
    | x where "replaces i IS_PROCESSING x (sy_rows s) (record_insight_failure i u err (sy_rows s))"
    using record_replaces by blast
  then show ?thesis
  proof cases
    case 1
    then show ?thesis using assms(2) unfolding system_inv_table recorded(1) by (auto split: if_splits)
  next
    case 2
    then show ?thesis using idle_rows [OF assms(2)] recorded(1,2) by simp
  qed
next
  case (reaped mx now requeued exhausted rows)
  then show ?thesis using reap_nothing [OF _ reaped(2)] assms(2) by (simp add: system_inv_table)
next
  case (gave_up k i u err)
  then have same: "works_on (sy_workers s' j) = works_on (sy_workers s j)" "sy_rows s' = sy_rows s" for j by simp_all
  show ?thesis using assms(2) unfolding system_inv_table same .
next
  case (crashed k)
  then show ?thesis using assms(2) unfolding system_inv_table by (auto split: if_splits)
qed

lemma system_inv_steps: "insight_steps s s' \<Longrightarrow> system_inv s \<Longrightarrow> system_inv s'"
  by (induction rule: insight_steps.induct) (auto intro: system_inv_step)

lemma system_inv_start: "system_inv no_insights"
  by (simp add: system_inv_def no_insights_def)

text \<open>A row that is not queued and not owned stays, and stays without an owner.\<close>

lemma unowned_row_stays:
  assumes "insight_step s s'" "system_inv s" "r \<in> set (sy_rows s)" "row_status r \<noteq> IS_QUEUED"
    "\<not> owned s (row_id r)"
  shows "r \<in> set (sy_rows s') \<and> \<not> owned s' (row_id r)"
  using assms(1)
proof cases
  case (requested i cmd now x)
  then show ?thesis using request_table(2) [OF requested(2,3)] assms(2-5) by (auto simp: system_inv_table owned_def)
next
  case (claimed k i u lease now cl rows)
  obtain x where x: "replaces i IS_QUEUED x (sy_rows s) rows" using claim_replaces [OF claimed(3)] by blast
  have t: "table_inv (sy_rows s)" using assms(2) by (simp add: system_inv_table)
  have "row_id r \<noteq> i"
    using replaces_status [OF x t assms(3)] assms(4) by blast
  then show ?thesis
    using replaces_inv(2) [OF x t assms(4,3)] assms(5) claimed(1) by (auto simp: owned_def split: if_splits)
next
  case (completed k i u cats txs response quality y m now rows)
  obtain x where x: "replaces i IS_PROCESSING x (sy_rows s) rows" using complete_replaces [OF completed(3)] by blast
  have "works_on (sy_workers s k) = Some i" using completed(2) by simp
  then have "row_id r \<noteq> i" using assms(5) by (auto simp: owned_def)
  then show ?thesis
    using replaces_row [OF x assms(3)] assms(5) completed(1) by (auto simp: owned_def split: if_splits)
next
  case (recorded k i u err)
  have "works_on (sy_workers s k) = Some i" using recorded(2) by simp
  then have n: "row_id r \<noteq> i" using assms(5) by (auto simp: owned_def)
  have "r \<in> set (record_insight_failure i u err (sy_rows s))"
    using record_replaces [of i u err "sy_rows s"] replaces_row [OF _ assms(3), of i] n assms(3) by auto
  then show ?thesis using assms(5) recorded(1) by (auto simp: owned_def split: if_splits)
next
  case (reaped mx now requeued exhausted rows)
  then show ?thesis using reap_nothing [OF _ reaped(2)] assms(2,3,5) by (simp add: system_inv_table owned_def)
next
  case (gave_up k i u err)
  then have same: "works_on (sy_workers s' j) = works_on (sy_workers s j)" "sy_rows s' = sy_rows s" for j by simp_all
  show ?thesis using assms(3,5) unfolding owned_def same by blast
next
  case (crashed k)
  then show ?thesis using assms(3,5) by (auto simp: owned_def split: if_splits)
qed

lemma unowned_row_steps:
  "insight_steps s s' \<Longrightarrow> system_inv s \<Longrightarrow> r \<in> set (sy_rows s) \<Longrightarrow> row_status r \<noteq> IS_QUEUED \<Longrightarrow>
     \<not> owned s (row_id r) \<Longrightarrow> r \<in> set (sy_rows s') \<and> \<not> owned s' (row_id r)"
proof (induction rule: insight_steps.induct)
  case (more s s' s'')
  then show ?case using unowned_row_stays [OF more(2)] system_inv_steps [OF more(1)] by blast
qed blast

text \<open>C31 However the transactions of requests, workers and reaper interleave, an insight is worked on by one
  worker at most, and that worker's insight is PROCESSING; a COMPLETED insight has its title, description,
  quality, date and an impact between 1 and 10, a FAILED one its error; and an insight that has reached one of
  these two states never changes again.\<close>

theorem insight_lifecycle:
  assumes "insight_steps no_insights s" "insight_steps s s'"
  shows "(\<forall>j k i. works_on (sy_workers s j) = Some i \<and> works_on (sy_workers s k) = Some i \<longrightarrow> j = k) \<and>
    (\<forall>k i. works_on (sy_workers s k) = Some i \<longrightarrow> processing_row i (sy_rows s)) \<and>
    (\<forall>r\<in>set (sy_rows s). insight_wf (ir_insight r) \<and> (terminal (row_status r) \<longrightarrow> r \<in> set (sy_rows s')))"
proof -
  have inv: "system_inv s" using system_inv_steps [OF assms(1) system_inv_start] .
  have "r \<in> set (sy_rows s')" if r: "r \<in> set (sy_rows s)" "terminal (row_status r)" for r
  proof -
    have "\<not> processing_row (row_id r) (sy_rows s)"
    proof
      assume "processing_row (row_id r) (sy_rows s)"
      then obtain q where q: "q \<in> set (sy_rows s)" "row_id q = row_id r" "row_status q = IS_PROCESSING"
        by (auto simp: processing_row_def)
      have "inj_on row_id (set (sy_rows s))" using inv by (simp add: system_inv_def distinct_map)
      then have "q = r" by (rule inj_onD) (use q r(1) in simp_all)
      then show False using q(3) r(2) by (simp add: terminal_def)
    qed
    then have "\<not> owned s (row_id r)" using inv by (auto simp: owned_def system_inv_def)
    then show ?thesis
      using unowned_row_steps [OF assms(2) inv r(1)] r(2) by (auto simp: terminal_def)
  qed
  then show ?thesis using inv by (auto simp: system_inv_def)
qed

definition processing_sample :: insight where
  "processing_sample = mapped (queued_sample\<lparr>in_status := IS_PROCESSING, in_deadline := Some (Date 2024 4 2, 900000000)\<rparr>)"

definition claimed_system :: insight_system where
  "claimed_system = \<lparr>sy_rows = [\<lparr>ir_insight = processing_sample, ir_deadline = None, ir_retry = 0\<rparr>],
     sy_workers = (\<lambda>_. W_Idle)(0 := W_Claimed (InsightId 4) (UserId 1))\<rparr>"

lemma claimed_system_reached: "insight_steps no_insights claimed_system"
proof -
  let ?cmd = "\<lparr>rc_user = UserId 1, rc_period = P_MONTHLY, rc_year = 2024, rc_month = 4\<rparr>"
  let ?s1 = "no_insights\<lparr>sy_rows := save_insight queued_sample []\<rparr>"
  have "mark_queued (new_insight (InsightId 4) ?cmd (Date 2024 4 2, 0)) = Inr queued_sample"
    by (simp add: mark_queued_def queued_sample_def new_insight_def)
  then have s1: "insight_step no_insights ?s1"
    using insight_step.requested [of "InsightId 4" no_insights ?cmd "(Date 2024 4 2, 0)" queued_sample]
    by (simp add: no_insights_def)
  have rows1: "sy_rows ?s1 = [\<lparr>ir_insight = mapped queued_sample, ir_deadline = None, ir_retry = 0\<rparr>]"
    by (simp add: save_insight_def)
  have l: "lease_deadline (Date 2024 4 2, 0) 15 = Inr (Date 2024 4 2, 900000000)"
    using toordinal_max [of "Date 2024 4 2"]
    by (simp add: lease_deadline_def add_days_def mk_date_def days_in_month_def)
  have f: "find_insight (InsightId 4) (UserId 1) (sy_rows ?s1) = Some (mapped queued_sample)"
    by (simp add: rows1 find_insight_def row_id_def del: One_nat_def)
  have saved: "save_insight ((mapped queued_sample)\<lparr>in_status := IS_PROCESSING, in_deadline := Some (Date 2024 4 2, 900000000)\<rparr>)
      (sy_rows ?s1) = sy_rows claimed_system"
    unfolding rows1
    by (simp add: save_insight_def row_id_def claimed_system_def processing_sample_def mapped_def)
  have "claim_insight (InsightId 4) (UserId 1) 15 (Date 2024 4 2, 0) (sy_rows ?s1) =
      Inr (\<lparr>cl_period = in_period (mapped queued_sample), cl_year = in_year (mapped queued_sample),
            cl_month = in_month (mapped queued_sample)\<rparr>, sy_rows claimed_system)"
    using claim_queued [OF f _ l] unfolding saved by simp
  then have "insight_step ?s1 (?s1\<lparr>sy_rows := sy_rows claimed_system,
      sy_workers := (sy_workers ?s1)(0 := W_Claimed (InsightId 4) (UserId 1))\<rparr>)"
    by (rule insight_step.claimed [rotated]) (simp add: no_insights_def)
  moreover have "?s1\<lparr>sy_rows := sy_rows claimed_system,
      sy_workers := (sy_workers ?s1)(0 := W_Claimed (InsightId 4) (UserId 1))\<rparr> = claimed_system"
    by (simp add: no_insights_def claimed_system_def)
  ultimately show ?thesis
    using insight_steps.more [OF insight_steps.more [OF insight_steps.stop s1]] by simp
qed

lemma insight_lifecycle_witness: "processing_row (InsightId 4) (sy_rows claimed_system)"
proof -
  have "works_on (sy_workers claimed_system 0) = Some (InsightId 4)" by (simp add: claimed_system_def)
  then show ?thesis
    using insight_lifecycle [OF claimed_system_reached insight_steps.stop, THEN conjunct2, THEN conjunct1] by blast
qed

text \<open>The lease of a claimed insight never reaches the table, so the reaper finds nothing: when a worker
  has crashed, the row of its insight stays PROCESSING in every later state, whatever workers and reaper do.\<close>

theorem orphan_never_recovered:
  assumes "insight_steps no_insights s" "r \<in> set (sy_rows s)" "row_status r = IS_PROCESSING"
    "\<not> owned s (row_id r)" "insight_steps s s'" "0 < mx"
  shows "r \<in> set (sy_rows s') \<and> reap_expired_processing mx now (sy_rows s') = Inr ([], 0, sy_rows s')"
proof -
  have inv: "system_inv s" using system_inv_steps [OF assms(1) system_inv_start] .
  have t: "table_inv (sy_rows s')" using system_inv_steps [OF assms(5) inv] by (simp add: system_inv_table)
  have "r \<in> set (sy_rows s')" using unowned_row_steps [OF assms(5) inv assms(2)] assms(3,4) by auto
  moreover have "\<exists>a b c. reap_expired_processing mx now (sy_rows s') = Inr (a, b, c)"
    using assms(6) by (simp add: reap_expired_processing_def Let_def)
  then have "reap_expired_processing mx now (sy_rows s') = Inr ([], 0, sy_rows s')"
    using reap_nothing [OF t] by blast
  ultimately show ?thesis by blast
qed

lemma orphan_never_recovered_witness:
  "reap_expired_processing 3 (Date 2030 1 1, 0) (sy_rows claimed_system) = Inr ([], 0, sy_rows claimed_system)"
proof -
  let ?s = "claimed_system\<lparr>sy_workers := (sy_workers claimed_system)(0 := W_Idle)\<rparr>"
  have s: "insight_steps no_insights ?s"
    using insight_steps.more [OF claimed_system_reached insight_step.crashed] .
  show ?thesis
    using orphan_never_recovered [OF s, of "\<lparr>ir_insight = processing_sample, ir_deadline = None, ir_retry = 0\<rparr>",
        OF _ _ _ insight_steps.stop, of 3 "(Date 2030 1 1, 0)"]
    by (simp add: claimed_system_def owned_def row_status_def processing_sample_def)
qed

end
