(* ===== verification/InsightClients.thy ===== *)
theory InsightClients
  imports Gateway InsightWorker
begin

text \<open>The clients that write an insight: OpenAIInsightClient behind the gateway (insight_client.py), the
  template of DeterministicInsightClient and FallbackAIInsightClient, which the worker is wired with
  (worker_providers.py), composed with \<open>ProcessInsightUseCase\<close>.  The SDK is a parameter: it is given what
  the prompt is made from and answers with a decoded output, which \<open>_InsightOutput\<close> validates, or raises.  The
  fixed sentences of the prompt are left out, and the worker asks no \<open>user_question\<close>.\<close>

section \<open>The prompt\<close>

text \<open>Both clients have the list of month names of the aggregator.\<close>

text \<open>Python indexing: a negative index counts from the end.\<close>

definition py_index :: "'a list \<Rightarrow> int \<Rightarrow> exn + 'a" where
  "py_index xs i =
     (if 0 \<le> i \<and> i < int (length xs) then Inr (xs ! nat i)
      else if i < 0 \<and> - int (length xs) \<le> i then Inr (xs ! nat (int (length xs) + i))
      else Inl IndexError)"

definition request_label :: "insight_ai_request \<Rightarrow> exn + string" where
  "request_label r =
     (case ai_period r of
        P_MONTHLY \<Rightarrow> bindR (py_index month_names (ai_month r)) (\<lambda>name. Inr (name @ '' '' @ int_str (ai_year r)))
      | P_WEEKLY \<Rightarrow> Inr (''Week '' @ int_str (ai_month r) @ '', '' @ int_str (ai_year r)))"

record insight_prompt =
  ip_label :: string
  ip_sections :: "(string \<times> string \<times> string) list"
  ip_cache_key :: "string option"

definition build_user_prompt :: "insight_ai_request \<Rightarrow> exn + insight_prompt" where
  "build_user_prompt r =
     bindR (request_label r) (\<lambda>label.
       Inr \<lparr>ip_label = label, ip_sections = map (\<lambda>c. (ch_label c, ch_type c, ch_content c)) (ai_chunks r),
         ip_cache_key = ai_cache_key r\<rparr>)"

section \<open>OpenAIInsightClient\<close>

record insight_output =
  io_title :: string
  io_description :: string
  io_impact :: int

definition valid_output :: "insight_output \<Rightarrow> bool" where
  "valid_output out \<longleftrightarrow> 1 \<le> io_impact out \<and> io_impact out \<le> 10"

record insight_completion =
  ic_parsed :: "insight_output option"
  ic_usage :: "(nat \<times> nat) option"

definition do_generate ::
  "(insight_prompt \<Rightarrow> insight_completion call_outcome) \<Rightarrow> insight_ai_request \<Rightarrow> insight_response call_outcome" where
  "do_generate sdk r =
     (case build_user_prompt r of
        Inl e \<Rightarrow> Threw OtherException
      | Inr p \<Rightarrow>
          (case sdk p of
             Threw e \<Rightarrow> Threw e
           | CancelledCall \<Rightarrow> CancelledCall
           | Returned completion \<Rightarrow>
               (let (prompt_tokens, completion_tokens) = (case ic_usage completion of None \<Rightarrow> (0, 0) | Some u \<Rightarrow> u)
                in case ic_parsed completion of
                     None \<Rightarrow> Threw OtherException
                   | Some out \<Rightarrow>
                       if \<not> valid_output out then Threw OtherException
                       else Returned \<lparr>re_title = io_title out, re_description = io_description out,
                         re_impact = io_impact out, re_prompt_tokens = prompt_tokens,
                         re_completion_tokens = completion_tokens\<rparr>)))"

definition openai_generate ::
  "bool \<Rightarrow> bool \<Rightarrow> (insight_prompt \<Rightarrow> insight_completion call_outcome) \<Rightarrow> insight_ai_request \<Rightarrow>
     insight_response call_result" where
  "openai_generate queue_full breaker_open sdk r = gateway_call queue_full breaker_open (do_generate sdk r)"

section \<open>DeterministicInsightClient\<close>

definition preamble :: string where
  "preamble = ''AI analysis is temporarily unavailable, so here is a direct summary of your financial data for this period.''"

definition no_breakdown :: string where
  "no_breakdown = ''No detailed breakdown is available for this period.''"

definition deterministic_generate :: "insight_ai_request \<Rightarrow> exn + insight_response" where
  "deterministic_generate r =
     (let summary_chunks = filter (\<lambda>c. ch_type c = ''monthly_summary'') (ai_chunks r);
          shift_chunks = filter (\<lambda>c. ch_type c = ''behavioral_shift'') (ai_chunks r);
          body_parts = [preamble] @ map ch_content summary_chunks @ map ch_content shift_chunks;
          body_parts = (if summary_chunks = [] \<and> shift_chunks = [] then body_parts @ [no_breakdown] else body_parts)
      in bindR (request_label r) (\<lambda>label.
           Inr \<lparr>re_title = ''Your '' @ label @ '' summary'',
             re_description = join [CHR 0x0A, CHR 0x0A] body_parts,
             re_impact = (if shift_chunks \<noteq> [] then 6 else 5), re_prompt_tokens = 0, re_completion_tokens = 0\<rparr>))"

section \<open>FallbackAIInsightClient\<close>

text \<open>Its \<open>_reason\<close> is \<open>outcome_label\<close>.  A cancelled call (\<open>None\<close>) is not an \<open>OpenAICallError\<close> and passes.\<close>

definition fallback_generate ::
  "(insight_ai_request \<Rightarrow> insight_response call_result) \<Rightarrow> (insight_ai_request \<Rightarrow> exn + insight_response) \<Rightarrow>
     insight_ai_request \<Rightarrow> (exn + insight_response) option" where
  "fallback_generate primary fallback r =
     (case primary r of Answered x \<Rightarrow> Some (Inr x) | Failed e \<Rightarrow> Some (fallback r) | Interrupted \<Rightarrow> None)"

text \<open>The client the worker is wired with.\<close>

definition worker_client ::
  "bool \<Rightarrow> bool \<Rightarrow> (insight_prompt \<Rightarrow> insight_completion call_outcome) \<Rightarrow> insight_ai_request \<Rightarrow>
     (exn + insight_response) option" where
  "worker_client queue_full breaker_open sdk =
     fallback_generate (openai_generate queue_full breaker_open sdk) deterministic_generate"


section \<open>Lemmas\<close>

lemma month_label:
  "1 \<le> ai_month r \<Longrightarrow> ai_month r \<le> 12 \<Longrightarrow> \<exists>l. request_label r = Inr l"
  by (cases "ai_period r") (auto simp: request_label_def py_index_def month_names_def)

lemma read_month_bounds:
  "read_month cats txs u y m = Inr rows \<Longrightarrow> 1 \<le> y \<and> y \<le> 9999 \<and> 1 \<le> m \<and> m \<le> 12"
  by (auto simp: read_month_def bindR_Inr_iff mk_date_Inr_iff)

lemma history_reads:
  assumes "2 \<le> y" "y \<le> 9999" "1 \<le> m" "m \<le> 12"
  shows "\<exists>raw. read_history_months cats txs u y m n_history_months = Inr raw"
proof -
  have b: "1 \<le> days_in_month a b" for a b using days_in_month_bounds(1) [of a b] by simp
  then show ?thesis
    using assms by (auto simp: read_history_months_def n_history_months_def numeral_3_eq_3 Let_def mk_date_def
        monthrange_days_def split: prod.splits if_splits)
qed

lemma join_prefix: "take (length p) (join sep (p # ps)) = p"
  by (cases ps) simp_all

lemma deterministic_answers:
  assumes "request_label r = Inr l"
  shows "\<exists>x. deterministic_generate r = Inr x \<and> 1 \<le> re_impact x \<and> re_impact x \<le> 10 \<and>
    take (length preamble) (re_description x) = preamble"
  using assms join_prefix [of preamble] by (auto simp: deterministic_generate_def Let_def)

lemma openai_answer_valid:
  "openai_generate queue_full breaker_open sdk r = Answered x \<Longrightarrow>
     1 \<le> re_impact x \<and> re_impact x \<le> 10 \<and> \<not> queue_full \<and> \<not> breaker_open"
  by (auto simp: openai_generate_def gateway_call_def do_generate_def valid_output_def Let_def
      split: if_splits call_outcome.splits sum.splits option.splits prod.splits)

lemma worker_client_answers:
  assumes "request_label r = Inr l" "worker_client queue_full breaker_open sdk r = Some res"
  shows "\<exists>x. res = Inr x \<and> 1 \<le> re_impact x \<and> re_impact x \<le> 10 \<and>
    (queue_full \<or> breaker_open \<longrightarrow> take (length preamble) (re_description x) = preamble)"
proof (cases "openai_generate queue_full breaker_open sdk r")
  case (Answered x)
  then show ?thesis using assms(2) openai_answer_valid [OF Answered] by (auto simp: worker_client_def fallback_generate_def)
next
  case (Failed e)
  then show ?thesis using assms(2) deterministic_answers [OF assms(1)] by (auto simp: worker_client_def fallback_generate_def)
next
  case Interrupted
  then show ?thesis using assms(2) by (simp add: worker_client_def fallback_generate_def)
qed


lemma completed_save:
  assumes "distinct (map row_id rows)" "find_insight i u rows = Some x" "in_status x = IS_PROCESSING"
    "read_month cats txs u y m = Inr budget" "1 \<le> re_impact response" "re_impact response \<le> 10"
  shows "\<exists>rows' z. complete_insight cats txs i u response q y m now rows = Inr rows' \<and>
    find_insight i u rows' = Some z \<and> in_status z = IS_COMPLETED \<and> in_quality z = Some q \<and>
    in_description z = Some (re_description response) \<and> in_impact z = Some (re_impact response)"
proof -
  have id: "in_id x = i" "in_user x = u" using find_insight_Some [OF assms(2)] by auto
  then show ?thesis
    using assms find_saved [OF assms(1,2), of "x\<lparr>in_status := IS_COMPLETED, in_title := Some (re_title response),
        in_description := Some (re_description response), in_impact := Some (re_impact response),
        in_quality := Some q, in_generated_at := Some now, in_summary := aggregate_rows budget\<rparr>"]
    by (simp add: complete_insight_def mark_completed_def)
qed

section \<open>Properties\<close>



end
