(* ===== verification/PyNet.thy ===== *)
theory PyNet
  imports PyJson "HOL-Library.Word"
begin

unbundle bit_operations_syntax

text \<open>The parts of Python's standard library the HTTP middleware uses: \<open>str.split\<close> and the module \<open>ipaddress\<close> (\<open>ip_address\<close>, \<open>ip_network\<close> with
  \<open>strict=False\<close>, and the membership test of an address in a network). Addresses are machine
  words, and \<open>None\<close> stands for the \<open>ValueError\<close> of a constructor. Strings are sequences of
  8-bit characters, which is what decoding a header as Latin-1 gives.\<close>

section \<open>Splitting\<close>

text \<open>\<open>s.split(c)\<close>; the result is never empty.\<close>

fun split_on :: "char \<Rightarrow> string \<Rightarrow> string list" where
  "split_on c [] = [[]]"
| "split_on c (x # xs) =
     (if x = c then [] # split_on c xs
      else case split_on c xs of [] \<Rightarrow> [[x]] | w # ws \<Rightarrow> (x # w) # ws)"

text \<open>\<open>pair.split("=", 1)\<close> of a string with the separator in it.\<close>

definition split_once :: "char \<Rightarrow> string \<Rightarrow> string \<times> string" where
  "split_once c s = (takeWhile (\<lambda>x. x \<noteq> c) s, tl (dropWhile (\<lambda>x. x \<noteq> c) s))"

lemma split_on_nonempty [simp]: "split_on c s \<noteq> []"
  by (induction s) (auto split: list.splits)

lemma split_on_app: "split_on c (s @ c # t) = split_on c s @ split_on c t"
proof (induction s)
  case (Cons x s)
  then show ?case by (cases "split_on c s") (auto split: list.splits)
qed simp

lemma split_on_id: "c \<notin> set s \<Longrightarrow> split_on c s = [s]"
  by (induction s) auto

definition starts_with :: "string \<Rightarrow> string \<Rightarrow> bool" where
  "starts_with p s = (take (length p) s = p)"

section \<open>Addresses\<close>

datatype ip_addr = V4 "32 word" | V6 "128 word"

definition parse_octet :: "string \<Rightarrow> nat option" where
  "parse_octet s =
     (if s = [] \<or> \<not> list_all is_digit s \<or> 3 < length s \<or> (s \<noteq> ''0'' \<and> hd s = CHR ''0'')
        \<or> 255 < digits_val s
      then None else Some (digits_val s))"

definition v4_int :: "string \<Rightarrow> nat option" where
  "v4_int s = (case map parse_octet (split_on (CHR ''.'') s) of
     [Some a, Some b, Some c, Some d] \<Rightarrow> Some (((a * 256 + b) * 256 + c) * 256 + d)
   | _ \<Rightarrow> None)"

definition parse_hextet :: "string \<Rightarrow> nat option" where
  "parse_hextet s = (if s = [] \<or> 4 < length s then None else hex_val 0 s)"

fun hextets :: "nat \<Rightarrow> string list \<Rightarrow> nat option" where
  "hextets acc [] = Some acc"
| "hextets acc (s # ss) =
     (case parse_hextet s of None \<Rightarrow> None | Some h \<Rightarrow> hextets (acc * 65536 + h) ss)"

text \<open>The colon-separated groups of an IPv6 address: a dotted IPv4 address in the last group
  counts as two groups, and one run of zero groups may be left out as \<open>::\<close>.\<close>

definition v6_groups :: "string list \<Rightarrow> string list option" where
  "v6_groups parts =
     (if CHR ''.'' \<in> set (last parts)
      then (case v4_int (last parts) of None \<Rightarrow> None
        | Some n \<Rightarrow> Some (butlast parts @ [hex_fixed 4 (n div 65536), hex_fixed 4 (n mod 65536)]))
      else Some parts)"

definition v6_fill :: "string list \<Rightarrow> nat option" where
  "v6_fill parts =
     (case filter (\<lambda>i. parts ! i = []) [1..<length parts - 1] of
        [] \<Rightarrow> (if length parts = 8 then hextets 0 parts else None)
      | [i] \<Rightarrow>
          (let hi = take i parts; lo = drop (Suc i) parts;
               hi' = (if hd parts = [] then tl hi else hi);
               lo' = (if last parts = [] then butlast lo else lo) in
           if hd parts = [] \<and> hi' \<noteq> [] \<or> last parts = [] \<and> lo' \<noteq> []
              \<or> 8 \<le> length hi' + length lo' then None
           else hextets 0 (hi' @ replicate (8 - (length hi' + length lo')) ''0'' @ lo'))
      | _ \<Rightarrow> None)"

definition v6_int :: "string \<Rightarrow> nat option" where
  "v6_int s = (let parts = split_on (CHR '':'') s in
     if length parts < 3 then None
     else case v6_groups parts of None \<Rightarrow> None
       | Some ps \<Rightarrow> if 9 < length ps then None else v6_fill ps)"

text \<open>\<open>ipaddress.ip_address\<close>: an IPv4 address, or an IPv6 address with an optional zone.\<close>

definition v6_address :: "string \<Rightarrow> (nat \<times> string option) option" where
  "v6_address s =
     (if CHR ''/'' \<in> set s then None
      else let (a, z) = split_once (CHR ''%'') s in
        if CHR ''%'' \<notin> set s then map_option (\<lambda>n. (n, None)) (v6_int a)
        else if z = [] \<or> CHR ''%'' \<in> set z then None
        else map_option (\<lambda>n. (n, Some z)) (v6_int a))"

definition ip_address :: "string \<Rightarrow> ip_addr option" where
  "ip_address s =
     (case (if CHR ''/'' \<in> set s then None else v4_int s) of
        Some n \<Rightarrow> Some (V4 (word_of_nat n))
      | None \<Rightarrow> (case v6_address s of
          Some (n, _) \<Rightarrow> Some (V6 (word_of_nat n)) | None \<Rightarrow> None))"

section \<open>Networks\<close>

text \<open>A network address with the number of its leading one bits.\<close>

datatype ip_net = Net4 "32 word" nat | Net6 "128 word" nat

definition prefix_len :: "nat \<Rightarrow> string \<Rightarrow> nat option" where
  "prefix_len w s =
     (if s = [] \<or> \<not> list_all is_digit s \<or> w < digits_val s then None else Some (digits_val s))"

text \<open>An IPv4 mask may also be given as a netmask or as a hostmask.\<close>

definition dotted_prefix :: "string \<Rightarrow> nat option" where
  "dotted_prefix s = (case v4_int s of None \<Rightarrow> None
     | Some n \<Rightarrow>
        (case find (\<lambda>p. n = (2 ^ p - 1) * 2 ^ (32 - p)) [0..<33] of
           Some p \<Rightarrow> Some p
         | None \<Rightarrow> find (\<lambda>p. 2 ^ 32 - 1 - n = (2 ^ p - 1) * 2 ^ (32 - p)) [0..<33]))"

definition net_mask :: "nat \<Rightarrow> 'a::len word" where
  "net_mask p = NOT (mask (LENGTH('a) - p))"

text \<open>\<open>ipaddress.ip_network(token, strict=False)\<close>: the host bits are cleared.\<close>

definition ip_network :: "string \<Rightarrow> ip_net option" where
  "ip_network s = (case split_on (CHR ''/'') s of
     [a] \<Rightarrow> (case v4_int a of Some n \<Rightarrow> Some (Net4 (word_of_nat n) 32)
       | None \<Rightarrow> map_option (\<lambda>(n, _). Net6 (word_of_nat n) 128) (v6_address a))
   | [a, m] \<Rightarrow>
       (case (v4_int a, case prefix_len 32 m of Some p \<Rightarrow> Some p | None \<Rightarrow> dotted_prefix m) of
          (Some n, Some p) \<Rightarrow> Some (Net4 (word_of_nat n AND net_mask p) p)
        | _ \<Rightarrow> (case (v6_address a, prefix_len 128 m) of
             (Some (n, _), Some p) \<Rightarrow> Some (Net6 (word_of_nat n AND net_mask p) p)
           | _ \<Rightarrow> None))
   | _ \<Rightarrow> None)"

fun in_net :: "ip_addr \<Rightarrow> ip_net \<Rightarrow> bool" where
  "in_net (V4 a) (Net4 n p) = (a AND net_mask p = n)"
| "in_net (V6 a) (Net6 n p) = (a AND net_mask p = n)"
| "in_net _ _ = False"

end
