(* ===== verification/Maintenance.thy ===== *)
theory Maintenance
  imports Shifts Outbox PyNet Cursors
begin

text \<open>The maintenance jobs of app/main/scheduler/main.py: the monthly partitions of the audit log, which
  are created ahead and dropped after twelve months, the purge of published outbox rows in batches and
  the purge of old alerts.\<close>

section \<open>Months\<close>

definition add_month :: "int \<Rightarrow> int \<Rightarrow> int \<times> int" where
  "add_month year month = (if month = 12 then (year + 1, 1) else (year, month + 1))"

definition sub_months :: "int \<Rightarrow> int \<Rightarrow> int \<Rightarrow> int \<times> int" where
  "sub_months year month n = (let idx = year * 12 + (month - 1) - n in (idx div 12, idx mod 12 + 1))"

definition date_index :: "date \<Rightarrow> int" where
  "date_index d = month_index (date_year d) (date_month d)"

section \<open>The partitioned table\<close>

text \<open>A partition holds the rows from midnight of its first day up to midnight of its end; a row that no
  partition covers is in the default partition, which the migration creates.\<close>

record partition =
  pt_name :: string
  pt_from :: date
  pt_to :: date

record audit_store =
  as_parts :: "partition list"
  as_rows :: "audit_event list"

definition covers :: "partition \<Rightarrow> date \<Rightarrow> bool" where
  "covers p d \<longleftrightarrow> pt_from p \<le> d \<and> d < pt_to p"

definition ev_date :: "audit_event \<Rightarrow> date" where
  "ev_date e = fst (ev_at e)"

definition default_partition :: string where
  "default_partition = ''audit_events_default''"

text \<open>\<open>CREATE TABLE IF NOT EXISTS\<close>: PostgreSQL refuses a range that overlaps another partition's and one
  that a row of the default partition lies in; the exception undoes the job's transaction (\<open>None\<close>).\<close>

definition create_partition :: "string \<Rightarrow> date \<Rightarrow> date \<Rightarrow> audit_store \<Rightarrow> audit_store option" where
  "create_partition name lo hi st =
     (if name \<in> insert default_partition (pt_name ` set (as_parts st)) then Some st
      else if list_ex (\<lambda>p. pt_from p < hi \<and> lo < pt_to p) (as_parts st) then None
      else if list_ex (\<lambda>e. lo \<le> ev_date e \<and> ev_date e < hi) (as_rows st) then None
      else Some (st\<lparr>as_parts := as_parts st @ [\<lparr>pt_name = name, pt_from = lo, pt_to = hi\<rparr>]\<rparr>))"

text \<open>\<open>DETACH PARTITION\<close> and \<open>DROP TABLE\<close>: the partition's rows go with it.\<close>

definition drop_partition :: "string \<Rightarrow> audit_store \<Rightarrow> audit_store" where
  "drop_partition name st =
     \<lparr>as_parts = filter (\<lambda>p. pt_name p \<noteq> name) (as_parts st),
      as_rows = filter (\<lambda>e. \<not> list_ex (\<lambda>p. pt_name p = name \<and> covers p (ev_date e)) (as_parts st)) (as_rows st)\<rparr>"

section \<open>manage_audit_partitions_job\<close>

definition ahead_months :: nat where "ahead_months = 3"
definition retention_months :: int where "retention_months = 12"

definition partition_name :: "int \<Rightarrow> int \<Rightarrow> string" where
  "partition_name year month = ''audit_events_'' @ zfill 4 (nat year) @ ''_'' @ zfill 2 (nat month)"

fun create_ahead :: "nat \<Rightarrow> int \<Rightarrow> int \<Rightarrow> audit_store \<Rightarrow> (string list \<times> audit_store) option" where
  "create_ahead 0 year month st = Some ([], st)"
| "create_ahead (Suc n) year month st =
     (let (nxt_year, nxt_month) = add_month year month; name = partition_name year month
      in case create_partition name (Date year month 1) (Date nxt_year nxt_month 1) st of
           None \<Rightarrow> None
         | Some st' \<Rightarrow> (case create_ahead n nxt_year nxt_month st' of
               None \<Rightarrow> None
             | Some (created, st'') \<Rightarrow> Some (name # created, st'')))"

text \<open>The month in a partition's name; \<open>None\<close> for the names the loop skips.  Names are ASCII.\<close>

definition is_digits :: "string \<Rightarrow> bool" where
  "is_digits s \<longleftrightarrow> s \<noteq> [] \<and> list_all is_digit s"

definition partition_month :: "string \<Rightarrow> (int \<times> int) option" where
  "partition_month name =
     (if take 13 name \<noteq> ''audit_events_'' then None
      else case split_on CHR ''_'' (drop 13 name) of
          [a, b] \<Rightarrow> if is_digits a \<and> is_digits b then Some (int (digits_val a), int (digits_val b)) else None
        | _ \<Rightarrow> None)"

definition drop_old :: "int \<times> int \<Rightarrow> string list \<Rightarrow> audit_store \<Rightarrow> string list \<times> audit_store" where
  "drop_old oldest names st =
     foldl (\<lambda>(dropped, st) name. case partition_month name of
         None \<Rightarrow> (dropped, st)
       | Some ym \<Rightarrow> if oldest \<le> ym then (dropped, st) else (dropped @ [name], drop_partition name st))
       ([], st) names"

definition manage_audit_partitions :: "date \<Rightarrow> audit_store \<Rightarrow> (string list \<times> string list \<times> audit_store) option" where
  "manage_audit_partitions today st =
     (case create_ahead (ahead_months + 1) (date_year today) (date_month today) st of
        None \<Rightarrow> None
      | Some (created, st') \<Rightarrow>
          (let oldest = sub_months (date_year today) (date_month today) retention_months;
               (dropped, st'') = drop_old oldest (default_partition # map pt_name (as_parts st')) st'
           in Some (created, dropped, st'')))"

section \<open>purge_sent_outbox_job\<close>

definition purge_batch_size :: nat where "purge_batch_size = 5000"

text \<open>The rows one statement deletes; which of the old ones come first is the database's choice, here
  their order in the table; times are in microseconds.  \<open>now\<close> is the time of each batch's transaction.\<close>

definition sent_before :: "timestamp \<Rightarrow> outbox_row \<Rightarrow> bool" where
  "sent_before cutoff r \<longleftrightarrow> ob_status r = OS_SENT \<and> ob_occurred_at r < cutoff"

definition delete_batch :: "timestamp \<Rightarrow> outbox_row list \<Rightarrow> nat \<times> outbox_row list" where
  "delete_batch cutoff rows =
     (let ids = map ob_id (take purge_batch_size (filter (sent_before cutoff) rows))
      in (length (filter (\<lambda>r. ob_id r \<in> set ids) rows), filter (\<lambda>r. ob_id r \<notin> set ids) rows))"

lemma delete_batch_length:
  "delete_batch cutoff rows = (deleted, rows') \<Longrightarrow> length rows' = length rows - deleted \<and> deleted \<le> length rows"
  using sum_length_filter_compl [of "\<lambda>r. ob_id r \<in> ob_id ` set (take purge_batch_size (filter (sent_before cutoff) rows))" rows]
  by (auto simp: delete_batch_def Let_def)

definition purge_after :: timestamp where "purge_after = 7 * 24 * 60 * 60 * 1000000"

function purge_loop :: "(nat \<Rightarrow> timestamp) \<Rightarrow> nat \<Rightarrow> nat \<Rightarrow> outbox_row list \<Rightarrow> nat \<times> outbox_row list" where
  "purge_loop now k total_deleted rows =
     (let (deleted, rows') = delete_batch (now k - purge_after) rows
      in if deleted < purge_batch_size then (total_deleted + deleted, rows')
         else purge_loop now (Suc k) (total_deleted + deleted) rows')"
  by pat_completeness auto
termination
proof (relation "measure (\<lambda>(now, k, n, rows). length rows)")
  fix now :: "nat \<Rightarrow> timestamp" and k n :: nat and rows :: "outbox_row list" and x deleted rows'
  assume "x = delete_batch (now k - purge_after) rows" "(deleted, rows') = x" "\<not> deleted < purge_batch_size"
  then have "length rows' = length rows - deleted" "deleted \<le> length rows" "0 < deleted"
    using delete_batch_length [of "now k - purge_after" rows deleted rows'] by (auto simp: purge_batch_size_def)
  then show "((now, Suc k, n + deleted, rows'), (now, k, n, rows)) \<in> measure (\<lambda>(now, k, n, rows). length rows)"
    by simp
qed simp

declare purge_loop.simps [simp del]

definition purge_sent_outbox :: "(nat \<Rightarrow> timestamp) \<Rightarrow> outbox_row list \<Rightarrow> nat \<times> outbox_row list" where
  "purge_sent_outbox now rows = purge_loop now 0 0 rows"

section \<open>purge_old_alerts_job\<close>

definition alert_retention_days :: int where "alert_retention_days = 90"

definition purge_old_alerts :: "datetime \<Rightarrow> alerts_db \<Rightarrow> exn + nat \<times> alerts_db" where
  "purge_old_alerts cutoff db = purge_older_than alert_retention_days cutoff db"

section \<open>Lemmas on months and names\<close>

lemma month_index_le_iff:
  assumes "1 \<le> m" "m \<le> 12" "1 \<le> m'" "m' \<le> 12"
  shows "month_index y m \<le> month_index y' m' \<longleftrightarrow> (y, m) \<le> (y', m')"
  using month_index_year [of y m y' m'] month_index_year [of y' m' y m] assms
  by (auto simp: month_index_def)

lemma month_index_inj:
  assumes "1 \<le> m" "m \<le> 12" "1 \<le> m'" "m' \<le> 12" "month_index y m = month_index y' m'"
  shows "y = y' \<and> m = m'"
  using month_index_year [of y m y' m'] month_index_year [of y' m' y m] assms by auto

lemma add_month_index:
  assumes "1 \<le> m" "m \<le> 12" "add_month y m = (y', m')"
  shows "1 \<le> m'" "m' \<le> 12" "month_index y' m' = month_index y m + 1" "y \<le> y'" "y' \<le> y + 1"
  using assms by (auto simp: add_month_def month_index_def split: if_splits)

lemma sub_months_index:
  assumes "sub_months y m n = (y', m')"
  shows "1 \<le> m'" "m' \<le> 12" "month_index y' m' = month_index y m - n"
proof -
  define i where "i = y * 12 + (m - 1) - n"
  have "y' = i div 12" "m' = i mod 12 + 1" using assms by (auto simp: sub_months_def i_def Let_def)
  moreover have "12 * (i div 12) + i mod 12 = i" "0 \<le> i mod 12" "i mod 12 < 12" by simp_all
  ultimately show "1 \<le> m'" "m' \<le> 12" "month_index y' m' = month_index y m - n"
    by (simp_all add: month_index_def i_def)
qed

definition month_part :: "int \<Rightarrow> int \<Rightarrow> partition" where
  "month_part y m = (let (y', m') = add_month y m
     in \<lparr>pt_name = partition_name y m, pt_from = Date y m 1, pt_to = Date y' m' 1\<rparr>)"

lemma month_part_simps [simp]:
  "pt_name (month_part y m) = partition_name y m" "pt_from (month_part y m) = Date y m 1"
  by (simp_all add: month_part_def split: prod.split)

lemma month_part_to: "add_month y m = (y', m') \<Longrightarrow> pt_to (month_part y m) = Date y' m' 1"
  by (simp add: month_part_def)

lemma first_of_month_le:
  assumes "valid_date d" "1 \<le> m" "m \<le> 12"
  shows "Date y m 1 \<le> d \<longleftrightarrow> month_index y m \<le> date_index d"
  using assms month_index_year [of y m "date_year d" "date_month d"]
  by (cases d) (auto simp: month_index_def date_index_def)

lemma covers_month:
  assumes "valid_date d" "1 \<le> m" "m \<le> 12"
  shows "covers (month_part y m) d \<longleftrightarrow> date_index d = month_index y m"
proof -
  obtain y' m' where a: "add_month y m = (y', m')" by fastforce
  note b = add_month_index [OF assms(2,3) a]
  have "d < Date y' m' 1 \<longleftrightarrow> \<not> month_index y' m' \<le> date_index d"
    using first_of_month_le [OF assms(1) b(1,2), of y'] by (metis not_le)
  then show ?thesis
    using first_of_month_le [OF assms, of y] b(3)
    unfolding covers_def month_part_simps month_part_to [OF a] by linarith
qed

lemma no_underscore: "list_all is_digit s \<Longrightarrow> CHR ''_'' \<notin> set s"
  by (auto simp: list_all_iff is_digit_def)

lemma partition_month_name:
  assumes "0 \<le> y" "y < 10000" "1 \<le> m" "m \<le> 12"
  shows "partition_month (partition_name y m) = Some (y, m)"
proof -
  have "split_on CHR ''_'' (zfill 4 (nat y) @ CHR ''_'' # zfill 2 (nat m)) = [zfill 4 (nat y), zfill 2 (nat m)]"
    by (simp only: split_on_app split_on_id [OF no_underscore [OF digits_zfill]]) simp
  moreover have "digits_val (zfill 4 (nat y)) = nat y" "digits_val (zfill 2 (nat m)) = nat m"
    using assms by (simp_all add: digits_val_zfill del: zfill.simps)
  moreover have "is_digits (zfill (Suc k) n)" for k n
    using digits_zfill [of "Suc k" n] by (simp add: is_digits_def del: list_all_append)
  then have "is_digits (zfill 4 n)" "is_digits (zfill 2 n)" for n
    by (simp_all only: eval_nat_numeral)
  ultimately show ?thesis
    using assms by (simp add: partition_month_def partition_name_def del: zfill.simps)
qed

lemma partition_name_inj:
  assumes "0 \<le> y" "y < 10000" "1 \<le> m" "m \<le> 12" "0 \<le> y'" "y' < 10000" "1 \<le> m'" "m' \<le> 12"
    and "partition_name y m = partition_name y' m'"
  shows "y = y' \<and> m = m'"
proof -
  have "Some (y, m) = Some (y', m')"
    using partition_month_name [OF assms(1-4)] unfolding assms(9) partition_month_name [OF assms(5-8)] by (rule sym)
  then show ?thesis by simp
qed

lemma partition_month_default [simp]: "partition_month default_partition = None"
  by code_simp

section \<open>Lemmas on the partitions\<close>

text \<open>What the migration sets up and the job keeps: a partition is a whole month named after it.\<close>

definition monthly_store :: "audit_store \<Rightarrow> bool" where
  "monthly_store st \<longleftrightarrow> distinct (map pt_name (as_parts st)) \<and>
     (\<forall>p\<in>set (as_parts st). \<exists>y m. 1 \<le> y \<and> y \<le> 9998 \<and> 1 \<le> m \<and> m \<le> 12 \<and> p = month_part y m) \<and>
     (\<forall>e\<in>set (as_rows st). valid_date (ev_date e))"

lemma monthly_part:
  assumes "monthly_store st" "1 \<le> y" "y \<le> 9998" "1 \<le> m" "m \<le> 12" "partition_name y m \<in> pt_name ` set (as_parts st)"
  shows "month_part y m \<in> set (as_parts st)"
proof -
  obtain p where p: "p \<in> set (as_parts st)" "pt_name p = partition_name y m" using assms(6) by auto
  then obtain y' m' where "1 \<le> y'" "y' \<le> 9998" "1 \<le> m'" "m' \<le> 12" "p = month_part y' m'"
    using assms(1) unfolding monthly_store_def by blast
  moreover from this p(2) assms(2-5) have "y' = y \<and> m' = m" by (intro partition_name_inj) auto
  ultimately show ?thesis using p(1) by simp
qed

lemma create_monthly:
  assumes st: "monthly_store st" and ym: "1 \<le> y" "y \<le> 9998" "1 \<le> m" "m \<le> 12" "add_month y m = (y', m')"
    and rows: "\<And>e. e \<in> set (as_rows st) \<Longrightarrow> date_index (ev_date e) = month_index y m \<Longrightarrow>
      month_part y m \<in> set (as_parts st)"
  shows "create_partition (partition_name y m) (Date y m 1) (Date y' m' 1) st =
    Some (if month_part y m \<in> set (as_parts st) then st else st\<lparr>as_parts := as_parts st @ [month_part y m]\<rparr>)"
proof (cases "month_part y m \<in> set (as_parts st)")
  case True
  then have "partition_name y m \<in> pt_name ` set (as_parts st)" by force
  then show ?thesis using True by (simp add: create_partition_def)
next
  case False
  have n: "partition_name y m \<noteq> default_partition"
    using partition_month_name [of y m] ym by auto
  have new: "partition_name y m \<notin> pt_name ` set (as_parts st)" using monthly_part [OF st ym(1-4)] False by blast
  note b = add_month_index [OF ym(3-5)]
  have "\<not> (pt_from p < Date y' m' 1 \<and> Date y m 1 < pt_to p)" if p: "p \<in> set (as_parts st)" for p
  proof -
    obtain a k where a: "1 \<le> a" "a \<le> 9998" "1 \<le> k" "k \<le> 12" "p = month_part a k"
      using st p unfolding monthly_store_def by blast
    obtain a' k' where n': "add_month a k = (a', k')" by fastforce
    note c = add_month_index [OF a(3,4) n']
    have "month_index a k \<noteq> month_index y m" using month_index_inj [OF a(3,4) ym(3,4)] a(5) p False by auto
    moreover have "Date a k 1 < Date y' m' 1 \<longleftrightarrow> month_index a k < month_index y' m'"
      using month_index_le_iff [OF b(1,2) a(3,4), of y' a] by (auto simp: not_le [symmetric])
    moreover have "Date y m 1 < Date a' k' 1 \<longleftrightarrow> month_index y m < month_index a' k'"
      using month_index_le_iff [OF c(1,2) ym(3,4), of a' y] by (auto simp: not_le [symmetric])
    ultimately show ?thesis using b(3) c(3) by (auto simp: a(5) month_part_to [OF n'])
  qed
  moreover have "\<not> (Date y m 1 \<le> ev_date e \<and> ev_date e < Date y' m' 1)" if "e \<in> set (as_rows st)" for e
    using rows [OF that] False covers_month [of "ev_date e" m y] st that ym(3,4)
    by (auto simp: monthly_store_def covers_def month_part_to [OF ym(5)])
  moreover have "\<lparr>pt_name = partition_name y m, pt_from = Date y m 1, pt_to = Date y' m' 1\<rparr> = month_part y m"
    using ym(5) by (simp add: month_part_def)
  ultimately show ?thesis
    using n new False by (auto simp: create_partition_def list_ex_iff)
qed

lemma monthly_added:
  assumes "monthly_store st" "1 \<le> y" "y \<le> 9998" "1 \<le> m" "m \<le> 12" "month_part y m \<notin> set (as_parts st)"
  shows "monthly_store (st\<lparr>as_parts := as_parts st @ [month_part y m]\<rparr>)"
  using assms monthly_part [OF assms(1-5)] by (auto simp: monthly_store_def)

text \<open>The partitions of the next months exist after the first loop, and no others are added.\<close>

lemma create_ahead_all:
  assumes "monthly_store st" "1 \<le> y" "y + int n \<le> 9998" "1 \<le> m" "m \<le> 12"
    and "\<And>e. e \<in> set (as_rows st) \<Longrightarrow> month_index y m \<le> date_index (ev_date e) \<Longrightarrow>
      date_index (ev_date e) < month_index y m + int n \<Longrightarrow> \<exists>p\<in>set (as_parts st). covers p (ev_date e)"
  shows "\<exists>names st'. create_ahead n y m st = Some (names, st') \<and> monthly_store st' \<and> as_rows st' = as_rows st \<and>
    set (as_parts st) \<subseteq> set (as_parts st') \<and>
    (\<forall>a k. 1 \<le> k \<and> k \<le> 12 \<and> month_index y m \<le> month_index a k \<and> month_index a k < month_index y m + int n \<longrightarrow>
       month_part a k \<in> set (as_parts st')) \<and>
    (\<forall>p\<in>set (as_parts st') - set (as_parts st). \<exists>a k. 1 \<le> k \<and> k \<le> 12 \<and> p = month_part a k \<and>
       month_index y m \<le> month_index a k)"
  using assms
proof (induction n arbitrary: y m st)
  case 0
  then show ?case by auto
next
  case (Suc n)
  obtain y1 m1 where a: "add_month y m = (y1, m1)" by fastforce
  note b = add_month_index [OF Suc.prems(4,5) a]
  have covered: "month_part y' m' \<in> set (as_parts st)"
    if h: "e \<in> set (as_rows st)" "date_index (ev_date e) = month_index y' m'" "1 \<le> m'" "m' \<le> 12"
      "month_index y m \<le> month_index y' m'" "month_index y' m' < month_index y m + int (Suc n)" for e y' m'
  proof -
    obtain p where p: "p \<in> set (as_parts st)" "covers p (ev_date e)" using Suc.prems(6) [OF h(1)] h(2,5,6) by auto
    then obtain c k where c: "1 \<le> k" "k \<le> 12" "p = month_part c k"
      using Suc.prems(1) unfolding monthly_store_def by blast
    have "valid_date (ev_date e)" using Suc.prems(1) h(1) by (simp add: monthly_store_def)
    then have "month_index c k = month_index y' m'" using covers_month [OF _ c(1,2)] p(2) c(3) h(2) by simp
    then show ?thesis using month_index_inj [OF c(1,2) h(3,4)] p(1) c(3) by auto
  qed
  define st1 where "st1 = (if month_part y m \<in> set (as_parts st) then st
    else st\<lparr>as_parts := as_parts st @ [month_part y m]\<rparr>)"
  have c1: "create_partition (partition_name y m) (Date y m 1) (Date y1 m1 1) st = Some st1"
    unfolding st1_def using Suc.prems(3) covered Suc.prems(4,5)
    by (intro create_monthly [OF Suc.prems(1,2) _ Suc.prems(4,5) a]) auto
  have st1: "monthly_store st1" "as_rows st1 = as_rows st" "set (as_parts st1) = insert (month_part y m) (set (as_parts st))"
    using monthly_added [OF Suc.prems(1,2) _ Suc.prems(4,5)] Suc.prems(1,3) by (auto simp: st1_def)
  have later: "\<exists>p\<in>set (as_parts st1). covers p (ev_date e)"
    if "e \<in> set (as_rows st1)" "month_index y1 m1 \<le> date_index (ev_date e)"
      "date_index (ev_date e) < month_index y1 m1 + int n" for e
    using Suc.prems(6) [of e] that b(3) st1 by auto
  have y1: "1 \<le> y1" "y1 + int n \<le> 9998" using Suc.prems(2,3) b(4,5) by simp_all
  note IH = Suc.IH [OF st1(1) y1 b(1,2) later]
  obtain names st2 where r: "create_ahead n y1 m1 st1 = Some (names, st2)" "monthly_store st2"
      "as_rows st2 = as_rows st1" "set (as_parts st1) \<subseteq> set (as_parts st2)" and
    all: "\<forall>a k. 1 \<le> k \<and> k \<le> 12 \<and> month_index y1 m1 \<le> month_index a k \<and>
       month_index a k < month_index y1 m1 + int n \<longrightarrow> month_part a k \<in> set (as_parts st2)" and
    new: "\<forall>p\<in>set (as_parts st2) - set (as_parts st1). \<exists>a k. 1 \<le> k \<and> k \<le> 12 \<and> p = month_part a k \<and>
       month_index y1 m1 \<le> month_index a k"
    using IH by blast
  have "month_part a k \<in> set (as_parts st2)"
    if "1 \<le> k" "k \<le> 12" "month_index y m \<le> month_index a k" "month_index a k < month_index y m + int (Suc n)" for a k
  proof (cases "month_index a k = month_index y m")
    case True
    then show ?thesis using month_index_inj [OF that(1,2) Suc.prems(4,5)] r(4) st1(3) by auto
  next
    case False
    then show ?thesis using all that b(3) by auto
  qed
  moreover have "\<exists>a k. 1 \<le> k \<and> k \<le> 12 \<and> p = month_part a k \<and> month_index y m \<le> month_index a k"
    if p: "p \<in> set (as_parts st2)" "p \<notin> set (as_parts st)" for p
  proof (cases "p = month_part y m")
    case True
    then show ?thesis using Suc.prems(4,5) by blast
  next
    case False
    then have "p \<in> set (as_parts st2) - set (as_parts st1)" using p st1(3) by simp
    then show ?thesis using new b(3) by fastforce
  qed
  ultimately show ?case
    using a c1 r st1(2,3) by (auto simp: Let_def)
qed

definition expired_name :: "int \<times> int \<Rightarrow> string \<Rightarrow> bool" where
  "expired_name oldest name \<longleftrightarrow> (case partition_month name of None \<Rightarrow> False | Some ym \<Rightarrow> \<not> oldest \<le> ym)"

lemma drop_old_step:
  "foldl (\<lambda>(dropped, st) name. case partition_month name of
         None \<Rightarrow> (dropped, st)
       | Some ym \<Rightarrow> if oldest \<le> ym then (dropped, st) else (dropped @ [name], drop_partition name st))
       (ds, st) names =
   (ds @ filter (expired_name oldest) names,
    \<lparr>as_parts = filter (\<lambda>p. \<not> (pt_name p \<in> set names \<and> expired_name oldest (pt_name p))) (as_parts st),
     as_rows = filter (\<lambda>e. \<not> (\<exists>p\<in>set (as_parts st). pt_name p \<in> set names \<and> expired_name oldest (pt_name p) \<and>
        covers p (ev_date e))) (as_rows st)\<rparr>)"
proof (induction names arbitrary: ds st)
  case (Cons n names)
  show ?case
  proof (cases "expired_name oldest n")
    case True
    then obtain ym where ym: "partition_month n = Some ym" "\<not> oldest \<le> ym"
      by (auto simp: expired_name_def split: option.splits)
    have "filter (\<lambda>p. \<not> (pt_name p \<in> set names \<and> expired_name oldest (pt_name p))) (as_parts (drop_partition n st)) =
        filter (\<lambda>p. \<not> (pt_name p \<in> set (n # names) \<and> expired_name oldest (pt_name p))) (as_parts st)"
      using True by (auto simp: drop_partition_def intro!: filter_cong)
    moreover have "filter (\<lambda>e. \<not> (\<exists>p\<in>set (as_parts (drop_partition n st)). pt_name p \<in> set names \<and>
          expired_name oldest (pt_name p) \<and> covers p (ev_date e))) (as_rows (drop_partition n st)) =
        filter (\<lambda>e. \<not> (\<exists>p\<in>set (as_parts st). pt_name p \<in> set (n # names) \<and> expired_name oldest (pt_name p) \<and>
          covers p (ev_date e))) (as_rows st)"
      using True by (auto simp: drop_partition_def list_ex_iff intro!: filter_cong)
    ultimately show ?thesis using ym True by (simp add: Cons.IH)
  next
    case False
    then have "(case partition_month n of None \<Rightarrow> (ds, st)
       | Some ym \<Rightarrow> if oldest \<le> ym then (ds, st) else (ds @ [n], drop_partition n st)) = (ds, st)"
      by (auto simp: expired_name_def split: option.splits)
    then have "foldl (\<lambda>(dropped, st) name. case partition_month name of
         None \<Rightarrow> (dropped, st)
       | Some ym \<Rightarrow> if oldest \<le> ym then (dropped, st) else (dropped @ [name], drop_partition name st))
       (ds, st) (n # names) = foldl (\<lambda>(dropped, st) name. case partition_month name of
         None \<Rightarrow> (dropped, st)
       | Some ym \<Rightarrow> if oldest \<le> ym then (dropped, st) else (dropped @ [name], drop_partition name st))
       (ds, st) names" by simp
    then show ?thesis using False unfolding Cons.IH by (auto intro!: filter_cong)
  qed
qed simp

lemma expired_month:
  assumes "1 \<le> y" "y \<le> 9998" "1 \<le> m" "m \<le> 12" "sub_months a k n = oldest"
  shows "expired_name oldest (partition_name y m) \<longleftrightarrow> month_index y m < month_index a k - n"
proof -
  obtain c l where o: "oldest = (c, l)" by fastforce
  note b = sub_months_index [OF assms(5) [unfolded o]]
  have "(c, l) \<le> (y, m) \<longleftrightarrow> month_index a k - n \<le> month_index y m"
    using month_index_le_iff [OF b(1,2) assms(3,4), of c y] b(3) by simp
  moreover have "partition_month (partition_name y m) = Some (y, m)"
    using assms by (intro partition_month_name) auto
  ultimately show ?thesis unfolding expired_name_def o by (simp add: not_le)
qed

text \<open>A row of the default partition in one of the months to create undoes the whole job.\<close>

lemma create_ahead_blocked:
  assumes "1 \<le> m" "m \<le> 12" "1 \<le> y" "y + int n \<le> 9998" "e \<in> set (as_rows st)" "valid_date (ev_date e)"
    and "month_index y m \<le> date_index (ev_date e)" "date_index (ev_date e) < month_index y m + int n"
    and "\<not> (\<exists>p\<in>set (as_parts st). pt_name p = partition_name (date_year (ev_date e)) (date_month (ev_date e)))"
  shows "create_ahead n y m st = None"
  using assms
proof (induction n arbitrary: y m st)
  case (Suc n)
  obtain y1 m1 where a: "add_month y m = (y1, m1)" by fastforce
  note b = add_month_index [OF Suc.prems(1,2) a]
  let ?d = "ev_date e"
  show ?case
  proof (cases "create_partition (partition_name y m) (Date y m 1) (Date y1 m1 1) st")
    case None
    then show ?thesis using a by simp
  next
    case (Some st1)
    have ne: "date_index ?d \<noteq> month_index y m"
    proof
      assume i: "date_index ?d = month_index y m"
      have dm: "1 \<le> date_month ?d" "date_month ?d \<le> 12" using Suc.prems(6) by (simp_all add: valid_date_def)
      have ym: "date_year ?d = y" "date_month ?d = m"
        using month_index_inj [OF dm Suc.prems(1,2)] i by (simp_all add: date_index_def)
      have "covers (month_part y m) ?d" using covers_month [OF Suc.prems(6,1,2)] i by simp
      then have "Date y m 1 \<le> ?d" "?d < Date y1 m1 1" by (simp_all add: covers_def month_part_to [OF a])
      moreover have "partition_name y m \<noteq> default_partition"
        using partition_month_name [of y m] Suc.prems(1-4) by auto
      moreover have "partition_name y m \<notin> pt_name ` set (as_parts st)" using Suc.prems(9) ym by auto
      ultimately show False using Some Suc.prems(5) by (auto simp: create_partition_def list_ex_iff split: if_splits)
    qed
    have "as_rows st1 = as_rows st" "pt_name ` set (as_parts st1) \<subseteq> insert (partition_name y m) (pt_name ` set (as_parts st))"
      using Some by (auto simp: create_partition_def split: if_splits)
    moreover have "partition_name (date_year ?d) (date_month ?d) \<noteq> partition_name y m"
    proof
      assume "partition_name (date_year ?d) (date_month ?d) = partition_name y m"
      then have "date_year ?d = y \<and> date_month ?d = m"
        using Suc.prems(1-4,6) by (intro partition_name_inj) (auto simp: valid_date_def)
      then show False using ne by (simp add: date_index_def)
    qed
    ultimately have "create_ahead n y1 m1 st1 = None"
      using Suc.prems b ne by (intro Suc.IH) auto
    then show ?thesis using a Some by simp
  qed
qed simp

lemma delete_batch_rows:
  fixes rows :: "outbox_row list"
  assumes "distinct (map ob_id rows)"
  defines "hits cutoff \<equiv> take purge_batch_size (filter (sent_before cutoff) rows)"
  shows "delete_batch cutoff rows = (length (hits cutoff), filter (\<lambda>r. r \<notin> set (hits cutoff)) rows)"
    "mset rows = mset (hits cutoff) + mset (filter (\<lambda>r. r \<notin> set (hits cutoff)) rows)"
proof -
  let ?hits = "hits cutoff"
  have sub: "set ?hits \<subseteq> set rows" by (auto simp: hits_def dest: in_set_takeD)
  have d: "distinct rows" "distinct ?hits" using assms(1) by (simp_all add: distinct_map hits_def)
  have "mset (filter (\<lambda>r. r \<in> set ?hits) rows) = mset ?hits"
    using d sub by (subst set_eq_iff_mset_eq_distinct [symmetric]) auto
  then have len: "length (filter (\<lambda>r. r \<in> set ?hits) rows) = length ?hits" by (rule mset_eq_length)
  have "ob_id r \<in> set (map ob_id ?hits) \<longleftrightarrow> r \<in> set ?hits" if "r \<in> set rows" for r
    using sub that assms(1) by (auto simp: distinct_map inj_on_def)
  then have "filter (\<lambda>r. ob_id r \<in> set (map ob_id ?hits)) rows = filter (\<lambda>r. r \<in> set ?hits) rows"
    "filter (\<lambda>r. ob_id r \<notin> set (map ob_id ?hits)) rows = filter (\<lambda>r. r \<notin> set ?hits) rows"
    by (auto intro!: filter_cong)
  then show "delete_batch cutoff rows = (length ?hits, filter (\<lambda>r. r \<notin> set ?hits) rows)"
    using len by (simp add: delete_batch_def hits_def [symmetric] Let_def)
  show "mset rows = mset ?hits + mset (filter (\<lambda>r. r \<notin> set ?hits) rows)"
  proof -
    have "mset xs = mset (filter P xs) + mset (filter (\<lambda>r. \<not> P r) xs)" for P and xs :: "outbox_row list"
      by (induction xs) auto
    from this [of rows "\<lambda>r. r \<in> set ?hits"] show ?thesis
      unfolding \<open>mset (filter (\<lambda>r. r \<in> set ?hits) rows) = mset ?hits\<close> .
  qed
qed

lemma purge_loop_rows:
  assumes "mono now" "distinct (map ob_id rows)"
  shows "\<exists>j. k \<le> j \<and> purge_loop now k n rows =
    (n + length (filter (sent_before (now j - purge_after)) rows),
     filter (\<lambda>r. \<not> sent_before (now j - purge_after) r) rows)"
  using assms
proof (induction now k n rows rule: purge_loop.induct)
  case (1 now k n rows)
  let ?old = "\<lambda>j. sent_before (now j - purge_after)"
  define hits where "hits = take purge_batch_size (filter (?old k) rows)"
  define rest where "rest = filter (\<lambda>r. r \<notin> set hits) rows"
  have b: "delete_batch (now k - purge_after) rows = (length hits, rest)" "mset rows = mset hits + mset rest"
    using delete_batch_rows [OF "1.prems"(2), of "now k - purge_after"] by (simp_all add: hits_def rest_def)
  show ?case
  proof (cases "length hits < purge_batch_size")
    case True
    then have "hits = filter (?old k) rows" by (auto simp: hits_def)
    moreover from this have "rest = filter (\<lambda>r. \<not> ?old k r) rows" by (auto simp: rest_def intro!: filter_cong)
    ultimately show ?thesis
      using True b(1) by (intro exI [of _ k]) (simp add: purge_loop.simps [of now k])
  next
    case False
    have "distinct (map ob_id rest)"
      using "1.prems"(2) by (auto simp: rest_def distinct_map inj_on_def)
    from "1.IH" [OF refl b(1) [symmetric] False "1.prems"(1) this] obtain j where
      j: "Suc k \<le> j" "purge_loop now (Suc k) (n + length hits) rest =
        (n + length hits + length (filter (?old j) rest), filter (\<lambda>r. \<not> ?old j r) rest)" by auto
    have "now k \<le> now j" using "1.prems"(1) j(1) by (simp add: mono_def)
    then have old: "?old j r" if "r \<in> set hits" for r
      using that by (auto simp: hits_def sent_before_def dest!: in_set_takeD)
    then have "filter (\<lambda>r. \<not> ?old j r) rest = filter (\<lambda>r. \<not> ?old j r) rows"
      by (auto simp: rest_def intro!: filter_cong)
    moreover have "mset (filter (?old j) rows) = mset hits + mset (filter (?old j) rest)"
    proof -
      have "filter (?old j) hits = hits" using old by (simp add: filter_id_conv)
      then show ?thesis using arg_cong [OF b(2), of "filter_mset (?old j)"] by (metis filter_union_mset mset_filter)
    qed
    then have "length (filter (?old j) rows) = length hits + length (filter (?old j) rest)"
      by (metis size_mset size_union)
    ultimately show ?thesis
      using False b(1) j by (intro exI [of _ j]) (simp add: purge_loop.simps [of now k])
  qed
qed

section \<open>Properties\<close>

text \<open>C15 The partition job keeps the audit log writable and its last year complete: afterwards every day of
  this month and the next three has a partition, the partitions that remain start at most twelve months
  ago, and the events that are gone are exactly those of older partitions.\<close>

theorem partitions_cover_and_retain:
  assumes st: "monthly_store st" and today: "valid_date today" "date_year today \<le> 9990"
    and rows: "\<forall>e\<in>set (as_rows st). date_index today \<le> date_index (ev_date e) \<longrightarrow>
      (\<exists>p\<in>set (as_parts st). covers p (ev_date e))"
  shows "\<exists>created dropped st'. manage_audit_partitions today st = Some (created, dropped, st') \<and> monthly_store st' \<and>
    (\<forall>d. valid_date d \<and> date_index today \<le> date_index d \<and> date_index d \<le> date_index today + 3 \<longrightarrow>
       (\<exists>p\<in>set (as_parts st'). covers p d)) \<and>
    (\<forall>p\<in>set (as_parts st'). \<forall>d. valid_date d \<and> covers p d \<longrightarrow> date_index today - 12 \<le> date_index d) \<and>
    as_rows st' = filter (\<lambda>e. date_index today - 12 \<le> date_index (ev_date e) \<or>
      \<not> (\<exists>p\<in>set (as_parts st). covers p (ev_date e))) (as_rows st)"
proof -
  let ?y = "date_year today" and ?m = "date_month today"
  have ym: "1 \<le> ?y" "?y + int (ahead_months + 1) \<le> 9998" "1 \<le> ?m" "?m \<le> 12" "month_index ?y ?m = date_index today"
    using today by (simp_all add: valid_date_def ahead_months_def date_index_def)
  have "\<And>e. e \<in> set (as_rows st) \<Longrightarrow> month_index ?y ?m \<le> date_index (ev_date e) \<Longrightarrow>
      date_index (ev_date e) < month_index ?y ?m + int (ahead_months + 1) \<Longrightarrow>
      \<exists>p\<in>set (as_parts st). covers p (ev_date e)"
    using rows ym(5) by simp
  note ahead = create_ahead_all [OF st ym(1-4) this]
  obtain names st1 where c: "create_ahead (ahead_months + 1) ?y ?m st = Some (names, st1)" "monthly_store st1"
      "as_rows st1 = as_rows st" "set (as_parts st) \<subseteq> set (as_parts st1)" and
    all: "\<And>a k. 1 \<le> k \<Longrightarrow> k \<le> 12 \<Longrightarrow> date_index today \<le> month_index a k \<Longrightarrow>
       month_index a k < date_index today + int (ahead_months + 1) \<Longrightarrow> month_part a k \<in> set (as_parts st1)" and
    new: "\<And>p. p \<in> set (as_parts st1) - set (as_parts st) \<Longrightarrow> \<exists>a k. 1 \<le> k \<and> k \<le> 12 \<and> p = month_part a k \<and>
       date_index today \<le> month_index a k"
    using ahead unfolding ym(5) by blast
  define oldest where "oldest = sub_months ?y ?m retention_months"
  define parts where "parts = filter (\<lambda>p. \<not> expired_name oldest (pt_name p)) (as_parts st1)"
  define kept where "kept = filter (\<lambda>e. \<not> (\<exists>p\<in>set (as_parts st1). expired_name oldest (pt_name p) \<and>
      covers p (ev_date e))) (as_rows st1)"
  let ?st = "\<lparr>as_parts = parts, as_rows = kept\<rparr>"
  have m: "\<exists>dropped. manage_audit_partitions today st = Some (names, dropped, ?st)"
  proof -
    have "pt_name p \<in> set (default_partition # map pt_name (as_parts st1)) \<and> expired_name oldest (pt_name p) \<longleftrightarrow>
        expired_name oldest (pt_name p)" if "p \<in> set (as_parts st1)" for p
      using that by auto
    then show ?thesis
      unfolding manage_audit_partitions_def c(1) option.case prod.case Let_def drop_old_def drop_old_step
        oldest_def [symmetric] parts_def kept_def
      by (auto intro!: filter_cong)
  qed
  have part: "\<exists>y m. 1 \<le> m \<and> m \<le> 12 \<and> p = month_part y m \<and>
      (expired_name oldest (pt_name p) \<longleftrightarrow> month_index y m < date_index today - 12)" if "p \<in> set (as_parts st1)" for p
  proof -
    have "\<exists>y m. 1 \<le> y \<and> y \<le> 9998 \<and> 1 \<le> m \<and> m \<le> 12 \<and> p = month_part y m"
      using c(2) that by (simp add: monthly_store_def)
    then obtain y m where "1 \<le> y" "y \<le> 9998" "1 \<le> m" "m \<le> 12" "p = month_part y m" by blast
    then show ?thesis
      using expired_month [of y m ?y ?m retention_months oldest] ym(5)
      by (intro exI [of _ y] exI [of _ m]) (simp add: oldest_def retention_months_def)
  qed
  have valid: "valid_date (ev_date e)" if "e \<in> set (as_rows st)" for e
    using st that by (simp add: monthly_store_def)
  have live: "monthly_store ?st"
    using c(2) by (auto simp: monthly_store_def parts_def kept_def distinct_map inj_on_def)
  have ahead_covered: "\<exists>p\<in>set parts. covers p d"
    if d: "valid_date d" "date_index today \<le> date_index d" "date_index d \<le> date_index today + 3" for d
  proof -
    have dm: "1 \<le> date_month d" "date_month d \<le> 12" using d(1) by (simp_all add: valid_date_def)
    let ?p = "month_part (date_year d) (date_month d)"
    have p: "?p \<in> set (as_parts st1)" using all [OF dm] d by (simp add: date_index_def ahead_months_def)
    have cov: "covers ?p d" using covers_month [OF d(1) dm, of "date_year d"] by (simp add: date_index_def)
    obtain y m where y: "1 \<le> m" "m \<le> 12" "?p = month_part y m"
      "expired_name oldest (pt_name ?p) \<longleftrightarrow> month_index y m < date_index today - 12" using part [OF p] by blast
    have "date_index d = month_index y m" using cov covers_month [OF d(1) y(1,2)] unfolding y(3) by blast
    then have "?p \<in> set parts" using p y(4) d(2) unfolding parts_def set_filter by simp
    then show ?thesis using cov by blast
  qed
  have recent: "date_index today - 12 \<le> date_index d" if "p \<in> set parts" "valid_date d" "covers p d" for p d
    using part [of p] that covers_month [OF that(2)] by (auto simp: parts_def)
  have "(\<exists>p\<in>set (as_parts st1). expired_name oldest (pt_name p) \<and> covers p (ev_date e)) \<longleftrightarrow>
      date_index (ev_date e) < date_index today - 12 \<and> (\<exists>p\<in>set (as_parts st). covers p (ev_date e))"
    if e: "e \<in> set (as_rows st)" for e
  proof -
    have x: "expired_name oldest (pt_name p) \<longleftrightarrow> date_index (ev_date e) < date_index today - 12"
      if "p \<in> set (as_parts st1)" "covers p (ev_date e)" for p
      using part [OF that(1)] that(2) covers_month [OF valid [OF e]] by auto
    moreover have "p \<in> set (as_parts st)"
      if h: "p \<in> set (as_parts st1)" "covers p (ev_date e)" "date_index (ev_date e) < date_index today - 12" for p
    proof (rule ccontr)
      assume "p \<notin> set (as_parts st)"
      then obtain a k where "1 \<le> k" "k \<le> 12" "p = month_part a k" "date_index today \<le> month_index a k"
        using new [of p] h(1) by blast
      then show False using covers_month [OF valid [OF e]] h(2,3) by auto
    qed
    ultimately show ?thesis using c(4) by blast
  qed
  then have "kept = filter (\<lambda>e. date_index today - 12 \<le> date_index (ev_date e) \<or>
      \<not> (\<exists>p\<in>set (as_parts st). covers p (ev_date e))) (as_rows st)"
    unfolding kept_def c(3) by (intro filter_cong) (auto simp: not_less)
  moreover obtain dropped where "manage_audit_partitions today st = Some (names, dropped, ?st)" using m by blast
  ultimately show ?thesis using live ahead_covered recent
    by (intro exI [of _ names] exI [of _ dropped] exI [of _ ?st]) auto
qed

definition old_event :: "int \<Rightarrow> audit_event" where
  "old_event y = \<lparr>ev_type = USER_REGISTERED, ev_user = None, ev_at = (Date y 1 5, 0), ev_ip = None, ev_user_agent = None\<rparr>"

definition audit_example :: audit_store where
  "audit_example = \<lparr>as_parts = [month_part 2023 1, month_part 2025 1], as_rows = [old_event 2023, old_event 2025]\<rparr>"

lemma partitions_cover_and_retain_witness:
  "\<exists>created dropped st'. manage_audit_partitions (Date 2025 1 20) audit_example = Some (created, dropped, st') \<and>
    as_rows st' = [old_event 2025]"
proof -
  have st: "monthly_store audit_example"
  proof -
    have "partition_name 2023 1 \<noteq> partition_name 2025 1" by code_simp
    moreover have "\<exists>y m. 1 \<le> y \<and> y \<le> 9998 \<and> 1 \<le> m \<and> m \<le> 12 \<and> month_part 2023 1 = month_part y m"
      by (rule exI [of _ 2023], rule exI [of _ 1]) simp
    moreover have "\<exists>y m. 1 \<le> y \<and> y \<le> 9998 \<and> 1 \<le> m \<and> m \<le> 12 \<and> month_part 2025 1 = month_part y m"
      by (rule exI [of _ 2025], rule exI [of _ 1]) simp
    ultimately show ?thesis
      by (simp add: monthly_store_def audit_example_def ev_date_def old_event_def days_in_month_def)
  qed
  have t: "valid_date (Date 2025 1 20)" "date_year (Date 2025 1 20) \<le> 9990" by (simp_all add: days_in_month_def)
  have c: "covers (month_part y 1) (Date z 1 5) \<longleftrightarrow> z = y" for y z
    by (auto simp: covers_def month_part_def add_month_def)
  have r: "\<forall>e\<in>set (as_rows audit_example). date_index (Date 2025 1 20) \<le> date_index (ev_date e) \<longrightarrow>
      (\<exists>p\<in>set (as_parts audit_example). covers p (ev_date e))"
    by (simp add: audit_example_def ev_date_def old_event_def c)
  show ?thesis
    using partitions_cover_and_retain [OF st t r]
    by (auto simp: audit_example_def ev_date_def old_event_def c date_index_def month_index_def)
qed

text \<open>Once an event of this month or the next three is in the default partition, because its month had no
  partition when it happened, the job fails, and it creates and drops nothing, as long as that month has
  not passed.\<close>

theorem stray_event_blocks_the_job:
  assumes "valid_date today" "date_year today \<le> 9990" "e \<in> set (as_rows st)" "valid_date (ev_date e)"
    and "date_index today \<le> date_index (ev_date e)" "date_index (ev_date e) \<le> date_index today + 3"
    and "\<not> (\<exists>p\<in>set (as_parts st). pt_name p = partition_name (date_year (ev_date e)) (date_month (ev_date e)))"
  shows "manage_audit_partitions today st = None"
proof -
  have "create_ahead (ahead_months + 1) (date_year today) (date_month today) st = None"
    using assms by (intro create_ahead_blocked [OF _ _ _ _ assms(3,4)])
      (auto simp: valid_date_def ahead_months_def date_index_def)
  then show ?thesis by (simp add: manage_audit_partitions_def)
qed


definition sent_row :: "outbox_id \<Rightarrow> timestamp \<Rightarrow> outbox_row" where
  "sent_row i t = \<lparr>ob_id = i, ob_event_type = ''InsightRequested'', ob_aggregate_id = [], ob_payload = [],
     ob_status = OS_SENT, ob_occurred_at = t, ob_created_at = t, ob_user = None, ob_retry_count = 0,
     ob_last_error = None, ob_failed_at = None\<rparr>"


end
