(* ===== verification/RateLimit.thy ===== *)
theory RateLimit
  imports PyNet
begin

text \<open>The rate limiter in front of the API (\<^verbatim>\<open>inbound/http/middleware/rate_limit.py\<close> and
  \<^verbatim>\<open>rate_limit_policy.py\<close>): the table of policies, the key a request is counted under (session
  cookie or client address), the GCRA script Redis runs atomically, and the ASGI middleware
  around them. Redis is a map from keys to a value with the time its \<open>PX\<close> expiry ends; the hash
  function and the wrapped application are parameters. The lemmas bound what the script admits
  under one key, say when a rejected caller gets in, and say which callers share a key.\<close>

section \<open>Policies\<close>

datatype limit_scope = LS_user | LS_ip

record policy =
  rate_per_minute :: nat
  pol_burst :: nat
  pol_scope :: limit_scope

definition POLICIES :: "(string \<times> string \<times> policy) list" where
  "POLICIES =
    [('''', ''/api/v1/auth/login'', \<lparr>rate_per_minute = 5, pol_burst = 2, pol_scope = LS_ip\<rparr>),
     ('''', ''/api/v1/auth/register'', \<lparr>rate_per_minute = 3, pol_burst = 1, pol_scope = LS_ip\<rparr>),
     ('''', ''/api/v1/auth/password-reset/'', \<lparr>rate_per_minute = 3, pol_burst = 1, pol_scope = LS_ip\<rparr>),
     (''POST'', ''/api/v1/chat/stream'', \<lparr>rate_per_minute = 20, pol_burst = 5, pol_scope = LS_user\<rparr>),
     (''POST'', ''/api/v1/chat'', \<lparr>rate_per_minute = 20, pol_burst = 5, pol_scope = LS_user\<rparr>),
     ('''', ''/api/v1/insights/requests'', \<lparr>rate_per_minute = 10, pol_burst = 3, pol_scope = LS_user\<rparr>),
     (''POST'', ''/api/v1/ingestion/parse-receipt'',
        \<lparr>rate_per_minute = 10, pol_burst = 2, pol_scope = LS_user\<rparr>)]"

definition DEFAULT_POLICY :: policy where
  "DEFAULT_POLICY = \<lparr>rate_per_minute = 120, pol_burst = 30, pol_scope = LS_user\<rparr>"

definition SKIP_PATHS :: "string list" where
  "SKIP_PATHS = [''/health'', ''/ready'', ''/metrics'', ''/docs'', ''/redoc'', ''/openapi.json'']"

definition resolve_policy :: "string \<Rightarrow> string \<Rightarrow> policy" where
  "resolve_policy path meth =
     (case find (\<lambda>(m, prefix, _). starts_with prefix path \<and> (m = [] \<or> m = upper meth)) POLICIES of
        Some (_, _, p) \<Rightarrow> p | None \<Rightarrow> DEFAULT_POLICY)"

definition policy_marker :: "policy \<Rightarrow> string" where
  "policy_marker p = nat_str (rate_per_minute p) @ ''_'' @ nat_str (pol_burst p)"

definition emission_interval_ms :: "policy \<Rightarrow> int" where
  "emission_interval_ms p = 60000 div max (int (rate_per_minute p)) 1"

definition burst_capacity_ms :: "policy \<Rightarrow> int" where
  "burst_capacity_ms p = int (pol_burst p) * emission_interval_ms p"

section \<open>The caller\<close>

record http_scope =
  sc_type :: string
  sc_path :: string
  sc_method :: string
  sc_headers :: "(string \<times> string) list"
  sc_client :: "string option"
  sc_request_id :: "string option"

fun cookie_in :: "string \<Rightarrow> string list \<Rightarrow> string option" where
  "cookie_in cname [] = None"
| "cookie_in cname (pair # pairs) =
     (if CHR ''='' \<notin> set pair then cookie_in cname pairs
      else let (k, v) = split_once (CHR ''='') pair in
        if strip k = cname then Some (strip v) else cookie_in cname pairs)"

fun read_cookie :: "(string \<times> string) list \<Rightarrow> string \<Rightarrow> string option" where
  "read_cookie [] cname = None"
| "read_cookie ((h, v) # hs) cname =
     (if h \<noteq> ''cookie'' then read_cookie hs cname
      else case cookie_in cname (split_on (CHR '';'') v) of
          Some c \<Rightarrow> Some c | None \<Rightarrow> read_cookie hs cname)"

definition is_trusted :: "string \<Rightarrow> ip_net list \<Rightarrow> bool" where
  "is_trusted s trusted = (case ip_address s of None \<Rightarrow> False
     | Some ip \<Rightarrow> list_ex (in_net ip) trusted)"

definition hops :: "string \<Rightarrow> string list" where
  "hops xff = filter (\<lambda>p. p \<noteq> []) (map strip (split_on (CHR '','') xff))"

definition client_ip :: "http_scope \<Rightarrow> ip_net list \<Rightarrow> string option" where
  "client_ip sc trusted =
     (case sc_client sc of None \<Rightarrow> None
      | Some peer \<Rightarrow>
          if peer = [] then None
          else if trusted = [] then Some peer
          else if \<not> is_trusted peer trusted then Some peer
          else case map_of (sc_headers sc) ''x-forwarded-for'' of
              None \<Rightarrow> Some peer
            | Some xff \<Rightarrow>
                if hops xff = [] then Some peer
                else case find (\<lambda>h. \<not> is_trusted h trusted) (rev (hops xff)) of
                    Some h \<Rightarrow> Some h
                  | None \<Rightarrow> Some (hd (hops xff)))"

text \<open>\<open>sha256_hex\<close> is the hexadecimal SHA-256 digest of a string.\<close>

definition key_for ::
  "(string \<Rightarrow> string) \<Rightarrow> http_scope \<Rightarrow> policy \<Rightarrow> ip_net list \<Rightarrow> string \<Rightarrow> string option" where
  "key_for sha256_hex sc p trusted cname =
     (let by_ip = (case client_ip sc trusted of
            None \<Rightarrow> None
          | Some ip \<Rightarrow> if ip = [] then None else Some (''rl:ip:'' @ ip @ '':'' @ policy_marker p)) in
      if pol_scope p = LS_user then
        (case read_cookie (sc_headers sc) cname of
           None \<Rightarrow> by_ip
         | Some c \<Rightarrow> if c = [] then by_ip
                    else Some (''rl:u:'' @ take 32 (sha256_hex c) @ '':'' @ policy_marker p))
      else by_ip)"

definition parse_trusted_proxies :: "string \<Rightarrow> ip_net list option" where
  "parse_trusted_proxies raw =
     those (map ip_network (filter (\<lambda>t. t \<noteq> []) (map strip (split_on (CHR '','') raw))))"

section \<open>The script\<close>

text \<open>A stored TAT and the time at which Redis drops it.\<close>

type_synonym tat_store = "string \<Rightarrow> (int \<times> int) option"

definition live_tat :: "tat_store \<Rightarrow> int \<Rightarrow> string \<Rightarrow> int option" where
  "live_tat st now k = (case st k of None \<Rightarrow> None | Some (tat, e) \<Rightarrow> if now < e then Some tat else None)"

definition gcra ::
  "tat_store \<Rightarrow> string \<Rightarrow> int \<Rightarrow> int \<Rightarrow> int \<Rightarrow> tat_store \<times> (bool \<times> int \<times> int \<times> int)" where
  "gcra st k now interval burst =
     (let tat0 = (case live_tat st now k of None \<Rightarrow> now | Some t \<Rightarrow> t);
          tat = (if tat0 < now then now else tat0);
          new_tat = tat + interval;
          allow_at = new_tat - burst in
      if allow_at \<le> now then
        (let r = (burst - (new_tat - now)) div interval in
         (st(k \<mapsto> (new_tat, now + (burst + interval))),
          (True, (if r < 0 then 0 else r), new_tat - now, 0)))
      else (st, (False, 0, tat - now, allow_at - now)))"

section \<open>The middleware\<close>

datatype asgi_message =
    ResponseStart nat "(string \<times> string) list"
  | ResponseBody string bool
  | OtherMessage string

definition error_body :: "string \<Rightarrow> string option \<Rightarrow> string" where
  "error_body message request_id =
     ''{'' @ json_str ''error'' @ '': {'' @ json_str ''code'' @ '': '' @ json_str ''rate_limit.exceeded'' @
     '', '' @ json_str ''message'' @ '': '' @ json_str message @
     '', '' @ json_str ''request_id'' @ '': '' @
     (case request_id of None \<Rightarrow> ''null'' | Some r \<Rightarrow> json_str r) @ ''}}''"

text \<open>\<open>max(1, math.ceil(ms / 1000))\<close>.\<close>

definition whole_seconds :: "int \<Rightarrow> int" where
  "whole_seconds ms = max 1 (- ((- ms) div 1000))"

definition send_429 :: "string option \<Rightarrow> policy \<Rightarrow> int \<Rightarrow> int \<Rightarrow> asgi_message list" where
  "send_429 request_id p retry_after_ms reset_ms =
     (let body = error_body ''Rate limit exceeded'' request_id in
      [ResponseStart 429
         [(''content-type'', ''application/json''),
          (''content-length'', nat_str (length body)),
          (''retry-after'', int_str (whole_seconds retry_after_ms)),
          (''x-ratelimit-limit'', nat_str (rate_per_minute p)),
          (''x-ratelimit-remaining'', ''0''),
          (''x-ratelimit-reset'', int_str (whole_seconds reset_ms))],
       ResponseBody body False])"

text \<open>\<open>set_header\<close> is Starlette's \<open>MutableHeaders\<close> assignment.\<close>

fun send_wrapper ::
  "((string \<times> string) list \<Rightarrow> string \<Rightarrow> string \<Rightarrow> (string \<times> string) list) \<Rightarrow> string \<Rightarrow> string \<Rightarrow> string
     \<Rightarrow> asgi_message \<Rightarrow> asgi_message" where
  "send_wrapper set_header limit_str remaining_str reset_str (ResponseStart code headers) =
     ResponseStart code
       (set_header (set_header (set_header headers ''X-RateLimit-Limit'' limit_str)
          ''X-RateLimit-Remaining'' remaining_str) ''X-RateLimit-Reset'' reset_str)"
| "send_wrapper set_header limit_str remaining_str reset_str m = m"

text \<open>What the middleware does with a request: hand it to the application with the caller's own
  \<open>send\<close>, hand it on with \<open>send_wrapper\<close> and its three values, or answer it.\<close>

datatype outcome =
    PassThrough
  | is_Limited: Limited (limit_str: string) (remaining_str: string) (reset_str: string)
  | Answered "asgi_message list"

record limiter =
  lm_store :: tat_store
  lm_redis_errors :: nat

record limiter_config =
  lc_trusted :: "ip_net list"
  lc_cookie :: string

definition rate_limit_call ::
  "(string \<Rightarrow> string) \<Rightarrow> limiter_config \<Rightarrow> bool \<Rightarrow> int \<Rightarrow> http_scope \<Rightarrow> limiter \<Rightarrow> limiter \<times> outcome" where
  "rate_limit_call sha256_hex cfg redis_up now_ms sc lm =
     (if sc_type sc \<noteq> ''http'' \<or> sc_path sc \<in> set SKIP_PATHS then (lm, PassThrough)
      else let p = resolve_policy (sc_path sc) (sc_method sc) in
        case key_for sha256_hex sc p (lc_trusted cfg) (lc_cookie cfg) of
          None \<Rightarrow> (lm, Answered (send_429 (sc_request_id sc) p 60000 60000))
        | Some k \<Rightarrow>
            if \<not> redis_up then (lm\<lparr>lm_redis_errors := lm_redis_errors lm + 1\<rparr>, PassThrough)
            else let (st, (allowed, remaining, reset_ms, retry_after_ms)) =
                   gcra (lm_store lm) k now_ms (emission_interval_ms p) (burst_capacity_ms p) in
              if \<not> allowed then
                (lm\<lparr>lm_store := st\<rparr>, Answered (send_429 (sc_request_id sc) p retry_after_ms reset_ms))
              else (lm\<lparr>lm_store := st\<rparr>,
                    Limited (nat_str (rate_per_minute p)) (int_str remaining)
                      (int_str (whole_seconds reset_ms))))"

section \<open>Runs\<close>

text \<open>A run of the middleware over requests, each with the time it is served at and whether Redis
  answers.\<close>

type_synonym arrival = "bool \<times> int \<times> http_scope"

fun serve :: "(string \<Rightarrow> string) \<Rightarrow> limiter_config \<Rightarrow> arrival list \<Rightarrow> limiter \<Rightarrow> limiter \<times> outcome list" where
  "serve h cfg [] lm = (lm, [])"
| "serve h cfg ((up, now, sc) # rs) lm =
     (let (lm1, out) = rate_limit_call h cfg up now sc lm; (lm2, outs) = serve h cfg rs lm1 in
      (lm2, out # outs))"

definition empty_limiter :: limiter where
  "empty_limiter = \<lparr>lm_store = Map.empty, lm_redis_errors = 0\<rparr>"

definition request_policy :: "http_scope \<Rightarrow> policy" where
  "request_policy sc = resolve_policy (sc_path sc) (sc_method sc)"

definition request_key :: "(string \<Rightarrow> string) \<Rightarrow> limiter_config \<Rightarrow> http_scope \<Rightarrow> string option" where
  "request_key h cfg sc = key_for h sc (request_policy sc) (lc_trusted cfg) (lc_cookie cfg)"

text \<open>The requests of a run let through by the script under a key.\<close>

definition admitted ::
  "(string \<Rightarrow> string) \<Rightarrow> limiter_config \<Rightarrow> string \<Rightarrow> arrival list \<Rightarrow> limiter \<Rightarrow> nat" where
  "admitted h cfg k rs lm =
     length (filter (\<lambda>((_, _, sc), out). is_Limited out \<and> request_key h cfg sc = Some k)
       (zip rs (snd (serve h cfg rs lm))))"

section \<open>The policies in use\<close>

lemma resolve_policy_cases:
  "resolve_policy path meth \<in> insert DEFAULT_POLICY ((\<lambda>(_, _, p). p) ` set POLICIES)"
proof (cases "find (\<lambda>(m, prefix, _). starts_with prefix path \<and> (m = [] \<or> m = upper meth)) POLICIES")
  case (Some entry)
  obtain i where "i < length POLICIES" "entry = POLICIES ! i"
    using find_Some_iff [THEN iffD1, OF Some] by blast
  then have "entry \<in> set POLICIES" by simp
  then have "(\<lambda>(_, _, p). p) entry \<in> (\<lambda>(_, _, p). p) ` set POLICIES" by (rule imageI)
  moreover have "resolve_policy path meth = (\<lambda>(_, _, p). p) entry"
    unfolding resolve_policy_def Some by (cases entry) simp
  ultimately show ?thesis by simp
qed (simp add: resolve_policy_def)

lemma request_policy_interval:
  "0 < emission_interval_ms (request_policy sc)"
  "emission_interval_ms (request_policy sc) \<le> burst_capacity_ms (request_policy sc)"
  using resolve_policy_cases [of "sc_path sc" "sc_method sc"]
  by (auto simp: request_policy_def POLICIES_def DEFAULT_POLICY_def emission_interval_ms_def
      burst_capacity_ms_def)

lemma burst_capacity_nonneg [simp]: "0 \<le> burst_capacity_ms p"
  by (simp add: burst_capacity_ms_def emission_interval_ms_def pos_imp_zdiv_nonneg_iff)

text \<open>The marker of a policy is what follows the last colon of a key, so a key determines the rate
  and the burst it is counted with.\<close>

definition after_colon :: "string \<Rightarrow> string" where
  "after_colon s = rev (takeWhile (\<lambda>c. c \<noteq> CHR '':'') (rev s))"

lemma digits_plain:
  assumes "c \<in> set (nat_str n)"
  shows "c \<noteq> CHR '':''" "c \<noteq> CHR ''_''"
  using nat_str_digits [OF assms] by (auto simp: is_digit_def)

lemma marker_no_colon: "CHR '':'' \<notin> set (policy_marker p)"
  using digits_plain by (fastforce simp: policy_marker_def)

lemma after_colon_marker [simp]: "after_colon (x @ CHR '':'' # policy_marker p) = policy_marker p"
  using marker_no_colon [of p] by (simp add: after_colon_def takeWhile_append)

lemma after_colon_Cons: "CHR '':'' \<in> set s \<Longrightarrow> after_colon (c # s) = after_colon s"
  by (simp add: after_colon_def takeWhile_append1)

lemma nat_str_inj: "nat_str m = nat_str n \<longleftrightarrow> m = n"
  by (metis digits_val_nat_str)

lemma policy_marker_inj:
  assumes "policy_marker p = policy_marker q"
  shows "rate_per_minute p = rate_per_minute q \<and> pol_burst p = pol_burst q"
proof -
  have "takeWhile (\<lambda>c. c \<noteq> CHR ''_'') (policy_marker r) = nat_str (rate_per_minute r)"
    "dropWhile (\<lambda>c. c \<noteq> CHR ''_'') (policy_marker r) = CHR ''_'' # nat_str (pol_burst r)" for r
    using digits_plain(2) by (simp_all add: policy_marker_def takeWhile_append2 dropWhile_append2)
  then show ?thesis using assms nat_str_inj by (metis list.inject)
qed

lemma key_ends_with_marker: "key_for h sc p trusted cname = Some k \<Longrightarrow> after_colon k = policy_marker p"
  by (auto simp: key_for_def Let_def after_colon_Cons split: if_splits option.splits)

section \<open>The script\<close>

text \<open>What a key has used up at a time: the stored TAT, or the time itself when nothing is stored.
  The script sees exactly this, because a key is dropped only after its TAT has passed.\<close>

definition used_up :: "tat_store \<Rightarrow> string \<Rightarrow> int \<Rightarrow> int" where
  "used_up st k now = (case st k of None \<Rightarrow> now | Some (tat, _) \<Rightarrow> max now tat)"

definition outlives_tat :: "tat_store \<Rightarrow> bool" where
  "outlives_tat st \<longleftrightarrow> (\<forall>k tat e. st k = Some (tat, e) \<longrightarrow> tat \<le> e)"

lemma gcra_used_up:
  assumes "outlives_tat st"
  shows "gcra st k now I B =
    (let tat = used_up st k now in
     if tat + I - B \<le> now then
       (st(k \<mapsto> (tat + I, now + (B + I))), (True, max 0 ((B - (tat + I - now)) div I), tat + I - now, 0))
     else (st, (False, 0, tat - now, tat + I - B - now)))"
proof -
  have "(if (case live_tat st now k of None \<Rightarrow> now | Some t \<Rightarrow> t) < now then now
         else (case live_tat st now k of None \<Rightarrow> now | Some t \<Rightarrow> t)) = used_up st k now"
  proof (cases "st k")
    case (Some v)
    obtain tat e where v: "v = (tat, e)" by (cases v)
    then have "tat \<le> e" using assms Some by (simp add: outlives_tat_def)
    then show ?thesis using Some v by (simp add: used_up_def live_tat_def max_def)
  qed (simp add: used_up_def live_tat_def)
  then show ?thesis by (simp add: gcra_def Let_def max_def cong: if_cong)
qed

lemma gcra_outlives:
  assumes "outlives_tat st" "0 \<le> I"
  shows "outlives_tat (fst (gcra st k now I B))"
  using assms by (auto simp: gcra_used_up [OF assms(1)] Let_def outlives_tat_def)

lemma call_outlives:
  assumes "outlives_tat (lm_store lm)"
  shows "outlives_tat (lm_store (fst (rate_limit_call h cfg up now sc lm)))"
  using assms gcra_outlives [OF assms less_imp_le [OF request_policy_interval(1) [of sc]]]
  by (auto simp: rate_limit_call_def request_policy_def Let_def case_prod_beta split: option.splits)

lemma serve_outlives:
  "outlives_tat (lm_store lm) \<Longrightarrow> outlives_tat (lm_store (fst (serve h cfg rs lm)))"
proof (induction h cfg rs lm rule: serve.induct)
  case (2 h cfg up now sc rs lm)
  show ?case
    using "2.IH" [OF refl prod.collapse] call_outlives [OF "2.prems"]
    by (simp add: Let_def case_prod_beta)
qed simp

lemma serve_empty_outlives: "outlives_tat (lm_store (fst (serve h cfg rs empty_limiter)))"
  by (rule serve_outlives) (simp add: outlives_tat_def empty_limiter_def)

text \<open>One call, seen from a key: either it is let through under that key and moves what the key
  has used up by one interval, or the key's entry does not change.\<close>

lemma call_effect:
  assumes "outlives_tat (lm_store lm)" "rate_limit_call h cfg up now sc lm = (lm', out)"
  shows "if is_Limited out \<and> request_key h cfg sc = Some k
    then used_up (lm_store lm) k now + emission_interval_ms (request_policy sc)
           - burst_capacity_ms (request_policy sc) \<le> now
         \<and> (\<exists>e. lm_store lm' k = Some (used_up (lm_store lm) k now
             + emission_interval_ms (request_policy sc), e))
    else lm_store lm' k = lm_store lm k"
  using assms(2)
  by (auto simp: rate_limit_call_def request_key_def request_policy_def Let_def
      gcra_used_up [OF assms(1)] split: option.splits prod.splits if_splits)

section \<open>The bound\<close>

lemma used_up_ge: "now \<le> used_up st k now"
  by (simp add: used_up_def split: option.splits)

lemma used_up_mono: "a \<le> b \<Longrightarrow> used_up st k a \<le> used_up st k b"
  by (auto simp: used_up_def split: option.splits)

lemma used_up_cong: "st k = st' k \<Longrightarrow> used_up st k now = used_up st' k now"
  by (simp add: used_up_def)

lemma admitted_Nil [simp]: "admitted h cfg k [] lm = 0"
  by (simp add: admitted_def)

lemma admitted_Cons:
  assumes "rate_limit_call h cfg up now sc lm = (lm', out)"
  shows "admitted h cfg k ((up, now, sc) # rs) lm =
    (if is_Limited out \<and> request_key h cfg sc = Some k then 1 else 0) + admitted h cfg k rs lm'"
  using assms by (simp add: admitted_def Let_def case_prod_beta)

lemma request_key_policy:
  assumes "request_key h cfg sc = Some k" "request_key h cfg sc' = Some k"
  shows "emission_interval_ms (request_policy sc') = emission_interval_ms (request_policy sc)"
    "burst_capacity_ms (request_policy sc') = burst_capacity_ms (request_policy sc)"
proof -
  have "policy_marker (request_policy sc) = policy_marker (request_policy sc')"
    using assms key_ends_with_marker unfolding request_key_def by metis
  from policy_marker_inj [OF this] show
    "emission_interval_ms (request_policy sc') = emission_interval_ms (request_policy sc)"
    "burst_capacity_ms (request_policy sc') = burst_capacity_ms (request_policy sc)"
    by (simp_all add: emission_interval_ms_def burst_capacity_ms_def)
qed

lemma admitted_uses_up:
  assumes "request_key h cfg sc0 = Some k"
    "outlives_tat (lm_store lm)" "sorted (map (\<lambda>r. fst (snd r)) rs)"
    "\<forall>r\<in>set rs. a \<le> fst (snd r) \<and> fst (snd r) \<le> b"
  shows "admitted h cfg k rs lm = 0 \<or>
    used_up (lm_store lm) k a + int (admitted h cfg k rs lm) * emission_interval_ms (request_policy sc0)
      \<le> b + burst_capacity_ms (request_policy sc0)"
  using assms(2-)
proof (induction rs arbitrary: lm a)
  case (Cons r rs)
  let ?I = "emission_interval_ms (request_policy sc0)" and ?B = "burst_capacity_ms (request_policy sc0)"
  obtain up now sc where r: "r = (up, now, sc)" by (cases r)
  obtain lm' out where c: "rate_limit_call h cfg up now sc lm = (lm', out)" by fastforce
  have b: "a \<le> now" "now \<le> b" using Cons.prems(3) by (auto simp: r)
  have IH: "admitted h cfg k rs lm' = 0 \<or>
      used_up (lm_store lm') k now + int (admitted h cfg k rs lm') * ?I \<le> b + ?B"
    using Cons.IH [of lm' now] call_outlives [OF Cons.prems(1), of h cfg up now sc] Cons.prems(2,3)
    by (auto simp: r c)
  note eff = call_effect [OF Cons.prems(1) c, of k] and cnt = admitted_Cons [OF c, of k rs]
  have mono: "used_up (lm_store lm) k a \<le> used_up (lm_store lm) k now"
    by (rule used_up_mono [OF b(1)])
  show ?case
  proof (cases "is_Limited out \<and> request_key h cfg sc = Some k")
    case True
    then have I: "emission_interval_ms (request_policy sc) = ?I"
      "burst_capacity_ms (request_policy sc) = ?B"
      using request_key_policy [OF assms(1)] by auto
    have let_in: "used_up (lm_store lm) k now + ?I - ?B \<le> now" using eff True by (simp add: I)
    obtain e where "lm_store lm' k = Some (used_up (lm_store lm) k now + ?I, e)"
      using eff True by (auto simp: I)
    then have "used_up (lm_store lm) k now + ?I \<le> used_up (lm_store lm') k now"
      by (simp add: used_up_def)
    then show ?thesis using IH let_in mono b True by (auto simp: r cnt algebra_simps)
  next
    case False
    then have "lm_store lm' k = lm_store lm k" using eff by auto
    then have "used_up (lm_store lm') k now = used_up (lm_store lm) k now" by (rule used_up_cong)
    then show ?thesis using IH mono False by (auto simp: r cnt)
  qed
qed simp

text \<open>C34 The rate limit holds: whatever was served before, the requests the script lets
  through under one key in a window of \<open>w\<close> milliseconds are at most the burst of the policy plus
  one for each full emission interval in the window. Other keys, other policies and Redis outages
  in between do not matter, and neither does the expiry of the key in Redis.\<close>

theorem rate_limit_holds:
  assumes "request_key h cfg sc = Some k"
    and "sorted (map (\<lambda>r. fst (snd r)) rs)" "\<forall>r\<in>set rs. a \<le> fst (snd r) \<and> fst (snd r) \<le> a + w" "0 \<le> w"
  shows "int (admitted h cfg k rs (fst (serve h cfg earlier empty_limiter)))
    \<le> int (pol_burst (request_policy sc)) + w div emission_interval_ms (request_policy sc)"
proof -
  let ?I = "emission_interval_ms (request_policy sc)"
  let ?lm = "fst (serve h cfg earlier empty_limiter)" let ?n = "int (admitted h cfg k rs ?lm)"
  have I: "0 < ?I" by (rule request_policy_interval)
  have "?n = 0 \<or> a + ?n * ?I \<le> (a + w) + burst_capacity_ms (request_policy sc)"
    using admitted_uses_up [OF assms(1) serve_empty_outlives [of h cfg earlier] assms(2,3)]
      used_up_ge [of a "lm_store ?lm" k] by (elim disjE) simp_all
  then have "?n = 0 \<or> (?n - int (pol_burst (request_policy sc))) * ?I \<le> w"
    by (auto simp: burst_capacity_ms_def algebra_simps)
  then have "?n = 0 \<or> ?n - int (pol_burst (request_policy sc)) \<le> w div ?I"
    by (metis zdiv_mono1 [OF _ I] nonzero_mult_div_cancel_right less_irrefl I)
  moreover have "0 \<le> w div ?I" using assms(4) I by (simp add: pos_imp_zdiv_nonneg_iff)
  ultimately show ?thesis by auto
qed

text \<open>A login request from an address, as the witnesses use it.\<close>

definition login_from :: "string \<Rightarrow> http_scope" where
  "login_from ip = \<lparr>sc_type = ''http'', sc_path = ''/api/v1/auth/login'', sc_method = ''POST'',
     sc_headers = [], sc_client = Some ip, sc_request_id = None\<rparr>"

definition no_proxies :: limiter_config where
  "no_proxies = \<lparr>lc_trusted = [], lc_cookie = ''auth''\<rparr>"

lemma login_policy: "request_policy (login_from ip) = \<lparr>rate_per_minute = 5, pol_burst = 2, pol_scope = LS_ip\<rparr>"
  by (simp add: request_policy_def login_from_def resolve_policy_def POLICIES_def starts_with_def)

lemma login_key: "ip \<noteq> [] \<Longrightarrow> request_key h no_proxies (login_from ip) = Some (''rl:ip:'' @ ip @ '':5_2'')"
proof -
  have m: "policy_marker \<lparr>rate_per_minute = 5, pol_burst = 2, pol_scope = LS_ip\<rparr> = ''5_2''"
    by code_simp
  assume "ip \<noteq> []"
  then show ?thesis unfolding request_key_def login_policy
    by (simp add: key_for_def m client_ip_def login_from_def no_proxies_def)
qed

lemma rate_limit_holds_witness:
  "int (admitted id no_proxies (''rl:ip:'' @ ''9.9.9.9'' @ '':5_2'')
      [(True, 5, login_from ''9.9.9.9''), (True, 5, login_from ''9.9.9.9''), (True, 9, login_from ''9.9.9.9'')]
      (fst (serve id no_proxies [] empty_limiter))) \<le> 2 + 10 div 12000"
  using rate_limit_holds [of id no_proxies "login_from ''9.9.9.9''" "''rl:ip:'' @ ''9.9.9.9'' @ '':5_2''"
      "[(True, 5, login_from ''9.9.9.9''), (True, 5, login_from ''9.9.9.9''), (True, 9, login_from ''9.9.9.9'')]"
      0 10 "[]"]
  by (simp add: login_key login_policy emission_interval_ms_def)

section \<open>Rejected callers\<close>

definition http_request :: "http_scope \<Rightarrow> bool" where
  "http_request sc \<longleftrightarrow> sc_type sc = ''http'' \<and> sc_path sc \<notin> set SKIP_PATHS"

lemma call_keyed:
  fixes now :: int
  assumes "http_request sc" "request_key h cfg sc = Some k" "outlives_tat (lm_store lm)"
  defines "tat \<equiv> used_up (lm_store lm) k now"
    and "I \<equiv> emission_interval_ms (request_policy sc)" and "B \<equiv> burst_capacity_ms (request_policy sc)"
  shows "rate_limit_call h cfg True now sc lm =
    (if tat + I - B \<le> now
     then (lm\<lparr>lm_store := (lm_store lm)(k \<mapsto> (tat + I, now + (B + I)))\<rparr>,
           Limited (nat_str (rate_per_minute (request_policy sc)))
             (int_str (max 0 ((B - (tat + I - now)) div I))) (int_str (whole_seconds (tat + I - now))))
     else (lm, Answered (send_429 (sc_request_id sc) (request_policy sc) (tat + I - B - now) (tat - now))))"
  using assms(1,2) unfolding tat_def I_def B_def
  by (simp add: rate_limit_call_def http_request_def request_key_def request_policy_def Let_def
      gcra_used_up [OF assms(3)])

text \<open>A caller that is turned away under a key is told the exact waiting time: the response is
  the 429 with that time and the limiter is unchanged, and the same request at any later moment
  (with nothing else served under the key) is let through if and only if the time has passed.\<close>

theorem retry_after_is_exact:
  assumes "http_request sc" "request_key h cfg sc = Some k"
    and "lm = fst (serve h cfg earlier empty_limiter)"
    and "\<not> is_Limited (snd (rate_limit_call h cfg True now sc lm))" and "now \<le> later"
  shows "\<exists>retry reset. 0 < retry \<and>
      rate_limit_call h cfg True now sc lm =
        (lm, Answered (send_429 (sc_request_id sc) (request_policy sc) retry reset)) \<and>
      is_Limited (snd (rate_limit_call h cfg True later sc lm)) = (now + retry \<le> later)"
proof -
  let ?I = "emission_interval_ms (request_policy sc)" and ?B = "burst_capacity_ms (request_policy sc)"
  let ?tat = "used_up (lm_store lm) k"
  note call = call_keyed [OF assms(1,2), of lm]
  have out: "outlives_tat (lm_store lm)" unfolding assms(3) by (rule serve_empty_outlives)
  have no: "now < ?tat now + ?I - ?B" using assms(4) by (simp add: call [OF out] split: if_splits)
  have "?I \<le> ?B" by (rule request_policy_interval)
  then have "?tat later + ?I - ?B \<le> later \<longleftrightarrow> ?tat now + ?I - ?B \<le> later"
    using no assms(5) by (auto simp: used_up_def max_def split: option.splits)
  then show ?thesis
    using no by (intro exI [of _ "?tat now + ?I - ?B - now"] exI [of _ "?tat now - now"])
      (simp add: call [OF out] algebra_simps)
qed

section \<open>Who shares a key\<close>

lemma hops_app: "hops (x @ '','' @ y) = hops x @ hops y"
  by (simp add: hops_def split_on_app)

lemma find_append: "find P (xs @ ys) = (case find P xs of None \<Rightarrow> find P ys | Some x \<Rightarrow> Some x)"
  by (induction xs) auto

text \<open>C35 The address a request is counted under is not the caller's to choose: the forwarded-for
  header of a peer that is not a trusted proxy is ignored, and behind a trusted proxy the entries
  in front of the part that names an untrusted hop, which are the ones a caller can forge, do not
  matter.\<close>

theorem forged_hops_are_ignored:
  assumes "sc_client sc = Some peer" "peer \<noteq> []" "sc_client sc' = Some peer"
    and "\<not> is_trusted peer trusted \<or>
      (map_of (sc_headers sc) ''x-forwarded-for'' = Some (forged @ '','' @ real) \<and>
       map_of (sc_headers sc') ''x-forwarded-for'' = Some real \<and>
       find (\<lambda>hop. \<not> is_trusted hop trusted) (hops real) \<noteq> None)"
  shows "client_ip sc trusted = client_ip sc' trusted"
proof (cases "trusted = [] \<or> \<not> is_trusted peer trusted")
  case False
  let ?bad = "\<lambda>hop. \<not> is_trusted hop trusted"
  have "find ?bad (rev (hops real)) \<noteq> None" using assms(4) False by (simp add: find_None_iff)
  moreover from this have "hops real \<noteq> []" by auto
  ultimately show ?thesis using assms False
    by (auto simp: client_ip_def hops_app find_append [of ?bad "rev (hops real)"] split: option.splits
        simp del: append_Cons)
qed (use assms(1-3) in \<open>auto simp: client_ip_def\<close>)

lemma fresh_keys_let_through:
  assumes "\<forall>(_, _, sc)\<in>set rs. http_request sc"
    and "\<forall>(up, _, _)\<in>set rs. up" "outlives_tat (lm_store lm)"
    and "map (\<lambda>(_, _, sc). request_key h cfg sc) rs = map Some ks" "distinct ks"
    and "\<forall>k\<in>set ks. lm_store lm k = None"
  shows "\<forall>out\<in>set (snd (serve h cfg rs lm)). is_Limited out"
  using assms
proof (induction rs arbitrary: lm ks)
  case (Cons r rs)
  obtain up now sc where r: "r = (up, now, sc)" by (cases r)
  obtain k ks' where ks: "ks = k # ks'" using Cons.prems(4) by (cases ks) auto
  have up and req: "http_request sc" and key: "request_key h cfg sc = Some k"
    using Cons.prems(1,2,4) by (auto simp: r ks)
  let ?I = "emission_interval_ms (request_policy sc)" and ?B = "burst_capacity_ms (request_policy sc)"
  have "used_up (lm_store lm) k now = now" using Cons.prems(6) by (simp add: used_up_def ks)
  then obtain lm' l m n where c: "rate_limit_call h cfg up now sc lm = (lm', Limited l m n)"
    using call_keyed [OF req key Cons.prems(3), of now] request_policy_interval(2) [of sc] \<open>up\<close> by simp
  have "lm_store lm' k' = None" if "k' \<in> set ks'" for k'
    using call_effect [OF Cons.prems(3) c, of k'] that Cons.prems(5,6) key
    by (cases "k = k'") (auto simp: ks)
  then have "\<forall>out\<in>set (snd (serve h cfg rs lm')). is_Limited out"
    using Cons.prems call_outlives [OF Cons.prems(3), of h cfg up now sc, unfolded c]
    by (intro Cons.IH [of lm' ks']) (auto simp: r ks)
  then show ?case by (simp add: r c Let_def case_prod_beta)
qed simp

definition with_cookie :: "http_scope \<Rightarrow> string \<Rightarrow> string \<Rightarrow> http_scope" where
  "with_cookie sc cname c = sc\<lparr>sc_headers := [(''cookie'', cname @ ''='' @ c)]\<rparr>"

lemma with_cookie_key:
  assumes "pol_scope (request_policy sc) = LS_user"
    and "strip (lc_cookie cfg) = lc_cookie cfg" "CHR ''='' \<notin> set (lc_cookie cfg)"
    and "CHR '';'' \<notin> set (lc_cookie cfg)" "c \<noteq> []" "strip c = c" "CHR '';'' \<notin> set c"
  shows "request_key h cfg (with_cookie sc (lc_cookie cfg) c) =
    Some (''rl:u:'' @ take 32 (h c) @ '':'' @ policy_marker (request_policy sc))"
proof -
  have "takeWhile (\<lambda>x. x \<noteq> CHR ''='') (lc_cookie cfg) = lc_cookie cfg"
    "dropWhile (\<lambda>x. x \<noteq> CHR ''='') (lc_cookie cfg) = []"
    using assms(3) by (auto simp: takeWhile_eq_all_conv)
  then have "read_cookie [(''cookie'', lc_cookie cfg @ ''='' @ c)] (lc_cookie cfg) = Some c"
    using assms by (simp add: split_on_id split_once_def takeWhile_append dropWhile_append)
  then show ?thesis
    using assms(1,5) by (simp add: request_key_def key_for_def with_cookie_def request_policy_def Let_def)
qed

text \<open>A caller without a session evades every limit of the \<open>user\<close> scope by sending a new cookie
  each time: the cookie is not checked, only hashed, so requests of one client that differ in the
  hash of the cookie only are all let through, however many arrive at the same millisecond.\<close>

theorem fresh_cookies_evade_limit:
  assumes "http_request sc" "pol_scope (request_policy sc) = LS_user"
    and "strip (lc_cookie cfg) = lc_cookie cfg" "CHR ''='' \<notin> set (lc_cookie cfg)"
    and "CHR '';'' \<notin> set (lc_cookie cfg)"
    and "\<forall>c\<in>set cs. c \<noteq> [] \<and> strip c = c \<and> CHR '';'' \<notin> set c"
    and "distinct (map (\<lambda>c. take 32 (h c)) cs)"
  shows "\<forall>out\<in>set (snd (serve h cfg
      (map (\<lambda>c. (True, now, with_cookie sc (lc_cookie cfg) c)) cs) empty_limiter)). is_Limited out"
proof (rule fresh_keys_let_through)
  let ?key = "\<lambda>c. ''rl:u:'' @ take 32 (h c) @ '':'' @ policy_marker (request_policy sc)"
  show "map (\<lambda>(_, _, sc). request_key h cfg sc) (map (\<lambda>c. (True, now, with_cookie sc (lc_cookie cfg) c)) cs)
    = map Some (map ?key cs)"
    using with_cookie_key [OF assms(2-5)] assms(6) by simp
  show "distinct (map ?key cs)"
    using assms(7) by (auto simp: distinct_map inj_on_def)
qed (use assms(1) in \<open>auto simp: empty_limiter_def outlives_tat_def with_cookie_def http_request_def\<close>)

section \<open>Witnesses\<close>

lemma login_http [simp]: "http_request (login_from ip)"
  by (simp add: http_request_def login_from_def SKIP_PATHS_def)

text \<open>Two logins at once use up the burst; the third is told to wait for one interval.\<close>

lemma two_logins:
  assumes "ip \<noteq> []"
  shows "fst (serve h no_proxies [(True, 0, login_from ip), (True, 0, login_from ip)] empty_limiter) =
    \<lparr>lm_store = [''rl:ip:'' @ ip @ '':5_2'' \<mapsto> (24000, 36000)], lm_redis_errors = 0\<rparr>"
proof -
  let ?k = "''rl:ip:'' @ ip @ '':5_2''"
  note call = call_keyed [OF login_http login_key [OF assms]]
  have "rate_limit_call h no_proxies True 0 (login_from ip) empty_limiter =
    (\<lparr>lm_store = [?k \<mapsto> (12000, 36000)], lm_redis_errors = 0\<rparr>, Limited (nat_str 5) (int_str 1) (int_str 12))"
    by (simp add: call empty_limiter_def outlives_tat_def used_up_def login_policy
        emission_interval_ms_def burst_capacity_ms_def whole_seconds_def)
  moreover have "rate_limit_call h no_proxies True 0 (login_from ip)
      \<lparr>lm_store = [?k \<mapsto> (12000, 36000)], lm_redis_errors = 0\<rparr> =
    (\<lparr>lm_store = [?k \<mapsto> (24000, 36000)], lm_redis_errors = 0\<rparr>, Limited (nat_str 5) (int_str 0) (int_str 24))"
    by (simp add: call outlives_tat_def used_up_def login_policy
        emission_interval_ms_def burst_capacity_ms_def whole_seconds_def)
  ultimately show ?thesis by (simp add: Let_def)
qed

lemma retry_after_is_exact_witness:
  "\<exists>retry reset. 0 < retry \<and>
     rate_limit_call id no_proxies True 0 (login_from ''9.9.9.9'')
       (fst (serve id no_proxies [(True, 0, login_from ''9.9.9.9''), (True, 0, login_from ''9.9.9.9'')]
         empty_limiter)) =
     (fst (serve id no_proxies [(True, 0, login_from ''9.9.9.9''), (True, 0, login_from ''9.9.9.9'')]
         empty_limiter),
      Answered (send_429 (sc_request_id (login_from ''9.9.9.9''))
        (request_policy (login_from ''9.9.9.9'')) retry reset)) \<and>
     is_Limited (snd (rate_limit_call id no_proxies True 12000 (login_from ''9.9.9.9'')
       (fst (serve id no_proxies [(True, 0, login_from ''9.9.9.9''), (True, 0, login_from ''9.9.9.9'')]
         empty_limiter)))) = (0 + retry \<le> 12000)"
proof (rule retry_after_is_exact [OF login_http login_key refl])
  let ?st = "\<lparr>lm_store = [''rl:ip:'' @ ''9.9.9.9'' @ '':5_2'' \<mapsto> (24000, 36000)], lm_redis_errors = 0\<rparr>"
  have "\<not> is_Limited (snd (rate_limit_call id no_proxies True 0 (login_from ''9.9.9.9'') ?st))"
    by (subst call_keyed [OF login_http login_key])
      (simp_all add: outlives_tat_def used_up_def login_policy emission_interval_ms_def burst_capacity_ms_def)
  then show "\<not> is_Limited (snd (rate_limit_call id no_proxies True 0 (login_from ''9.9.9.9'')
      (fst (serve id no_proxies [(True, 0, login_from ''9.9.9.9''), (True, 0, login_from ''9.9.9.9'')]
        empty_limiter))))"
    by (subst two_logins) simp_all
qed simp_all

definition forwarded :: "string \<Rightarrow> http_scope" where
  "forwarded xff = \<lparr>sc_type = ''http'', sc_path = ''/api/v1/auth/login'', sc_method = ''POST'',
     sc_headers = [(''x-forwarded-for'', xff)], sc_client = Some ''10.0.0.1'', sc_request_id = None\<rparr>"

lemma forged_hops_are_ignored_witness:
  "client_ip (forwarded (''1.2.3.4'' @ '','' @ ''9.9.9.9, 10.0.0.2'')) [Net4 167772160 8] =
   client_ip (forwarded ''9.9.9.9, 10.0.0.2'') [Net4 167772160 8]"
proof (rule forged_hops_are_ignored)
  have hops: "hops ''9.9.9.9, 10.0.0.2'' = [''9.9.9.9'', ''10.0.0.2'']"
    by (simp add: hops_def strip_def is_space_def)
  have "\<not> is_trusted ''9.9.9.9'' [Net4 167772160 8]"
    by (simp add: is_trusted_def ip_address_def v4_int_def parse_octet_def is_digit_def digits_val_def
        digit_val_def net_mask_def mask_numeral)
  then show "\<not> is_trusted ''10.0.0.1'' [Net4 167772160 8] \<or>
    (map_of (sc_headers (forwarded (''1.2.3.4'' @ '','' @ ''9.9.9.9, 10.0.0.2''))) ''x-forwarded-for'' =
       Some (''1.2.3.4'' @ '','' @ ''9.9.9.9, 10.0.0.2'') \<and>
     map_of (sc_headers (forwarded ''9.9.9.9, 10.0.0.2'')) ''x-forwarded-for'' = Some ''9.9.9.9, 10.0.0.2'' \<and>
     find (\<lambda>hop. \<not> is_trusted hop [Net4 167772160 8]) (hops ''9.9.9.9, 10.0.0.2'') \<noteq> None)"
    unfolding hops by (simp add: forwarded_def)
qed (simp_all add: forwarded_def)

definition chat_request :: http_scope where
  "chat_request = \<lparr>sc_type = ''http'', sc_path = ''/api/v1/chat'', sc_method = ''POST'',
     sc_headers = [], sc_client = Some ''9.9.9.9'', sc_request_id = None\<rparr>"

lemma fresh_cookies_evade_limit_witness:
  "list_all is_Limited (snd (serve id no_proxies
     (map (\<lambda>c. (True, 0, with_cookie chat_request (lc_cookie no_proxies) c))
       [''a'', ''b'', ''c'', ''d'', ''e'', ''f'', ''g'']) empty_limiter))"
proof -
  have "\<forall>out\<in>set (snd (serve id no_proxies
     (map (\<lambda>c. (True, 0, with_cookie chat_request (lc_cookie no_proxies) c))
       [''a'', ''b'', ''c'', ''d'', ''e'', ''f'', ''g'']) empty_limiter)). is_Limited out"
  proof (rule fresh_cookies_evade_limit)
    show "pol_scope (request_policy chat_request) = LS_user"
      by (simp add: request_policy_def chat_request_def resolve_policy_def POLICIES_def starts_with_def
          upper_def upper_char_def)
  qed (simp_all add: http_request_def chat_request_def SKIP_PATHS_def no_proxies_def strip_def is_space_def)
  then show ?thesis by (simp only: list_all_iff)
qed

end
