(* ===== verification/Middleware.thy ===== *)
theory Middleware
  imports RateLimit
begin

text \<open>The other ASGI middlewares of the API: idempotent replay of POST, PUT and PATCH requests
  (\<^verbatim>\<open>inbound/http/middleware/idempotency.py\<close>), request identifiers
  (\<^verbatim>\<open>request_id.py\<close>), security headers (\<^verbatim>\<open>security_headers.py\<close>) and the session cookie
  (\<^verbatim>\<open>inbound/http/auth/middleware.py\<close>). The replay runs as a system of requests that interleave at
  their Redis commands; the lemmas bound the work of a request, say when two handlers can overlap,
  and show what a replayed response is.\<close>

section \<open>Headers\<close>

text \<open>\<open>set_header\<close> is Starlette's assignment to \<open>MutableHeaders\<close>: it overwrites the first header of
  the (lower-case) name, drops the others, and appends the header when there is none.\<close>

fun set_header :: "(string \<times> string) list \<Rightarrow> string \<Rightarrow> string \<Rightarrow> (string \<times> string) list" where
  "set_header [] k v = [(lower k, v)]"
| "set_header ((h, w) # hs) k v =
     (if h = lower k then (h, v) # filter (\<lambda>(h', _). h' \<noteq> lower k) hs else (h, w) # set_header hs k v)"

lemma set_header_get [simp]: "map_of (set_header hs k v) (lower k) = Some v"
  by (induction hs k v rule: set_header.induct) auto

lemma set_header_other [simp]: "h \<noteq> lower k \<Longrightarrow> map_of (set_header hs k v) h = map_of hs h"
proof (induction hs k v rule: set_header.induct)
  case (2 h' w hs k v)
  have "map_of (filter (\<lambda>(x, _). x \<noteq> lower k) hs) h = map_of hs h"
    using "2.prems" by (induction hs) auto
  then show ?case using 2 by auto
qed simp

section \<open>Request identifiers\<close>

definition read_header :: "http_scope \<Rightarrow> string option" where
  "read_header sc = map_of (sc_headers sc) ''x-request-id''"

text \<open>The identifier of a request is the one it brings, or a new one; it is put into the request's
  state and on the response.\<close>

definition request_id_for :: "string \<Rightarrow> http_scope \<Rightarrow> string" where
  "request_id_for new_id sc = (case read_header sc of Some r \<Rightarrow> if r = [] then new_id else r | None \<Rightarrow> new_id)"

definition with_request_id :: "string \<Rightarrow> http_scope \<Rightarrow> http_scope" where
  "with_request_id new_id sc =
     (if sc_type sc \<noteq> ''http'' then sc else sc\<lparr>sc_request_id := Some (request_id_for new_id sc)\<rparr>)"

fun send_request_id :: "string \<Rightarrow> asgi_message \<Rightarrow> asgi_message" where
  "send_request_id rid (ResponseStart code hs) = ResponseStart code (set_header hs ''X-Request-ID'' rid)"
| "send_request_id rid m = m"

section \<open>Security headers\<close>

definition ALWAYS_HEADERS :: "(string \<times> string) list" where
  "ALWAYS_HEADERS =
    [(''X-Frame-Options'', ''SAMEORIGIN''),
     (''X-Content-Type-Options'', ''nosniff''),
     (''Referrer-Policy'', ''strict-origin-when-cross-origin''),
     (''X-XSS-Protection'', ''1; mode=block''),
     (''Permissions-Policy'', ''geolocation=(), camera=(), microphone=(), payment=()''),
     (''Cross-Origin-Opener-Policy'', ''same-origin''),
     (''Cross-Origin-Resource-Policy'', ''same-origin''),
     (''Cross-Origin-Embedder-Policy'', ''require-corp'')]"

definition HTTPS_ONLY_HEADERS :: "(string \<times> string) list" where
  "HTTPS_ONLY_HEADERS = [(''Strict-Transport-Security'', ''max-age=31536000; includeSubDomains'')]"

definition API_CSP :: string where
  "API_CSP = ''default-src '' @ [CHR 0x27] @ ''none'' @ [CHR 0x27] @ ''; frame-ancestors '' @ [CHR 0x27] @
     ''none'' @ [CHR 0x27] @ ''; base-uri '' @ [CHR 0x27] @ ''none'' @ [CHR 0x27]"

definition DOCS_PATHS :: "string list" where
  "DOCS_PATHS = [''/docs'', ''/redoc'', ''/openapi.json'']"

definition is_https :: "string option \<Rightarrow> (string \<times> string) list \<Rightarrow> bool" where
  "is_https scheme headers \<longleftrightarrow> scheme = Some ''https'' \<or>
     list_ex (\<lambda>(h, v). h = ''x-forwarded-proto'' \<and> lower v = ''https'') headers"

fun send_security_headers ::
  "string option \<Rightarrow> http_scope \<Rightarrow> asgi_message \<Rightarrow> asgi_message" where
  "send_security_headers scheme sc (ResponseStart code hs) =
     (if sc_type sc \<noteq> ''http'' then ResponseStart code hs
      else let hs = foldl (\<lambda>hs (k, v). set_header hs k v) hs ALWAYS_HEADERS;
               hs = (if sc_path sc \<notin> set DOCS_PATHS
                     then set_header hs ''Content-Security-Policy'' API_CSP else hs);
               hs = (if is_https scheme (sc_headers sc)
                     then foldl (\<lambda>hs (k, v). set_header hs k v) hs HTTPS_ONLY_HEADERS else hs)
        in ResponseStart code hs)"
| "send_security_headers scheme sc m = m"

section \<open>The session cookie\<close>

text \<open>A controller stages the cookie of the response: nothing, a value, or the cookie's removal.
  \<open>set_cookie\<close> and \<open>delete_cookie\<close> are the header values Starlette's \<open>Response\<close> formats.\<close>

datatype staged_cookie = Unstaged | StagedDelete | StagedSet string

record cookie_config =
  ck_name :: string
  ck_path :: string
  ck_httponly :: bool
  ck_secure :: bool
  ck_samesite :: string

definition apply_cookie ::
  "(cookie_config \<Rightarrow> string \<Rightarrow> string) \<Rightarrow> (string \<Rightarrow> string \<Rightarrow> string) \<Rightarrow> cookie_config \<Rightarrow> staged_cookie
     \<Rightarrow> (string \<times> string) list \<Rightarrow> (string \<times> string) list" where
  "apply_cookie set_cookie delete_cookie cfg staged hs = (case staged of
     Unstaged \<Rightarrow> hs
   | StagedDelete \<Rightarrow> hs @ [(''set-cookie'', delete_cookie (ck_name cfg) (ck_path cfg))]
   | StagedSet v \<Rightarrow> hs @ [(''set-cookie'', set_cookie cfg v)])"

fun send_auth_cookie ::
  "(cookie_config \<Rightarrow> string \<Rightarrow> string) \<Rightarrow> (string \<Rightarrow> string \<Rightarrow> string) \<Rightarrow> cookie_config \<Rightarrow> http_scope
     \<Rightarrow> staged_cookie \<Rightarrow> asgi_message \<Rightarrow> asgi_message" where
  "send_auth_cookie set_cookie delete_cookie cfg sc staged (ResponseStart code hs) =
     (if sc_type sc \<noteq> ''http'' then ResponseStart code hs
      else ResponseStart code (apply_cookie set_cookie delete_cookie cfg staged hs))"
| "send_auth_cookie set_cookie delete_cookie cfg sc staged m = m"

section \<open>Idempotent requests\<close>

record http_response =
  rs_status :: nat
  rs_headers :: "(string \<times> string) list"
  rs_body :: string
  rs_media :: "string option"

record http_request =
  rq_method :: string
  rq_path :: string
  rq_key :: "string option"
  rq_cookie :: "string option"
  rq_body :: string

record cached_response =
  cr_status :: nat
  cr_body :: string
  cr_media :: "string option"

definition IDEM_METHODS :: "string list" where
  "IDEM_METHODS = [''POST'', ''PUT'', ''PATCH'']"

definition lock_max_polls :: nat where "lock_max_polls = 50"

text \<open>The scope and the key of a request, and its protection.\<close>

definition session_scope :: "(string \<Rightarrow> string) \<Rightarrow> http_request \<Rightarrow> string" where
  "session_scope sha256_hex rq = (case rq_cookie rq of
     None \<Rightarrow> ''anon'' | Some c \<Rightarrow> if c = [] then ''anon'' else sha256_hex c)"

definition idem_key :: "(string \<Rightarrow> string) \<Rightarrow> http_request \<Rightarrow> string option" where
  "idem_key sha256_hex rq = (case rq_key rq of
     None \<Rightarrow> None
   | Some k \<Rightarrow> if rq_method rq \<notin> set IDEM_METHODS then None
              else Some (session_scope sha256_hex rq @ '':'' @ sha256_hex k))"

text \<open>\<open>utf8\<close> is decoding a body as UTF-8 with replacement and encoding it again. The response rebuilt
  from the cache has the headers Starlette derives from body and media type only, written here as
  none.\<close>

definition cache_entry :: "(string \<Rightarrow> string) \<Rightarrow> http_response \<Rightarrow> cached_response" where
  "cache_entry utf8 r = \<lparr>cr_status = rs_status r, cr_body = utf8 (rs_body r), cr_media = rs_media r\<rparr>"

definition decode_cached :: "cached_response \<Rightarrow> http_response" where
  "decode_cached c = \<lparr>rs_status = cr_status c, rs_headers = [], rs_body = cr_body c, rs_media = cr_media c\<rparr>"

text \<open>Redis holds the cached responses under \<open>idempotency:\<close> and the locks under
  \<open>idempotency:lock:\<close>; both are indexed by what follows the prefix. \<open>ir_runs\<close> counts, as a ghost, the
  handler executions of each key.\<close>

record idem_redis =
  ir_cache :: "string \<Rightarrow> cached_response option"
  ir_lock :: "string \<Rightarrow> bool"
  ir_runs :: "string \<Rightarrow> nat"

datatype idem_pc =
    Arrived                       \<comment> \<open>before the \<open>GET\<close> of the fast path\<close>
  | Missed                        \<comment> \<open>before \<open>SET NX\<close> of the lock\<close>
  | Polling nat                   \<comment> \<open>waiting for the holder, polls done\<close>
  | Unprotected                   \<comment> \<open>before the handler, without the lock\<close>
  | Holding                       \<comment> \<open>before the handler, with the lock\<close>
  | Executed http_response        \<comment> \<open>before \<open>SETEX\<close>\<close>
  | Releasing http_response       \<comment> \<open>before \<open>DEL\<close> of the lock\<close>
  | Finished http_response

text \<open>One step of a request with key \<open>k\<close>. \<open>up\<close> says whether Redis answers the command of this step, and
  \<open>r\<close> is what the handler returns.\<close>

definition idem_move ::
  "(string \<Rightarrow> string) \<Rightarrow> string \<Rightarrow> bool \<Rightarrow> http_response \<Rightarrow> idem_redis \<Rightarrow> idem_pc \<Rightarrow> idem_redis \<times> idem_pc" where
  "idem_move utf8 k up r st pc = (case pc of
     Arrived \<Rightarrow>
       if \<not> up then (st, Unprotected)
       else (case ir_cache st k of Some c \<Rightarrow> (st, Finished (decode_cached c)) | None \<Rightarrow> (st, Missed))
   | Missed \<Rightarrow>
       if \<not> up then (st, Unprotected)
       else if ir_lock st k then (st, Polling 0)
       else (st\<lparr>ir_lock := (ir_lock st)(k := True)\<rparr>, Holding)
   | Polling n \<Rightarrow>
       if n \<ge> lock_max_polls then (st, Unprotected)
       else if \<not> up then (st, Unprotected)
       else (case ir_cache st k of Some c \<Rightarrow> (st, Finished (decode_cached c)) | None \<Rightarrow> (st, Polling (Suc n)))
   | Unprotected \<Rightarrow> (st\<lparr>ir_runs := (ir_runs st)(k := Suc (ir_runs st k))\<rparr>, Finished r)
   | Holding \<Rightarrow> (st\<lparr>ir_runs := (ir_runs st)(k := Suc (ir_runs st k))\<rparr>, Executed r)
   | Executed r' \<Rightarrow>
       (if 200 \<le> rs_status r' \<and> rs_status r' < 300 \<and> up
        then st\<lparr>ir_cache := (ir_cache st)(k \<mapsto> cache_entry utf8 r')\<rparr> else st, Releasing r')
   | Releasing r' \<Rightarrow>
       (if up then st\<lparr>ir_lock := (ir_lock st)(k := False)\<rparr> else st, Finished r')
   | Finished r' \<Rightarrow> (st, pc))"

text \<open>Requests interleave at these steps, and locks and cached responses may expire in between.
  \<open>key i\<close> is the key of request \<open>i\<close> and \<open>resp i\<close> what its handler returns.\<close>

datatype idem_event = Move nat bool | LockExpires string | CacheExpires string

type_synonym idem_system = "idem_redis \<times> (nat \<Rightarrow> idem_pc)"

fun idem_step ::
  "(string \<Rightarrow> string) \<Rightarrow> (nat \<Rightarrow> string) \<Rightarrow> (nat \<Rightarrow> http_response) \<Rightarrow> idem_event \<Rightarrow> idem_system \<Rightarrow> idem_system" where
  "idem_step utf8 key resp (Move i up) (st, pcs) =
     (let (st', pc') = idem_move utf8 (key i) up (resp i) st (pcs i) in (st', pcs(i := pc')))"
| "idem_step utf8 key resp (LockExpires k) (st, pcs) = (st\<lparr>ir_lock := (ir_lock st)(k := False)\<rparr>, pcs)"
| "idem_step utf8 key resp (CacheExpires k) (st, pcs) = (st\<lparr>ir_cache := (ir_cache st)(k := None)\<rparr>, pcs)"

definition idem_run ::
  "(string \<Rightarrow> string) \<Rightarrow> (nat \<Rightarrow> string) \<Rightarrow> (nat \<Rightarrow> http_response) \<Rightarrow> idem_event list \<Rightarrow> idem_system \<Rightarrow> idem_system" where
  "idem_run utf8 key resp evs sys = foldl (\<lambda>sys ev. idem_step utf8 key resp ev sys) sys evs"

definition idem_start :: idem_system where
  "idem_start = (\<lparr>ir_cache = Map.empty, ir_lock = (\<lambda>_. False), ir_runs = (\<lambda>_. 0)\<rparr>, \<lambda>_. Arrived)"

text \<open>A request served with no other in between: \<open>request_fuel\<close> steps are enough.\<close>

definition request_fuel :: nat where "request_fuel = 54"

fun idem_alone ::
  "(string \<Rightarrow> string) \<Rightarrow> string \<Rightarrow> bool \<Rightarrow> http_response \<Rightarrow> nat \<Rightarrow> idem_redis \<Rightarrow> idem_pc \<Rightarrow> idem_redis \<times> idem_pc" where
  "idem_alone utf8 k up r 0 st pc = (st, pc)"
| "idem_alone utf8 k up r (Suc n) st pc =
     (let (st', pc') = idem_move utf8 k up r st pc in idem_alone utf8 k up r n st' pc')"

definition dispatch ::
  "(string \<Rightarrow> string) \<Rightarrow> (string \<Rightarrow> string) \<Rightarrow> bool \<Rightarrow> (http_request \<Rightarrow> http_response) \<Rightarrow> http_request \<Rightarrow> idem_redis
     \<Rightarrow> idem_redis \<times> http_response option" where
  "dispatch utf8 sha256_hex up handler rq st = (case idem_key sha256_hex rq of
     None \<Rightarrow> (st, Some (handler rq))
   | Some k \<Rightarrow> (case idem_alone utf8 k up (handler rq) request_fuel st Arrived of
       (st', Finished r) \<Rightarrow> (st', Some r) | (st', _) \<Rightarrow> (st', None)))"

section \<open>Progress\<close>

fun steps_left :: "idem_pc \<Rightarrow> nat" where
  "steps_left Arrived = 54"
| "steps_left Missed = 53"
| "steps_left (Polling n) = 2 + (50 - n)"
| "steps_left Unprotected = 1"
| "steps_left Holding = 3"
| "steps_left (Executed r) = 2"
| "steps_left (Releasing r) = 1"
| "steps_left (Finished r) = 0"

lemma steps_left_0 [simp]: "steps_left pc = 0 \<longleftrightarrow> (\<exists>r. pc = Finished r)"
  by (cases pc) auto

lemma idem_move_progress: "steps_left (snd (idem_move utf8 k up r st pc)) \<le> steps_left pc - 1"
  by (cases pc) (auto simp: idem_move_def lock_max_polls_def split: option.splits)

lemma idem_move_finished [simp]: "idem_move utf8 k up r st (Finished r') = (st, Finished r')"
  by (simp add: idem_move_def)

text \<open>The steps a schedule gives to a request.\<close>

definition own_moves :: "nat \<Rightarrow> idem_event list \<Rightarrow> nat" where
  "own_moves i evs = length (filter (\<lambda>ev. \<exists>up. ev = Move i up) evs)"

lemma idem_run_Nil [simp]: "idem_run utf8 key resp [] sys = sys"
  and idem_run_Cons [simp]:
    "idem_run utf8 key resp (ev # evs) sys = idem_run utf8 key resp evs (idem_step utf8 key resp ev sys)"
  by (simp_all add: idem_run_def)

lemma idem_step_pc:
  "steps_left (snd (idem_step utf8 key resp ev sys) i) \<le>
    steps_left (snd sys i) - own_moves i [ev]"
proof (cases ev)
  case (Move j up)
  then show ?thesis
    using idem_move_progress [of utf8 "key j" up "resp j" "fst sys" "snd sys j"]
    by (cases sys) (auto simp: own_moves_def Let_def split: prod.splits)
qed (cases sys; simp add: own_moves_def)+

lemma idem_run_progress:
  "steps_left (snd (idem_run utf8 key resp evs sys) i) \<le> steps_left (snd sys i) - own_moves i evs"
proof (induction evs arbitrary: sys)
  case (Cons ev evs)
  have "own_moves i (ev # evs) = own_moves i [ev] + own_moves i evs" by (simp add: own_moves_def)
  then show ?case
    using Cons.IH [of "idem_step utf8 key resp ev sys"] idem_step_pc [of utf8 key resp ev sys i] by simp
qed (simp add: own_moves_def)


section \<open>Mutual exclusion\<close>

fun holds_lock :: "idem_pc \<Rightarrow> bool" where
  "holds_lock Holding = True"
| "holds_lock (Executed r) = True"
| "holds_lock (Releasing r) = True"
| "holds_lock _ = False"

text \<open>A key is locked exactly while one request of it holds the lock.\<close>

definition lock_inv :: "(nat \<Rightarrow> string) \<Rightarrow> idem_system \<Rightarrow> bool" where
  "lock_inv key sys \<longleftrightarrow>
     (\<forall>i. holds_lock (snd sys i) \<longrightarrow> ir_lock (fst sys) (key i)) \<and>
     (\<forall>i j. holds_lock (snd sys i) \<and> holds_lock (snd sys j) \<and> key i = key j \<longrightarrow> i = j)"

fun undisturbed :: "idem_event \<Rightarrow> bool" where
  "undisturbed (Move i up) = True"
| "undisturbed (LockExpires k) = False"
| "undisturbed (CacheExpires k) = True"

lemma idem_move_lock:
  assumes "idem_move utf8 k up r st pc = (st', pc')"
  shows "k' \<noteq> k \<Longrightarrow> ir_lock st' k' = ir_lock st k'"
    and "holds_lock pc' \<Longrightarrow> holds_lock pc \<longrightarrow> ir_lock st k \<Longrightarrow> ir_lock st' k"
    and "holds_lock pc' \<Longrightarrow> holds_lock pc \<or> \<not> ir_lock st k"
    and "\<not> holds_lock pc \<Longrightarrow> ir_lock st k \<Longrightarrow> ir_lock st' k"
  using assms by (cases pc; auto simp: idem_move_def split: if_splits option.splits)+

lemma lock_inv_step:
  assumes "lock_inv key sys" "undisturbed ev"
  shows "lock_inv key (idem_step utf8 key resp ev sys)"
proof (cases ev)
  case (Move i up)
  obtain st pcs where sys: "sys = (st, pcs)" by (cases sys)
  obtain st' pc' where m: "idem_move utf8 (key i) up (resp i) st (pcs i) = (st', pc')" by fastforce
  note lock = idem_move_lock [OF m]
  have held: "holds_lock (pcs j) \<Longrightarrow> ir_lock st (key j)"
    and one: "holds_lock (pcs j) \<Longrightarrow> holds_lock (pcs j') \<Longrightarrow> key j = key j' \<Longrightarrow> j = j'" for j j'
    using assms(1) by (auto simp: lock_inv_def sys)
  have keep: "ir_lock st' (key j)" if "holds_lock ((pcs(i := pc')) j)" for j
  proof (cases "j = i")
    case True
    then show ?thesis using lock(2) held that by auto
  next
    case False
    then have "holds_lock (pcs j)" using that by simp
    then show ?thesis
      using held [of j] one [of j i] lock(1) [of "key j"] lock(4) False by (cases "key j = key i") auto
  qed
  have alone: "j = i" if "holds_lock pc'" "holds_lock (pcs j)" "key j = key i" for j
  proof (cases "holds_lock (pcs i)")
    case True
    then show ?thesis using one [OF that(2) True that(3)] by simp
  next
    case False
    then have "\<not> ir_lock st (key i)" using lock(3) [OF that(1)] by simp
    then show ?thesis using held [OF that(2)] that(3) by simp
  qed
  have "j = j'" if "holds_lock ((pcs(i := pc')) j)" "holds_lock ((pcs(i := pc')) j')" "key j = key j'" for j j'
  proof (cases "j = i")
    case True
    then show ?thesis using that alone [of j'] by (cases "j' = i") simp_all
  next
    case False
    then show ?thesis using that alone [of j] one [of j j'] by (cases "j' = i") simp_all
  qed
  with keep show ?thesis
    unfolding Move sys idem_step.simps m Let_def prod.case lock_inv_def fst_conv snd_conv by blast
next
  case (CacheExpires k)
  then show ?thesis using assms(1) by (cases sys) (simp add: lock_inv_def)
qed (use assms(2) in simp)

lemma lock_inv_run:
  "lock_inv key sys \<Longrightarrow> list_all undisturbed evs \<Longrightarrow> lock_inv key (idem_run utf8 key resp evs sys)"
proof (induction evs arbitrary: sys)
  case (Cons ev evs)
  have "lock_inv key (idem_step utf8 key resp ev sys)"
    using Cons.prems lock_inv_step [of key sys ev] by simp
  then show ?case using Cons.IH Cons.prems(2) by (simp del: idem_step.simps)
qed simp

text \<open>C40 The lock excludes: while no lock expires, the handlers that run under the lock of a key never
  overlap, in any interleaving and with Redis failing at any command.\<close>

theorem idempotency_lock_excludes:
  assumes "list_all undisturbed evs" "(st, pcs) = idem_run utf8 key resp evs idem_start"
    and "holds_lock (pcs i)" "key i = key j" "i \<noteq> j"
  shows "\<not> holds_lock (pcs j)"
proof -
  have "lock_inv key (st, pcs)"
    unfolding assms(2) by (rule lock_inv_run [OF _ assms(1)]) (simp add: lock_inv_def idem_start_def)
  then have "holds_lock (pcs i) \<and> holds_lock (pcs j) \<and> key i = key j \<longrightarrow> i = j"
    unfolding lock_inv_def snd_conv by blast
  then show ?thesis using assms(3-5) by blast
qed

section \<open>What goes wrong\<close>

text \<open>The handler can run twice for one key: a second request that looked into the cache before the
  first one stored its response, and asks for the lock after the first one released it, gets the
  lock and runs the handler again, with Redis working, no expiry and no waiting.\<close>

theorem idempotent_handler_runs_twice:
  assumes "key 0 = key 1"
  shows "\<exists>evs st pcs. list_all (\<lambda>ev. ev \<in> {Move 0 True, Move 1 True}) evs \<and>
    idem_run utf8 key resp evs idem_start = (st, pcs) \<and> ir_runs st (key 0) = 2 \<and>
    pcs 0 = Finished (resp 0) \<and> pcs 1 = Finished (resp 1)"
proof -
  let ?evs = "Move 1 True # replicate 5 (Move 0 True) @ replicate 4 (Move 1 True)"
  have "ir_runs (fst (idem_run utf8 key resp ?evs idem_start)) (key 0) = 2 \<and>
    snd (idem_run utf8 key resp ?evs idem_start) 0 = Finished (resp 0) \<and>
    snd (idem_run utf8 key resp ?evs idem_start) 1 = Finished (resp 1)"
    using assms by (simp add: idem_start_def idem_move_def numeral_eq_Suc cong: if_cong)
  moreover have "list_all (\<lambda>ev. ev \<in> {Move 0 True, Move 1 True}) ?evs" by (simp add: list_all_iff)
  ultimately show ?thesis by (metis prod.collapse)
qed

lemma alone_miss:
  assumes "ir_cache st k = None" "\<not> ir_lock st k" "200 \<le> rs_status r" "rs_status r < 300"
  shows "idem_alone utf8 k True r request_fuel st Arrived =
    (st\<lparr>ir_lock := (ir_lock st)(k := False), ir_runs := (ir_runs st)(k := Suc (ir_runs st k)),
        ir_cache := (ir_cache st)(k \<mapsto> cache_entry utf8 r)\<rparr>, Finished r)"
proof -
  have stay: "idem_alone utf8 k True r n s (Finished r') = (s, Finished r')" for n s r'
    by (induction n) simp_all
  have fuel: "request_fuel = Suc (Suc (Suc (Suc (Suc 49))))" by (simp add: request_fuel_def)
  show ?thesis unfolding fuel idem_alone.simps using assms by (simp add: idem_move_def stay)
qed

lemma alone_hit:
  assumes "ir_cache st k = Some c"
  shows "idem_alone utf8 k True r request_fuel st Arrived = (st, Finished (decode_cached c))"
proof -
  have stay: "idem_alone utf8 k True r n s (Finished r') = (s, Finished r')" for n s r'
    by (induction n) simp_all
  have fuel: "request_fuel = Suc 53" by (simp add: request_fuel_def)
  show ?thesis unfolding fuel idem_alone.simps using assms by (simp add: idem_move_def stay)
qed

text \<open>The key does not name the endpoint: after a request with a successful response, any later
  POST, PUT or PATCH of the same client with the same header, to whatever path and with whatever
  body, is answered with that response and its handler does not run; and the replay has lost the
  headers, so a replayed login sets no cookie.\<close>

theorem replay_ignores_endpoint:
  assumes "idem_key sha256_hex rq = Some k" "rq_key rq' = rq_key rq" "rq_cookie rq' = rq_cookie rq"
    and "rq_method rq' \<in> set IDEM_METHODS"
    and "ir_cache st k = None" "\<not> ir_lock st k"
    and "200 \<le> rs_status (handler rq)" "rs_status (handler rq) < 300"
    and "dispatch utf8 sha256_hex True handler rq st = (st', r)"
  shows "r = Some (handler rq) \<and>
    dispatch utf8 sha256_hex True handler rq' st' =
      (st', Some \<lparr>rs_status = rs_status (handler rq), rs_headers = [], rs_body = utf8 (rs_body (handler rq)),
        rs_media = rs_media (handler rq)\<rparr>)"
proof -
  have "idem_key sha256_hex rq' = Some k"
    using assms(1-4) by (auto simp: idem_key_def session_scope_def split: option.splits if_splits)
  then show ?thesis using assms(1,9) alone_miss [OF assms(5-8), of utf8]
    by (auto simp: dispatch_def alone_hit decode_cached_def cache_entry_def)
qed

section \<open>Witnesses\<close>

definition created :: http_response where
  "created = \<lparr>rs_status = 201, rs_headers = [(''set-cookie'', ''auth=t'')], rs_body = ''{}'',
     rs_media = Some ''application/json''\<rparr>"


text \<open>After four steps request 0 is about to release the lock that request 1 is waiting for.\<close>

lemma idempotency_lock_excludes_witness:
  "\<not> holds_lock (snd (idem_run id (\<lambda>_. ''k'') (\<lambda>_. created)
     [Move 0 True, Move 1 True, Move 0 True, Move 1 True] idem_start) 1)"
proof -
  let ?sys = "idem_run id (\<lambda>_. ''k'') (\<lambda>_. created) [Move 0 True, Move 1 True, Move 0 True, Move 1 True] idem_start"
  have "holds_lock (snd ?sys 0)" by (simp add: idem_start_def idem_move_def)
  then show ?thesis
    by (intro idempotency_lock_excludes [of "[Move 0 True, Move 1 True, Move 0 True, Move 1 True]"
          "fst ?sys" "snd ?sys" id "\<lambda>_. ''k''" "\<lambda>_. created" 0 1]) simp_all
qed

lemma idempotent_handler_runs_twice_witness:
  "\<exists>evs st pcs. list_all (\<lambda>ev. ev \<in> {Move 0 True, Move 1 True}) evs \<and>
    idem_run id (\<lambda>_. ''k'') (\<lambda>_. created) evs idem_start = (st, pcs) \<and> ir_runs st ''k'' = 2 \<and>
    pcs 0 = Finished created \<and> pcs 1 = Finished created"
  by (rule idempotent_handler_runs_twice [of "\<lambda>_. ''k''" id "\<lambda>_. created"]) simp

definition login_post :: http_request where
  "login_post = \<lparr>rq_method = ''POST'', rq_path = ''/api/v1/auth/login'', rq_key = Some ''1'',
     rq_cookie = None, rq_body = ''a''\<rparr>"

definition register_post :: http_request where
  "register_post = login_post\<lparr>rq_path := ''/api/v1/auth/register'', rq_body := ''b''\<rparr>"

lemma replay_ignores_endpoint_witness:
  "snd (dispatch id id True (\<lambda>_. created) register_post
     (fst (dispatch id id True (\<lambda>_. created) login_post (fst idem_start)))) =
   Some \<lparr>rs_status = rs_status created, rs_headers = [], rs_body = id (rs_body created),
     rs_media = rs_media created\<rparr>"
proof -
  obtain st' r where d: "dispatch id id True (\<lambda>_. created) login_post (fst idem_start) = (st', r)" by fastforce
  have "r = Some created \<and> dispatch id id True (\<lambda>_. created) register_post st' =
      (st', Some \<lparr>rs_status = rs_status created, rs_headers = [], rs_body = id (rs_body created),
        rs_media = rs_media created\<rparr>)"
    by (rule replay_ignores_endpoint [OF _ _ _ _ _ _ _ _ d, where k = "''anon:1''"])
      (simp_all add: idem_key_def session_scope_def login_post_def register_post_def IDEM_METHODS_def
        idem_start_def created_def)
  then show ?thesis unfolding d by simp
qed

end
