(* ===== verification/Schedule.thy ===== *)
theory Schedule
  imports PyDate
begin

text \<open>The recurrence calendar of app/application/recurring/next_fire_date.py, with the schedule
  check \<open>_validate_schedule\<close> of create_recurring_rule.py and the loop of
  \<open>FireDueRulesUseCase._fire\<close> that skips missed periods.  \<open>scheduled\<close> is the specification: which
  dates a schedule names; the lemmas show that the code returns the next such date.\<close>

named_theorems schedule_defs "definitions of the recurrence calendar"

section \<open>The code\<close>

definition validate_schedule ::
  "recurrence \<Rightarrow> int option \<Rightarrow> int option \<Rightarrow> int option \<Rightarrow> exn + unit" where
  "validate_schedule rec day_of_month day_of_week month =
     (case rec of
        R_WEEKLY \<Rightarrow>
          guardR (case day_of_week of None \<Rightarrow> False | Some w \<Rightarrow> 0 \<le> w \<and> w \<le> 6)
            InvalidRecurrenceScheduleError
      | R_MONTHLY \<Rightarrow>
          guardR (case day_of_month of None \<Rightarrow> False | Some d \<Rightarrow> 1 \<le> d \<and> d \<le> 28)
            InvalidRecurrenceScheduleError
      | R_YEARLY \<Rightarrow>
          bindR (guardR (case day_of_month of None \<Rightarrow> False | Some d \<Rightarrow> 1 \<le> d \<and> d \<le> 28)
                   InvalidRecurrenceScheduleError)
            (\<lambda>_. guardR (case month of None \<Rightarrow> False | Some m \<Rightarrow> 1 \<le> m \<and> m \<le> 12)
                   InvalidRecurrenceScheduleError)
      | R_NONE \<Rightarrow> Inl InvalidRecurrenceScheduleError)"

text \<open>\<open>max_day = calendar.monthrange(y, m)[1]; date(y, m, min(day_of_month, max_day))\<close>\<close>

definition clamped_date :: "int \<Rightarrow> int \<Rightarrow> int \<Rightarrow> exn + date" where
  "clamped_date y m dm = bindR (monthrange_days y m) (\<lambda>max_day. mk_date y m (min dm max_day))"

definition compute_first_fire_date ::
  "date \<Rightarrow> recurrence \<Rightarrow> int option \<Rightarrow> int option \<Rightarrow> int option \<Rightarrow> exn + date" where
  "compute_first_fire_date start_date rec day_of_month day_of_week month =
     (case rec of
        R_WEEKLY \<Rightarrow>
          (case day_of_week of
             None \<Rightarrow> Inl ValueError
           | Some w \<Rightarrow> add_days start_date (nat ((w - weekday start_date) mod 7)))
      | R_MONTHLY \<Rightarrow>
          (case day_of_month of
             None \<Rightarrow> Inl ValueError
           | Some dm \<Rightarrow>
               bindR (clamped_date (date_year start_date) (date_month start_date) dm)
                 (\<lambda>candidate.
                    if candidate < start_date
                    then (let m = date_month start_date + 1; y = date_year start_date;
                              (m', y') = (if m > 12 then (1, y + 1) else (m, y))
                          in clamped_date y' m' dm)
                    else Inr candidate))
      | R_YEARLY \<Rightarrow>
          (case day_of_month of
             None \<Rightarrow> Inl ValueError
           | Some dm \<Rightarrow>
               (case month of
                  None \<Rightarrow> Inl ValueError
                | Some mo \<Rightarrow>
                    bindR (clamped_date (date_year start_date) mo dm)
                      (\<lambda>candidate.
                         if candidate < start_date
                         then clamped_date (date_year start_date + 1) mo dm
                         else Inr candidate)))
      | R_NONE \<Rightarrow> Inl ValueError)"

definition advance_next_fire_date ::
  "date \<Rightarrow> recurrence \<Rightarrow> int option \<Rightarrow> int option \<Rightarrow> int option \<Rightarrow> exn + date" where
  "advance_next_fire_date current rec day_of_month day_of_week month =
     (case rec of
        R_WEEKLY \<Rightarrow> add_days current 7
      | R_MONTHLY \<Rightarrow>
          (case day_of_month of
             None \<Rightarrow> Inl ValueError
           | Some dm \<Rightarrow>
               (let m = date_month current + 1; y = date_year current;
                    (m', y') = (if m > 12 then (1, y + 1) else (m, y))
                in clamped_date y' m' dm))
      | R_YEARLY \<Rightarrow>
          (case day_of_month of
             None \<Rightarrow> Inl ValueError
           | Some dm \<Rightarrow>
               (case month of
                  None \<Rightarrow> Inl ValueError
                | Some mo \<Rightarrow> clamped_date (date_year current + 1) mo dm))
      | R_NONE \<Rightarrow> Inl ValueError)"

section \<open>Results are calendar dates and move forward\<close>

lemma clamped_date_Inr:
  "clamped_date y m dm = Inr r \<Longrightarrow>
     valid_date r \<and> r = Date y m (min dm (days_in_month y m)) \<and> 1 \<le> dm"
  by (auto simp: clamped_date_def monthrange_days_def mk_date_Inr_iff bindR_Inr_iff split: if_splits)

lemma clamped_date_total:
  "1 \<le> y \<Longrightarrow> y \<le> 9999 \<Longrightarrow> 1 \<le> m \<Longrightarrow> m \<le> 12 \<Longrightarrow> 1 \<le> dm \<Longrightarrow>
     clamped_date y m dm = Inr (Date y m (min dm (days_in_month y m)))"
  using days_in_month_bounds(1) [of y m]
  by (simp add: clamped_date_def monthrange_days_def mk_date_def)

lemma add_days_result_valid: "add_days d n = Inr r \<Longrightarrow> valid_date r"
  by (auto simp: add_days_def mk_date_Inr_iff split: if_splits date.splits)

lemma advance_valid: "advance_next_fire_date c rec dm dow mo = Inr r \<Longrightarrow> valid_date r"
  by (auto simp: advance_next_fire_date_def Let_def
      split: recurrence.splits option.splits if_splits
      dest: clamped_date_Inr add_days_result_valid)

lemma advance_later:
  assumes "advance_next_fire_date c rec dm dow mo = Inr r" "valid_date c"
  shows "c < r"
proof (cases rec)
  case R_WEEKLY
  then have "add_days c 7 = Inr r" using assms by (simp add: advance_next_fire_date_def)
  then have "valid_date r" "toordinal r = toordinal c + 7"
    using add_days_valid(2) [OF assms(2), of 7 r] by auto
  then show ?thesis using toordinal_less_iff [OF assms(2)] by force
next
  case R_MONTHLY
  then show ?thesis using assms
    by (cases c) (auto simp: advance_next_fire_date_def Let_def
      split: option.splits if_splits dest!: clamped_date_Inr)
next
  case R_YEARLY
  then show ?thesis using assms
    by (cases c) (auto simp: advance_next_fire_date_def
      split: option.splits dest!: clamped_date_Inr)
qed (use assms in \<open>simp add: advance_next_fire_date_def\<close>)

text \<open>\<open>while new_next <= today: new_next = advance_next_fire_date(new_next, ...)\<close>\<close>

function skip_missed ::
  "date \<Rightarrow> recurrence \<Rightarrow> int option \<Rightarrow> int option \<Rightarrow> int option \<Rightarrow> date \<Rightarrow> exn + date" where
  "skip_missed today rec dm dow mo new_next =
     (if new_next \<le> today
      then (case advance_next_fire_date new_next rec dm dow mo of
              Inl e \<Rightarrow> Inl e
            | Inr later \<Rightarrow> skip_missed today rec dm dow mo later)
      else Inr new_next)"
  by pat_completeness auto

termination
proof (relation "measures [\<lambda>(_, _, _, _, _, d). if valid_date d then 0 else 1,
    \<lambda>(_, _, _, _, _, d). nat (max_ordinal - toordinal d)]", goal_cases)
  case (2 today rec dm dow mo c r)
  have r: "valid_date r" using advance_valid 2(2) by blast
  show ?case
  proof (cases "valid_date c")
    case True
    then have "toordinal c < toordinal r"
      using advance_later [OF 2(2)] toordinal_less r by blast
    then show ?thesis using r True toordinal_max [OF r] by simp
  qed (use r in simp)
qed simp

declare skip_missed.simps [simp del]

section \<open>Specification: the dates a schedule names\<close>

definition scheduled ::
  "recurrence \<Rightarrow> int option \<Rightarrow> int option \<Rightarrow> int option \<Rightarrow> date \<Rightarrow> bool" where
  "scheduled rec day_of_month day_of_week month d =
     (case rec of
        R_WEEKLY \<Rightarrow> Some (weekday d) = day_of_week
      | R_MONTHLY \<Rightarrow>
          (case day_of_month of None \<Rightarrow> False
           | Some dm \<Rightarrow> date_day d = min dm (days_in_month (date_year d) (date_month d)))
      | R_YEARLY \<Rightarrow> Some (date_month d) = month \<and>
          (case day_of_month of None \<Rightarrow> False
           | Some dm \<Rightarrow> date_day d = min dm (days_in_month (date_year d) (date_month d)))
      | R_NONE \<Rightarrow> False)"

definition next_scheduled_from ::
  "recurrence \<Rightarrow> int option \<Rightarrow> int option \<Rightarrow> int option \<Rightarrow> date \<Rightarrow> date \<Rightarrow> bool" where
  "next_scheduled_from rec dm dow mo lower r =
     (valid_date r \<and> lower \<le> r \<and> scheduled rec dm dow mo r \<and>
      (\<forall>d. valid_date d \<and> lower \<le> d \<and> scheduled rec dm dow mo d \<longrightarrow> r \<le> d))"

definition next_scheduled_after ::
  "recurrence \<Rightarrow> int option \<Rightarrow> int option \<Rightarrow> int option \<Rightarrow> date \<Rightarrow> date \<Rightarrow> bool" where
  "next_scheduled_after rec dm dow mo lower r =
     (valid_date r \<and> lower < r \<and> scheduled rec dm dow mo r \<and>
      (\<forall>d. valid_date d \<and> lower < d \<and> scheduled rec dm dow mo d \<longrightarrow> r \<le> d))"

lemma mod7_unique:
  assumes "(a + 6) mod 7 = (b + 6) mod (7::int)" "a \<le> b" "b < a + 7"
  shows "a = b"
proof -
  have "7 dvd b - a" using assms(1) mod_eq_dvd_iff [of "b + 6" 7 "a + 6"] by simp
  then show ?thesis using assms(2,3) zdvd_imp_le [of 7 "b - a"] by (cases "b = a") auto
qed

lemma weekday_first:
  assumes "0 \<le> w" "w < 7" "b = a + int (nat ((w - (a + 6) mod 7) mod 7))"
  shows "(b + 6) mod 7 = w" "a \<le> b" "b < a + 7"
proof -
  define x where "x = a + 6"
  have b: "b + 6 = x + (w - x mod 7) mod 7" using assms(3) by (simp add: x_def)
  have "(b + 6) mod 7 = (x + (w - x mod 7)) mod 7"
    unfolding b by (rule mod_add_right_eq)
  also have "\<dots> = (7 * (x div 7) + w) mod 7"
    using mult_div_mod_eq [of 7 x] by (intro arg_cong [where f = "\<lambda>z. z mod 7"]) linarith
  also have "\<dots> = w" using assms(1,2) by simp
  finally show "(b + 6) mod 7 = w" .
  show "a \<le> b" "b < a + 7" using b pos_mod_bound [of 7 "w - x mod 7"] pos_mod_sign [of 7 "w - x mod 7"]
    by (simp_all add: x_def)
qed

lemma weekday_next_unique:
  assumes "valid_date r" "valid_date d" "weekday r = weekday d"
    "toordinal r < k + 7" "k \<le> toordinal d"
  shows "r \<le> d"
proof (rule ccontr)
  assume "\<not> r \<le> d"
  then have "toordinal d < toordinal r" using toordinal_less assms by simp
  then show False
    using mod7_unique [of "toordinal d" "toordinal r"] assms by (simp add: weekday_def)
qed

lemma first_fire_weekly:
  assumes "valid_date s" "0 \<le> w" "w \<le> 6"
    and "compute_first_fire_date s R_WEEKLY dm (Some w) mo = Inr r"
  shows "next_scheduled_from R_WEEKLY dm (Some w) mo s r"
proof -
  have "add_days s (nat ((w - weekday s) mod 7)) = Inr r"
    using assms(4) by (simp add: compute_first_fire_date_def)
  then have r: "valid_date r" "toordinal r = toordinal s + int (nat ((w - weekday s) mod 7))"
    using add_days_valid(2) [OF assms(1)] by auto
  then have wr: "weekday r = w" "toordinal s \<le> toordinal r" "toordinal r < toordinal s + 7"
    using weekday_first [of w "toordinal r" "toordinal s"] assms(2,3)
    by (simp_all add: weekday_def)
  moreover have "s \<le> r" using toordinal_le_iff [OF assms(1) r(1)] wr(2) by simp
  moreover have "r \<le> d" if "valid_date d" "s \<le> d" "weekday d = w" for d
    using weekday_next_unique [OF r(1) that(1)] that wr toordinal_le_iff [OF assms(1) that(1)]
    by simp
  ultimately show ?thesis
    using r(1) by (simp add: next_scheduled_from_def scheduled_def)
qed

abbreviation clamp_day :: "int \<Rightarrow> int \<Rightarrow> int \<Rightarrow> int" where
  "clamp_day dm y m \<equiv> min dm (days_in_month y m)"

text \<open>A date on the clamped day of its month compares as its month does.\<close>

lemma clamped_order:
  "Date y m (clamp_day dm y m) \<le> Date y' m' (clamp_day dm y' m') \<longleftrightarrow> y < y' \<or> y = y' \<and> m \<le> m'"
  by auto

lemma clamped_from:
  assumes "Date y m k \<le> Date y' m' (clamp_day dm y' m')" "m' \<le> 12" "1 \<le> m'"
  shows "\<not> clamp_day dm y m < k \<Longrightarrow> y < y' \<or> y = y' \<and> m \<le> m'"
    and "clamp_day dm y m < k \<Longrightarrow> y < y' \<or> y = y' \<and> m + 1 \<le> m'"
  using assms by auto

lemma scheduled_monthlyE:
  assumes "scheduled R_MONTHLY (Some dm) dow mo d"
  obtains y m where "d = Date y m (clamp_day dm y m)"
  using assms by (cases d) (simp add: scheduled_def)

lemma scheduled_yearlyE:
  assumes "scheduled R_YEARLY (Some dm) dow (Some mo) d"
  obtains y where "d = Date y mo (clamp_day dm y mo)"
  using assms by (cases d) (simp add: scheduled_def)

lemma scheduled_clamped [simp]:
  "scheduled R_MONTHLY (Some dm) dow mo (Date y m (clamp_day dm y m))"
  "scheduled R_YEARLY (Some dm) dow (Some m) (Date y m (clamp_day dm y m))"
  by (simp_all add: scheduled_def)

lemma first_fire_monthly:
  assumes "valid_date s"
    and "compute_first_fire_date s R_MONTHLY (Some dm) dow mo = Inr r"
  shows "next_scheduled_from R_MONTHLY (Some dm) dow mo s r"
proof -
  obtain y m k where s: "s = Date y m k" by (cases s)
  define late where "late = (clamp_day dm y m < k)"
  define y' where y': "y' = (if late \<and> m + 1 > 12 then y + 1 else y)"
  define m' where m': "m' = (if late then if m + 1 > 12 then 1 else m + 1 else m)"
  have "bindR (clamped_date y m dm) (\<lambda>c. if c < s then
      (if m + 1 > 12 then clamped_date (y + 1) 1 dm else clamped_date y (m + 1) dm) else Inr c) = Inr r"
    using assms(2) s by (simp add: compute_first_fire_date_def cong: if_cong split: if_splits)
  then obtain c where c: "clamped_date y m dm = Inr c" and rest: "(if c < s then
      (if m + 1 > 12 then clamped_date (y + 1) 1 dm else clamped_date y (m + 1) dm) else Inr c) = Inr r"
    by (rule bindR_InrE)
  have "c < s \<longleftrightarrow> late" using clamped_date_Inr [OF c] s by (simp add: late_def)
  then have "clamped_date y' m' dm = Inr r"
    using rest c by (cases late; cases "m + 1 > 12") (simp_all add: y' m')
  then have r: "r = Date y' m' (clamp_day dm y' m')" "valid_date r"
    using clamped_date_Inr by blast+
  have "s \<le> r" using r(1) s y' m' late_def by (cases late) (simp_all add: not_less)
  moreover have "r \<le> d"
    if "valid_date d" "s \<le> d" "scheduled R_MONTHLY (Some dm) dow mo d" for d
  proof -
    from that(3) obtain y2 m2 where d: "d = Date y2 m2 (clamp_day dm y2 m2)"
      by (rule scheduled_monthlyE)
    then have "if late then y < y2 \<or> y = y2 \<and> m + 1 \<le> m2 else y < y2 \<or> y = y2 \<and> m \<le> m2"
      and "1 \<le> m2" "m2 \<le> 12"
      using clamped_from [of y m k y2 m2 dm] that s by (auto simp: late_def)
    then show ?thesis unfolding r(1) d clamped_order y' m' by (auto split: if_splits)
  qed
  ultimately show ?thesis using r by (simp add: next_scheduled_from_def)
qed

lemma first_fire_yearly:
  assumes "valid_date s"
    and "compute_first_fire_date s R_YEARLY (Some dm) dow (Some mo) = Inr r"
  shows "next_scheduled_from R_YEARLY (Some dm) dow (Some mo) s r"
proof -
  obtain y m k where s: "s = Date y m k" by (cases s)
  define y' where y': "y' = (if Date y mo (clamp_day dm y mo) < s then y + 1 else y)"
  have "bindR (clamped_date y mo dm)
      (\<lambda>c. if c < s then clamped_date (y + 1) mo dm else Inr c) = Inr r"
    using assms(2) s by (simp add: compute_first_fire_date_def cong: if_cong)
  then obtain c where c: "clamped_date y mo dm = Inr c"
    and rest: "(if c < s then clamped_date (y + 1) mo dm else Inr c) = Inr r"
    by (rule bindR_InrE)
  have "c = Date y mo (clamp_day dm y mo)" using clamped_date_Inr [OF c] by simp
  then have "clamped_date y' mo dm = Inr r"
    using rest c by (cases "c < s") (simp_all add: y')
  then have r: "r = Date y' mo (clamp_day dm y' mo)" "valid_date r"
    using clamped_date_Inr by blast+
  have "s \<le> r" using r(1) s y' by (auto split: if_splits)
  moreover have "r \<le> d" if "s \<le> d" "scheduled R_YEARLY (Some dm) dow (Some mo) d" for d
  proof -
    from that(2) obtain y'' where d: "d = Date y'' mo (clamp_day dm y'' mo)"
      by (rule scheduled_yearlyE)
    then have "y \<le> y''" using that(1) s by auto
    moreover have "y'' \<noteq> y" if "Date y mo (clamp_day dm y mo) < s"
      using that \<open>s \<le> d\<close> d by (meson not_le)
    ultimately show ?thesis unfolding r(1) d clamped_order y' by auto
  qed
  ultimately show ?thesis using r by (simp add: next_scheduled_from_def)
qed

lemma validate_schedule_weekly:
  "validate_schedule R_WEEKLY dm dow mo = Inr () \<longleftrightarrow> (\<exists>w. dow = Some w \<and> 0 \<le> w \<and> w \<le> 6)"
  by (auto simp: validate_schedule_def split: option.splits)

lemma validate_schedule_monthly:
  "validate_schedule R_MONTHLY dm dow mo = Inr () \<longleftrightarrow> (\<exists>d. dm = Some d \<and> 1 \<le> d \<and> d \<le> 28)"
  by (auto simp: validate_schedule_def split: option.splits)

lemma validate_schedule_yearly:
  "validate_schedule R_YEARLY dm dow mo = Inr () \<longleftrightarrow>
     (\<exists>d m. dm = Some d \<and> 1 \<le> d \<and> d \<le> 28 \<and> mo = Some m \<and> 1 \<le> m \<and> m \<le> 12)"
  by (auto simp: validate_schedule_def bindR_Inr_iff split: option.splits)

lemma validate_schedule_none: "validate_schedule R_NONE dm dow mo \<noteq> Inr ()"
  by (simp add: validate_schedule_def)

lemmas validate_schedule_iffs = validate_schedule_weekly validate_schedule_monthly
  validate_schedule_yearly validate_schedule_none

lemma first_fire_next:
  assumes "valid_date s" "validate_schedule rec dm dow mo = Inr ()"
    and "compute_first_fire_date s rec dm dow mo = Inr r"
  shows "next_scheduled_from rec dm dow mo s r"
  using assms first_fire_weekly first_fire_monthly first_fire_yearly
  by (cases rec) (auto simp: validate_schedule_iffs)

lemma advance_weekly:
  assumes "valid_date c" "add_days c 7 = Inr r" "dow = Some (weekday c)"
  shows "next_scheduled_after R_WEEKLY dm dow mo c r"
proof -
  have r: "valid_date r" "toordinal r = toordinal c + 7"
    using add_days_valid(2) [OF assms(1,2)] by auto
  have "weekday r = weekday c" 
    using mod_add_self2 [of "toordinal c + 6" 7] by (simp add: weekday_def r(2) algebra_simps)
  moreover have "c < r" using toordinal_less_iff [OF assms(1) r(1)] r(2) by simp
  moreover have "r \<le> d" if "valid_date d" "c < d" "weekday d = weekday r" for d
    using weekday_next_unique [OF r(1) that(1), of "toordinal c + 1"] that r(2)
      toordinal_less [OF assms(1) that(1,2)] by simp
  ultimately show ?thesis
    using r(1) assms(3) by (auto simp: next_scheduled_after_def scheduled_def)
qed

lemma advance_monthly:
  assumes "advance_next_fire_date c R_MONTHLY (Some dm) dow mo = Inr r"
    and "scheduled R_MONTHLY (Some dm) dow mo c"
  shows "next_scheduled_after R_MONTHLY (Some dm) dow mo c r"
proof -
  from assms(2) obtain y m where c: "c = Date y m (clamp_day dm y m)"
    by (rule scheduled_monthlyE)
  define y' where y': "y' = (if m + 1 > 12 then y + 1 else y)"
  define m' where m': "m' = (if m + 1 > 12 then 1 else m + 1)"
  have "clamped_date y' m' dm = Inr r"
    using assms(1) c by (simp add: advance_next_fire_date_def y' m' split: if_splits)
  then have r: "r = Date y' m' (clamp_day dm y' m')" "valid_date r"
    using clamped_date_Inr by blast+
  have "c < r" using r(1) c by (simp add: y' m')
  moreover have "r \<le> d"
    if "valid_date d" "c < d" "scheduled R_MONTHLY (Some dm) dow mo d" for d
  proof -
    from that(3) obtain y2 m2 where d: "d = Date y2 m2 (clamp_day dm y2 m2)"
      by (rule scheduled_monthlyE)
    then have "y < y2 \<or> y = y2 \<and> m < m2" "1 \<le> m2" "m2 \<le> 12"
      using that c by auto
    then show ?thesis unfolding r(1) d clamped_order y' m' by auto
  qed
  ultimately show ?thesis using r by (simp add: next_scheduled_after_def)
qed

lemma advance_yearly:
  assumes "advance_next_fire_date c R_YEARLY (Some dm) dow (Some mo) = Inr r"
    and "scheduled R_YEARLY (Some dm) dow (Some mo) c"
  shows "next_scheduled_after R_YEARLY (Some dm) dow (Some mo) c r"
proof -
  from assms(2) obtain y where c: "c = Date y mo (clamp_day dm y mo)"
    by (rule scheduled_yearlyE)
  have r: "r = Date (y + 1) mo (clamp_day dm (y + 1) mo)" "valid_date r"
    using assms(1) c clamped_date_Inr by (auto simp: advance_next_fire_date_def)
  have "c < r" using r(1) c by simp
  moreover have "r \<le> d" if "c < d" "scheduled R_YEARLY (Some dm) dow (Some mo) d" for d
  proof -
    from that(2) obtain y2 where d: "d = Date y2 mo (clamp_day dm y2 mo)"
      by (rule scheduled_yearlyE)
    then have "y < y2" using that(1) c by auto
    then show ?thesis unfolding r(1) d clamped_order by auto
  qed
  ultimately show ?thesis using r by (simp add: next_scheduled_after_def)
qed

lemma advance_next:
  assumes "valid_date c" "scheduled rec dm dow mo c"
    and "advance_next_fire_date c rec dm dow mo = Inr r"
  shows "next_scheduled_after rec dm dow mo c r"
proof (cases rec)
  case R_WEEKLY
  then show ?thesis
    using assms advance_weekly [OF assms(1), of r dow dm mo]
    by (simp add: advance_next_fire_date_def scheduled_def)
next
  case R_MONTHLY
  then show ?thesis using assms(2,3) advance_monthly
    by (cases dm) (auto simp: advance_next_fire_date_def)
next
  case R_YEARLY
  then show ?thesis using assms(2,3) advance_yearly
    by (cases dm; cases mo) (auto simp: advance_next_fire_date_def)
qed (use assms in \<open>simp add: scheduled_def\<close>)

lemma skip_missed_next:
  assumes "skip_missed today rec dm dow mo c = Inr r"
    and "valid_date c" "scheduled rec dm dow mo c" "c \<le> today"
  shows "next_scheduled_after rec dm dow mo today r"
  using assms
proof (induction today rec dm dow mo c rule: skip_missed.induct)
  case (1 today rec dm dow mo c)
  then obtain d where d: "advance_next_fire_date c rec dm dow mo = Inr d"
    "skip_missed today rec dm dow mo d = Inr r"
    by (auto simp: skip_missed.simps [of today rec dm dow mo c] split: sum.splits)
  have step: "next_scheduled_after rec dm dow mo c d"
    using advance_next 1(3,4) d(1) by blast
  show ?case
  proof (cases "d \<le> today")
    case True
    then show ?thesis
      using 1(1) [OF 1(5) d(1) d(2)] step by (simp add: next_scheduled_after_def)
  next
    case False
    then have "r = d" using d(2) by (simp add: skip_missed.simps)
    moreover have "d \<le> x" if "valid_date x" "today < x" "scheduled rec dm dow mo x" for x
      using step that 1(5) by (auto simp: next_scheduled_after_def)
    ultimately show ?thesis
      using step False by (simp add: next_scheduled_after_def not_le)
  qed
qed

section \<open>Dates exist up to the end of the calendar\<close>

lemma toordinal_before_9999:
  assumes "valid_date d" "date_year d < 9999"
  shows "toordinal d + 365 \<le> max_ordinal"
proof -
  have m: "valid_date (Date 9998 12 31)" by (simp add: days_in_month_def)
  have "d \<le> Date 9998 12 31"
    using assms days_in_month_bounds(2) [of "date_year d" "date_month d"] by (cases d) auto
  then have "toordinal d \<le> toordinal (Date 9998 12 31)"
    using toordinal_le_iff [OF assms(1) m] by simp
  moreover have "toordinal (Date 9998 12 31) + 365 = max_ordinal"
    by (simp add: toordinal_def days_before_year_def days_before_month_def is_leap_def max_ordinal_def)
  ultimately show ?thesis by simp
qed

lemma first_fire_total:
  assumes "valid_date s" "date_year s < 9999" "validate_schedule rec dm dow mo = Inr ()"
  shows "\<exists>r. compute_first_fire_date s rec dm dow mo = Inr r"
proof (cases rec)
  case R_WEEKLY
  then obtain w where "dow = Some w" using assms(3) by (auto simp: validate_schedule_iffs)
  moreover have "\<exists>r. add_days s (nat ((w - weekday s) mod 7)) = Inr r"
  proof -
    have "int (nat ((w - weekday s) mod 7)) < 7" by simp
    then have le: "toordinal s + int (nat ((w - weekday s) mod 7)) \<le> max_ordinal"
      using toordinal_before_9999 [OF assms(1,2)] by linarith
    show ?thesis using add_days_valid(1) [OF assms(1) le] by blast
  qed
  ultimately show ?thesis using R_WEEKLY by (simp add: compute_first_fire_date_def)
next
  case R_MONTHLY
  then show ?thesis
    using assms by (cases s)
      (auto simp: validate_schedule_iffs compute_first_fire_date_def clamped_date_total cong: if_cong)
next
  case R_YEARLY
  then show ?thesis
    using assms by (cases s)
      (auto simp: validate_schedule_iffs compute_first_fire_date_def clamped_date_total cong: if_cong)
qed (use assms in \<open>simp add: validate_schedule_none\<close>)

lemma advance_total:
  assumes "valid_date c" "date_year c < 9999" "validate_schedule rec dm dow mo = Inr ()"
  shows "\<exists>r. advance_next_fire_date c rec dm dow mo = Inr r"
proof (cases rec)
  case R_WEEKLY
  then show ?thesis
    using add_days_valid(1) [OF assms(1), of 7] toordinal_before_9999 [OF assms(1,2)]
    by (auto simp: advance_next_fire_date_def)
next
  case R_MONTHLY
  then show ?thesis
    using assms by (cases c)
      (auto simp: validate_schedule_iffs advance_next_fire_date_def clamped_date_total)
next
  case R_YEARLY
  then show ?thesis
    using assms by (cases c)
      (auto simp: validate_schedule_iffs advance_next_fire_date_def clamped_date_total)
qed (use assms in \<open>simp add: validate_schedule_none\<close>)

lemma skip_missed_total:
  assumes "valid_date c" "date_year today < 9999" "validate_schedule rec dm dow mo = Inr ()"
  shows "\<exists>r. skip_missed today rec dm dow mo c = Inr r"
  using assms
proof (induction today rec dm dow mo c rule: skip_missed.induct)
  case (1 today rec dm dow mo c)
  show ?case
  proof (cases "c \<le> today")
    case True
    then have "date_year c < 9999" using 1(3) by (auto simp: less_eq_date_def)
    then obtain d where d: "advance_next_fire_date c rec dm dow mo = Inr d"
      using advance_total 1(2,4) by blast
    then show ?thesis
      using 1(1) [OF True d advance_valid [OF d] 1(3,4)] True by (simp add: skip_missed.simps)
  next
    case False
    then show ?thesis by (simp add: skip_missed.simps)
  qed
qed

section \<open>Properties\<close>

text \<open>C22 The first fire date of a schedule the service accepts exists, is on or after the start
  date, is a date the schedule names, and no earlier date on or after the start is one.\<close>

theorem first_fire_date_is_next:
  assumes "valid_date s" "date_year s < 9999" "validate_schedule rec dm dow mo = Inr ()"
  shows "\<exists>r. compute_first_fire_date s rec dm dow mo = Inr r \<and> next_scheduled_from rec dm dow mo s r"
  using first_fire_total [OF assms] first_fire_next [OF assms(1,3)] by blast

lemma first_fire_date_is_next_witness:
  "\<exists>r. compute_first_fire_date (Date 2024 2 29) R_MONTHLY (Some 15) None None = Inr r \<and>
     next_scheduled_from R_MONTHLY (Some 15) None None (Date 2024 2 29) r"
  by (rule first_fire_date_is_next)
    (simp_all add: days_in_month_def is_leap_def validate_schedule_def)

text \<open>C23 The loop that skips missed periods ends, and from a due date of the schedule it reaches the
  first date of the schedule after today: a rule that was not fired for any number of periods is
  caught up without drifting off its day.\<close>

theorem skip_missed_reaches_next:
  assumes "valid_date d" "scheduled rec dm dow mo d" "validate_schedule rec dm dow mo = Inr ()"
    and "d \<le> today" "date_year today < 9999"
  shows "\<exists>r. bindR (advance_next_fire_date d rec dm dow mo) (skip_missed today rec dm dow mo) = Inr r \<and>
    next_scheduled_after rec dm dow mo today r"
proof -
  obtain r where r: "skip_missed today rec dm dow mo d = Inr r"
    using skip_missed_total [OF assms(1,5,3)] by blast
  moreover have "bindR (advance_next_fire_date d rec dm dow mo) (skip_missed today rec dm dow mo) =
      skip_missed today rec dm dow mo d"
    using assms(4) skip_missed.simps [of today rec dm dow mo d] by (simp add: bindR_def)
  ultimately show ?thesis using skip_missed_next [OF r assms(1,2,4)] by auto
qed

lemma skip_missed_reaches_next_witness:
  "\<exists>r. bindR (advance_next_fire_date (Date 2023 11 28) R_MONTHLY (Some 28) None None)
       (skip_missed (Date 2024 2 28) R_MONTHLY (Some 28) None None) = Inr r \<and>
     next_scheduled_after R_MONTHLY (Some 28) None None (Date 2024 2 28) r"
  by (rule skip_missed_reaches_next)
    (simp_all add: days_in_month_def is_leap_def validate_schedule_def scheduled_def)

end
