(* ===== verification/Recurring.thy ===== *)
theory Recurring
  imports Schedule SqlTypes
begin

text \<open>Recurring rules: the entity, CreateRecurringRuleUseCase, UpdateRecurringRuleUseCase,
  DeleteRecurringRuleUseCase and FireDueRulesUseCase.  The firing job is written over the two
  repository operations it calls; \<open>rule_store\<close> is what the port promises (a query sees what was
  saved), and \<open>fetch_due\<close> over a session is what SqlaRecurringRuleRepository provides, with the
  session's autoflush flag and the binding of the status literal as parameters.\<close>

section \<open>The entity and its repository\<close>

record rule =
  rr_id :: recurring_rule_id
  rr_user :: user_id
  rr_amount :: money
  rr_type :: transaction_type
  rr_merchant :: "string option"
  rr_notes :: "string option"
  rr_category :: "category_id option"
  rr_recurrence :: recurrence
  rr_day_of_month :: "int option"
  rr_day_of_week :: "int option"
  rr_month :: "int option"
  rr_start_date :: date
  rr_end_date :: "date option"
  rr_status :: rule_status
  rr_next_fire_date :: date
  rr_created_at :: datetime
  rr_updated_at :: "datetime option"

definition pause :: "datetime \<Rightarrow> rule \<Rightarrow> rule" where
  "pause now r = r\<lparr>rr_status := RS_PAUSED, rr_updated_at := Some now\<rparr>"

definition resume :: "datetime \<Rightarrow> rule \<Rightarrow> rule" where
  "resume now r = r\<lparr>rr_status := RS_ACTIVE, rr_updated_at := Some now\<rparr>"

text \<open>A session: the rows of the table, the identity map of the objects merged or loaded, and the
  part of the database the transaction use case works on.\<close>

record rule_session =
  rs_rows :: "rule list"
  rs_objects :: "rule list"
  rs_ledger :: ledger

definition flushed_rules :: "rule_session \<Rightarrow> rule list" where
  "flushed_rules s = fold (upsert rr_id) (rs_objects s) (rs_rows s)"

text \<open>What the port asks for: the active rules whose date has come.\<close>

definition due :: "date \<Rightarrow> rule \<Rightarrow> bool" where
  "due as_of r = (rr_next_fire_date r \<le> as_of \<and> rr_status r = RS_ACTIVE)"

text \<open>The query of the adapter: its second condition compares the column with the literal
  \<open>''active''\<close>, bound by \<open>bind\<close>, which is what SQLAlchemy does with a value compared with a
  column of a custom type.  As documented that is \<open>bind_param RecurringRuleStatusType\<close>; a mapping
  that lets strings through would be \<open>bind_text\<close>.\<close>

type_synonym binding = "py_value \<Rightarrow> sql_value"

definition due_row :: "binding \<Rightarrow> date \<Rightarrow> rule \<Rightarrow> bool" where
  "due_row bind as_of r = (rr_next_fire_date r \<le> as_of \<and>
     sql_eq (bind_param RecurringRuleStatusType (P_RuleStatus (rr_status r))) (bind (P_Str ''active'')))"

definition bind_text :: binding where
  "bind_text v = (case v of P_Str s \<Rightarrow> SQL_Str s | _ \<Rightarrow> bind_param RecurringRuleStatusType v)"

lemma due_row_text [simp]: "due_row bind_text = due"
proof -
  have "rule_status_value s = ''active'' \<longleftrightarrow> s = RS_ACTIVE" for s
    using rule_status_value_inject [of s RS_ACTIVE] by (simp del: rule_status_value_inject)
  then show ?thesis by (intro ext) (simp add: due_row_def due_def bind_text_def sql_eq_def)
qed

lemma due_row_typed [simp]: "\<not> due_row (bind_param RecurringRuleStatusType) as_of r"
  by (simp add: due_row_def)

text \<open>A row that is already in the identity map is returned as the object of the session.\<close>

definition session_object :: "rule_session \<Rightarrow> rule \<Rightarrow> rule" where
  "session_object s r = (case find_by (\<lambda>o'. rr_id o' = rr_id r) (rs_objects s) of None \<Rightarrow> r | Some o' \<Rightarrow> o')"

definition fetch_due :: "binding \<Rightarrow> bool \<Rightarrow> date \<Rightarrow> nat \<Rightarrow> rule_session \<Rightarrow> rule list" where
  "fetch_due bind autoflush as_of limit s =
     map (session_object s)
       (take limit (filter (due_row bind as_of) (if autoflush then flushed_rules s else rs_rows s)))"

definition save_rule :: "rule \<Rightarrow> rule_session \<Rightarrow> rule_session" where
  "save_rule r s = s\<lparr>rs_objects := upsert rr_id r (rs_objects s)\<rparr>"

definition get_rule :: "recurring_rule_id \<Rightarrow> user_id \<Rightarrow> rule_session \<Rightarrow> rule option" where
  "get_rule i u s = map_option (session_object s)
     (find_by (\<lambda>r. rr_id r = i \<and> rr_user r = u) (rs_rows s))"

definition list_rules :: "user_id \<Rightarrow> rule_session \<Rightarrow> rule list" where
  "list_rules u s = rev (sort_key rr_created_at (rev (filter (\<lambda>r. rr_user r = u) (rs_rows s))))"

definition delete_rule :: "recurring_rule_id \<Rightarrow> user_id \<Rightarrow> rule_session \<Rightarrow> rule_session" where
  "delete_rule i u s = s\<lparr>rs_rows := filter (\<lambda>r. \<not> (rr_id r = i \<and> rr_user r = u)) (rs_rows s)\<rparr>"

section \<open>Create and update\<close>

record create_rule_command =
  cr_user :: user_id
  cr_raw_amount :: string
  cr_currency :: string
  cr_type :: string
  cr_recurrence :: string
  cr_start_date :: date
  cr_day_of_month :: "int option"
  cr_day_of_week :: "int option"
  cr_month :: "int option"
  cr_merchant :: "string option"
  cr_notes :: "string option"
  cr_raw_category :: "string option"
  cr_end_date :: "date option"

definition create_rule ::
  "create_rule_command \<Rightarrow> recurring_rule_id \<Rightarrow> datetime \<Rightarrow> rule_session \<Rightarrow>
     exn + recurring_rule_id \<times> rule_session" where
  "create_rule cmd new_id now s =
     bindR (mk_currency (cr_currency cmd)) (\<lambda>cur.
     bindR (money_from_string (cr_raw_amount cmd) cur) (\<lambda>amt.
     bindR (recurrence_of (cr_recurrence cmd)) (\<lambda>rec.
     bindR (validate_schedule rec (cr_day_of_month cmd) (cr_day_of_week cmd) (cr_month cmd)) (\<lambda>_.
     bindR (compute_first_fire_date (cr_start_date cmd) rec (cr_day_of_month cmd)
              (cr_day_of_week cmd) (cr_month cmd)) (\<lambda>first.
     bindR (optional_category (cr_raw_category cmd)) (\<lambda>ci.
     bindR (transaction_type_of (cr_type cmd)) (\<lambda>ty.
       (let r = \<lparr>rr_id = new_id, rr_user = cr_user cmd, rr_amount = amt, rr_type = ty,
                 rr_merchant = cr_merchant cmd, rr_notes = cr_notes cmd, rr_category = ci,
                 rr_recurrence = rec, rr_day_of_month = cr_day_of_month cmd,
                 rr_day_of_week = cr_day_of_week cmd, rr_month = cr_month cmd,
                 rr_start_date = cr_start_date cmd, rr_end_date = cr_end_date cmd,
                 rr_status = RS_ACTIVE, rr_next_fire_date = first, rr_created_at = now,
                 rr_updated_at = None\<rparr>
        in Inr (new_id, save_rule r s)))))))))"

record update_rule_command =
  ur_rule :: recurring_rule_id
  ur_user :: user_id
  ur_status :: "string option"
  ur_day_of_month :: "int option"
  ur_day_of_week :: "int option"
  ur_month :: "int option"
  ur_merchant :: "string option"
  ur_notes :: "string option"

definition override :: "'a option \<Rightarrow> 'a option \<Rightarrow> 'a option" where
  "override new old = (if new \<noteq> None then new else old)"

text \<open>The object is changed in place before the schedule is checked; an exception rolls the
  session back.\<close>

definition update_rule :: "update_rule_command \<Rightarrow> datetime \<Rightarrow> rule_session \<Rightarrow> exn + rule_session" where
  "update_rule cmd now s =
     (case get_rule (ur_rule cmd) (ur_user cmd) s of
        None \<Rightarrow> Inr s
      | Some r \<Rightarrow>
          bindR (case ur_status cmd of
                   None \<Rightarrow> Inr (r, False)
                 | Some raw \<Rightarrow>
                     bindR (rule_status_of raw) (\<lambda>st.
                       Inr (if st \<noteq> rr_status r then (r\<lparr>rr_status := st\<rparr>, True) else (r, False))))
            (\<lambda>(r1, ch1).
              (let r2 = (if ur_merchant cmd \<noteq> None then r1\<lparr>rr_merchant := ur_merchant cmd\<rparr> else r1);
                   r3 = (if ur_notes cmd \<noteq> None then r2\<lparr>rr_notes := ur_notes cmd\<rparr> else r2);
                   ch3 = (ch1 \<or> ur_merchant cmd \<noteq> None \<or> ur_notes cmd \<noteq> None);
                   schedule_changed = (ur_day_of_month cmd \<noteq> None \<or> ur_day_of_week cmd \<noteq> None
                     \<or> ur_month cmd \<noteq> None);
                   dm = override (ur_day_of_month cmd) (rr_day_of_month r);
                   dow = override (ur_day_of_week cmd) (rr_day_of_week r);
                   mo = override (ur_month cmd) (rr_month r)
               in bindR (if schedule_changed
                         then bindR (validate_schedule (rr_recurrence r) dm dow mo) (\<lambda>_.
                              bindR (compute_first_fire_date (fst now) (rr_recurrence r) dm dow mo)
                                (\<lambda>nf. Inr (r3\<lparr>rr_day_of_month := dm, rr_day_of_week := dow,
                                             rr_month := mo, rr_next_fire_date := nf\<rparr>)))
                         else Inr r3)
                    (\<lambda>r4. if ch3 \<or> schedule_changed
                          then Inr (save_rule (r4\<lparr>rr_updated_at := Some now\<rparr>) s)
                          else Inr s))))"

section \<open>FireDueRulesUseCase\<close>

definition fire_batch_size :: nat where "fire_batch_size = 50"
definition fire_max_batches :: nat where "fire_max_batches = 100"

definition rule_command :: "rule \<Rightarrow> create_transaction_command" where
  "rule_command r =
     \<lparr>ct_user = rr_user r, ct_raw_amount = dec_str (amount (rr_amount r)),
      ct_currency = cur_code (currency (rr_amount r)), ct_date = rr_next_fire_date r,
      ct_type = transaction_type_value (rr_type r), ct_merchant = rr_merchant r,
      ct_notes = rr_notes r,
      ct_raw_category = map_option (\<lambda>c. uuid_str (case_category_id id c)) (rr_category r),
      ct_rule = Some (rr_id r)\<rparr>"

text \<open>The advance of a fired rule: past today, and paused once it has passed its end date.\<close>

definition advanced_rule :: "date \<Rightarrow> datetime \<Rightarrow> rule \<Rightarrow> exn + rule" where
  "advanced_rule today now r =
     (let adv = (\<lambda>d. advance_next_fire_date d (rr_recurrence r) (rr_day_of_month r)
                  (rr_day_of_week r) (rr_month r))
      in bindR (adv (rr_next_fire_date r)) (\<lambda>d.
         bindR (skip_missed today (rr_recurrence r) (rr_day_of_month r) (rr_day_of_week r)
                  (rr_month r) d) (\<lambda>new_next.
           (let r' = r\<lparr>rr_next_fire_date := new_next\<rparr>
            in Inr (case rr_end_date r of
                      None \<Rightarrow> r'
                    | Some e \<Rightarrow> if new_next > e then pause now r' else r')))))"

definition fire_rule ::
  "(create_transaction_command \<Rightarrow> 's \<Rightarrow> exn + 's) \<Rightarrow> (rule \<Rightarrow> 's \<Rightarrow> 's) \<Rightarrow> date \<Rightarrow> datetime \<Rightarrow>
     rule \<Rightarrow> 's \<Rightarrow> exn + bool \<times> 's" where
  "fire_rule create save today now r s =
     (case create (rule_command r) s of
        Inl _ \<Rightarrow> Inr (False, s)
      | Inr s' \<Rightarrow> bindR (advanced_rule today now r) (\<lambda>r'. Inr (True, save r' s')))"

fun fire_pending ::
  "(create_transaction_command \<Rightarrow> 's \<Rightarrow> exn + 's) \<Rightarrow> (rule \<Rightarrow> 's \<Rightarrow> 's) \<Rightarrow> date \<Rightarrow> datetime \<Rightarrow>
     rule list \<Rightarrow> recurring_rule_id list \<Rightarrow> 's \<Rightarrow> exn + recurring_rule_id list \<times> 's" where
  "fire_pending create save today now [] failed s = Inr (failed, s)"
| "fire_pending create save today now (r # rs) failed s =
     bindR (fire_rule create save today now r s) (\<lambda>(ok, s').
       fire_pending create save today now rs (if ok then failed else rr_id r # failed) s')"

fun fire_batches ::
  "(create_transaction_command \<Rightarrow> 's \<Rightarrow> exn + 's) \<Rightarrow> (rule \<Rightarrow> 's \<Rightarrow> 's) \<Rightarrow>
   (date \<Rightarrow> nat \<Rightarrow> 's \<Rightarrow> rule list) \<Rightarrow> date \<Rightarrow> datetime \<Rightarrow>
     nat \<Rightarrow> recurring_rule_id list \<Rightarrow> 's \<Rightarrow> exn + 's" where
  "fire_batches create save fetch today now 0 failed s = Inr s"
| "fire_batches create save fetch today now (Suc n) failed s =
     (let rules = fetch today fire_batch_size s;
          pending = filter (\<lambda>r. rr_id r \<notin> set failed) rules
      in if rules = [] then Inr s
         else if pending = [] then Inr s
         else bindR (fire_pending create save today now pending failed s) (\<lambda>(failed', s').
                fire_batches create save fetch today now n failed' s'))"

definition fire_due_rules ::
  "(create_transaction_command \<Rightarrow> 's \<Rightarrow> exn + 's) \<Rightarrow> (rule \<Rightarrow> 's \<Rightarrow> 's) \<Rightarrow>
   (date \<Rightarrow> nat \<Rightarrow> 's \<Rightarrow> rule list) \<Rightarrow> date \<Rightarrow> datetime \<Rightarrow> 's \<Rightarrow> exn + 's" where
  "fire_due_rules create save fetch today now s =
     fire_batches create save fetch today now fire_max_batches [] s"

text \<open>The job's CreateTransactionUseCase, on the same session: \<open>base\<close> numbers the identifiers the
  generator makes in this run.\<close>

definition create_in_session ::
  "(user_id \<Rightarrow> plan) \<Rightarrow> nat \<Rightarrow> datetime \<Rightarrow> create_transaction_command \<Rightarrow> rule_session \<Rightarrow> exn + rule_session"
  where
  "create_in_session plan_of base now cmd s =
     bindR (create_transaction plan_of cmd (TransactionId (base + length (ld_pending (rs_ledger s)))) now
              (rs_ledger s))
       (\<lambda>(_, l). Inr (s\<lparr>rs_ledger := l\<rparr>))"

section \<open>A rule and its calendar\<close>

definition rule_scheduled :: "rule \<Rightarrow> date \<Rightarrow> bool" where
  "rule_scheduled r d = scheduled (rr_recurrence r) (rr_day_of_month r) (rr_day_of_week r) (rr_month r) d"

definition rule_wf :: "rule \<Rightarrow> bool" where
  "rule_wf r = (valid_date (rr_next_fire_date r) \<and> rule_scheduled r (rr_next_fire_date r) \<and>
     validate_schedule (rr_recurrence r) (rr_day_of_month r) (rr_day_of_week r) (rr_month r) = Inr ())"

lemma advance_then_skip:
  assumes "d \<le> today"
  shows "bindR (advance_next_fire_date d rec dm dow mo) (skip_missed today rec dm dow mo) =
    skip_missed today rec dm dow mo d"
  using assms skip_missed.simps [of today rec dm dow mo d] by (simp add: bindR_def)

definition moved_rule :: "datetime \<Rightarrow> rule \<Rightarrow> date \<Rightarrow> rule" where
  "moved_rule now r d =
     (let r' = r\<lparr>rr_next_fire_date := d\<rparr>
      in case rr_end_date r of None \<Rightarrow> r' | Some e \<Rightarrow> if d > e then pause now r' else r')"

lemma advanced_rule_iff:
  "advanced_rule today now r = Inr r' \<longleftrightarrow>
     (\<exists>d. bindR (advance_next_fire_date (rr_next_fire_date r) (rr_recurrence r) (rr_day_of_month r)
              (rr_day_of_week r) (rr_month r))
            (skip_missed today (rr_recurrence r) (rr_day_of_month r) (rr_day_of_week r) (rr_month r))
            = Inr d \<and> r' = moved_rule now r d)"
  by (auto simp: advanced_rule_def moved_rule_def bindR_Inr_iff Let_def)

lemma moved_rule_simps [simp]:
  "rr_id (moved_rule now r d) = rr_id r" "rr_user (moved_rule now r d) = rr_user r"
  "rr_recurrence (moved_rule now r d) = rr_recurrence r"
  "rr_day_of_month (moved_rule now r d) = rr_day_of_month r"
  "rr_day_of_week (moved_rule now r d) = rr_day_of_week r"
  "rr_month (moved_rule now r d) = rr_month r" "rr_amount (moved_rule now r d) = rr_amount r"
  "rr_end_date (moved_rule now r d) = rr_end_date r"
  "rr_category (moved_rule now r d) = rr_category r" "rr_type (moved_rule now r d) = rr_type r"
  "rr_merchant (moved_rule now r d) = rr_merchant r" "rr_notes (moved_rule now r d) = rr_notes r"
  "rr_next_fire_date (moved_rule now r d) = d"
  "rr_status (moved_rule now r d) =
     (if \<exists>e. rr_end_date r = Some e \<and> d > e then RS_PAUSED else rr_status r)"
  by (auto simp: moved_rule_def pause_def Let_def split: option.split)

lemma advanced_rule_next:
  assumes "advanced_rule today now r = Inr r'" "rule_wf r" "rr_next_fire_date r \<le> today"
  shows "next_scheduled_after (rr_recurrence r) (rr_day_of_month r) (rr_day_of_week r) (rr_month r)
    today (rr_next_fire_date r')"
proof -
  have "skip_missed today (rr_recurrence r) (rr_day_of_month r) (rr_day_of_week r) (rr_month r)
      (rr_next_fire_date r) = Inr (rr_next_fire_date r')"
    using assms(1) by (auto simp: advanced_rule_iff advance_then_skip [OF assms(3)])
  then show ?thesis
    using skip_missed_next assms(2,3) by (auto simp: rule_wf_def rule_scheduled_def)
qed

lemma advanced_rule_wf:
  assumes "advanced_rule today now r = Inr r'" "rule_wf r" "rr_next_fire_date r \<le> today"
  shows "rule_wf r'" "today < rr_next_fire_date r'"
  using advanced_rule_next [OF assms] assms(1,2)
  by (auto simp: rule_wf_def rule_scheduled_def next_scheduled_after_def advanced_rule_iff)

lemma advanced_rule_total:
  assumes "rule_wf r" "rr_next_fire_date r \<le> today" "date_year today < 9999"
  shows "\<exists>r'. advanced_rule today now r = Inr r'"
proof -
  have "\<exists>d. skip_missed today (rr_recurrence r) (rr_day_of_month r) (rr_day_of_week r) (rr_month r)
      (rr_next_fire_date r) = Inr d"
    using skip_missed_total assms by (auto simp: rule_wf_def)
  then show ?thesis by (auto simp: advanced_rule_iff advance_then_skip [OF assms(2)])
qed

lemma create_rule_wf:
  assumes "create_rule cmd i now s = Inr (j, s')" "valid_date (cr_start_date cmd)"
  shows "\<exists>r. s' = save_rule r s \<and> rr_id r = i \<and> rule_wf r \<and> valid_money (rr_amount r) \<and>
    rr_status r = RS_ACTIVE \<and>
    next_scheduled_from (rr_recurrence r) (rr_day_of_month r) (rr_day_of_week r) (rr_month r)
      (cr_start_date cmd) (rr_next_fire_date r)"
proof -
  obtain cur amt rec first ci ty where c: "mk_currency (cr_currency cmd) = Inr cur"
    "money_from_string (cr_raw_amount cmd) cur = Inr amt"
    "validate_schedule rec (cr_day_of_month cmd) (cr_day_of_week cmd) (cr_month cmd) = Inr ()"
    "compute_first_fire_date (cr_start_date cmd) rec (cr_day_of_month cmd)
       (cr_day_of_week cmd) (cr_month cmd) = Inr first"
    "s' = save_rule \<lparr>rr_id = i, rr_user = cr_user cmd, rr_amount = amt, rr_type = ty,
                 rr_merchant = cr_merchant cmd, rr_notes = cr_notes cmd, rr_category = ci,
                 rr_recurrence = rec, rr_day_of_month = cr_day_of_month cmd,
                 rr_day_of_week = cr_day_of_week cmd, rr_month = cr_month cmd,
                 rr_start_date = cr_start_date cmd, rr_end_date = cr_end_date cmd,
                 rr_status = RS_ACTIVE, rr_next_fire_date = first, rr_created_at = now,
                 rr_updated_at = None\<rparr> s"
    using assms(1) by (auto simp: create_rule_def bindR_Inr_iff Let_def)
  have "valid_money amt"
    using c(2) mk_money_valid mk_currency_valid [OF c(1)]
    by (auto simp: money_from_string_def split: option.splits)
  moreover have "next_scheduled_from rec (cr_day_of_month cmd) (cr_day_of_week cmd) (cr_month cmd)
      (cr_start_date cmd) first"
    by (rule first_fire_next [OF assms(2) c(3,4)])
  ultimately show ?thesis
    using c(3,5) by (auto simp: rule_wf_def rule_scheduled_def next_scheduled_from_def)
qed

section \<open>What the repository port promises\<close>

locale rule_store =
  fixes fetch :: "date \<Rightarrow> nat \<Rightarrow> 's \<Rightarrow> rule list"
    and save :: "rule \<Rightarrow> 's \<Rightarrow> 's"
    and create :: "create_transaction_command \<Rightarrow> 's \<Rightarrow> exn + 's"
    and inv :: "'s \<Rightarrow> bool"
    and rules :: "'s \<Rightarrow> rule list"
    and made :: "'s \<Rightarrow> transaction list"
    and realises :: "create_transaction_command \<Rightarrow> transaction \<Rightarrow> bool"
  assumes rules_distinct: "inv s \<Longrightarrow> distinct (map rr_id (rules s))"
    and fetch_rules: "inv s \<Longrightarrow> fetch d n s = take n (filter (due d) (rules s))"
    and save_inv: "inv s \<Longrightarrow> inv (save r s)"
    and save_rules: "inv s \<Longrightarrow> rr_id r \<in> rr_id ` set (rules s) \<Longrightarrow>
      rules (save r s) = map (\<lambda>x. if rr_id x = rr_id r then r else x) (rules s)"
    and save_made: "made (save r s) = made s"
    and create_inv: "inv s \<Longrightarrow> create c s = Inr s' \<Longrightarrow> inv s'"
    and create_rules: "create c s = Inr s' \<Longrightarrow> rules s' = rules s"
    and create_made: "inv s \<Longrightarrow> create c s = Inr s' \<Longrightarrow> \<exists>t. made s' = made s @ [t] \<and> realises c t"
begin

definition accepts :: "rule list \<Rightarrow> bool" where
  "accepts rs = (\<forall>r\<in>set rs. \<forall>s. inv s \<longrightarrow> (\<exists>s'. create (rule_command r) s = Inr s'))"

lemma fire_one:
  assumes "inv s" "r \<in> set (rules s)" "due today r" "rule_wf r" "date_year today < 9999"
    and "\<exists>s'. create (rule_command r) s = Inr s'"
  shows "\<exists>r' s' t. fire_rule create save today now r s = Inr (True, s') \<and> inv s' \<and>
    rr_id r' = rr_id r \<and> \<not> due today r' \<and> made s' = made s @ [t] \<and> realises (rule_command r) t \<and>
    rules s' = map (\<lambda>x. if rr_id x = rr_id r then r' else x) (rules s)"
proof -
  obtain s1 where s1: "create (rule_command r) s = Inr s1" using assms(6) by blast
  obtain t where t: "made s1 = made s @ [t]" "realises (rule_command r) t"
    using create_made assms(1) s1 by blast
  have le: "rr_next_fire_date r \<le> today" using assms(3) by (simp add: due_def)
  obtain r' where r': "advanced_rule today now r = Inr r'"
    using advanced_rule_total [OF assms(4) le assms(5)] by blast
  have "rr_id r' = rr_id r" "today < rr_next_fire_date r'"
    using r' advanced_rule_wf(2) [OF r' assms(4) le] by (auto simp: advanced_rule_iff)
  moreover have s1': "inv s1" "rules s1 = rules s" using create_inv create_rules assms(1) s1 by blast+
  moreover have "fire_rule create save today now r s = Inr (True, save r' s1)"
    using s1 r' by (simp add: fire_rule_def)
  moreover have "rules (save r' s1) = map (\<lambda>x. if rr_id x = rr_id r then r' else x) (rules s)"
    using save_rules [OF s1'(1), of r'] s1'(2) \<open>rr_id r' = rr_id r\<close> assms(2) by auto
  moreover have "inv (save r' s1)" "made (save r' s1) = made s @ [t]"
    using save_inv [OF s1'(1)] save_made t(1) by auto
  moreover have "\<not> due today r'" using \<open>today < rr_next_fire_date r'\<close> by (auto simp: due_def)
  ultimately show ?thesis using t(2) by blast
qed

lemma fire_pending_all:
  assumes "inv s" "distinct (map rr_id ps)" "set ps \<subseteq> set (rules s)"
    and "\<forall>r\<in>set ps. due today r \<and> rule_wf r" "accepts ps" "date_year today < 9999"
  shows "\<exists>s' ts. fire_pending create save today now ps failed s = Inr (failed, s') \<and> inv s' \<and>
    made s' = made s @ ts \<and> list_all2 (\<lambda>r t. realises (rule_command r) t) ps ts \<and>
    filter (due today) (rules s') = filter (\<lambda>x. due today x \<and> rr_id x \<notin> rr_id ` set ps) (rules s) \<and>
    filter (\<lambda>x. rr_id x \<notin> rr_id ` set ps) (rules s') = filter (\<lambda>x. rr_id x \<notin> rr_id ` set ps) (rules s)"
  using assms
proof (induction ps arbitrary: s)
  case (Cons r ps)
  have "\<exists>s'. create (rule_command r) s = Inr s'"
    using Cons.prems(1,5) by (auto simp: accepts_def)
  then obtain r' s1 t where f: "fire_rule create save today now r s = Inr (True, s1)" "inv s1"
    "rr_id r' = rr_id r" "\<not> due today r'" "made s1 = made s @ [t]" "realises (rule_command r) t"
    "rules s1 = map (\<lambda>x. if rr_id x = rr_id r then r' else x) (rules s)"
    using fire_one [of s r today now] Cons.prems(1,3,4,6) by auto
  have sub: "set ps \<subseteq> set (rules s1)"
  proof
    fix p assume p: "p \<in> set ps"
    then have "rr_id p \<noteq> rr_id r" using Cons.prems(2) by (metis distinct.simps(2) image_eqI list.simps(9) set_map)
    moreover have "p \<in> set (rules s)" using Cons.prems(3) p by auto
    ultimately show "p \<in> set (rules s1)" by (force simp: f(7))
  qed
  have acc: "accepts ps" using Cons.prems(5) by (simp add: accepts_def)
  obtain s' ts where s': "fire_pending create save today now ps failed s1 = Inr (failed, s')" "inv s'"
    "made s' = made s1 @ ts" "list_all2 (\<lambda>r t. realises (rule_command r) t) ps ts"
    "filter (due today) (rules s') = filter (\<lambda>x. due today x \<and> rr_id x \<notin> rr_id ` set ps) (rules s1)"
    "filter (\<lambda>x. rr_id x \<notin> rr_id ` set ps) (rules s') = filter (\<lambda>x. rr_id x \<notin> rr_id ` set ps) (rules s1)"
    using Cons.IH [OF f(2) _ sub _ acc Cons.prems(6)] Cons.prems(2,4) by auto
  have old: "filter (\<lambda>x. P x \<and> rr_id x \<notin> insert (rr_id r) A) (map (\<lambda>x. if rr_id x = rr_id r then r' else x) xs) =
      filter (\<lambda>x. P x \<and> rr_id x \<notin> insert (rr_id r) A) xs" for P A xs
    by (induction xs) (auto simp: f(3))
  have "filter (due today) (rules s') =
      filter (\<lambda>x. due today x \<and> rr_id x \<notin> rr_id ` set (r # ps)) (rules s)"
  proof -
    have "filter (\<lambda>x. due today x \<and> rr_id x \<notin> A) (map (\<lambda>x. if rr_id x = rr_id r then r' else x) xs) =
        filter (\<lambda>x. due today x \<and> rr_id x \<notin> insert (rr_id r) A) xs" for A xs
      by (induction xs) (auto simp: f(4))
    then show ?thesis by (simp add: s'(5) f(7))
  qed
  moreover have "filter (\<lambda>x. rr_id x \<notin> rr_id ` set (r # ps)) (rules s') =
      filter (\<lambda>x. rr_id x \<notin> rr_id ` set (r # ps)) (rules s)"
  proof -
    have "filter (\<lambda>x. rr_id x \<notin> rr_id ` set (r # ps)) (rules s') =
        filter (\<lambda>x. rr_id x \<noteq> rr_id r) (filter (\<lambda>x. rr_id x \<notin> rr_id ` set ps) (rules s'))"
      by (simp add: conj_commute)
    also have "\<dots> = filter (\<lambda>x. rr_id x \<notin> rr_id ` set (r # ps)) (rules s1)"
      unfolding s'(6) by (simp add: conj_commute)
    also have "\<dots> = filter (\<lambda>x. rr_id x \<notin> rr_id ` set (r # ps)) (rules s)"
      using old [of "\<lambda>_. True" "rr_id ` set ps" "rules s"] by (simp add: f(7))
    finally show ?thesis .
  qed
  moreover have "made s' = made s @ t # ts" using s'(3) f(5) by simp
  ultimately show ?case
    using f s' by (intro exI [of _ s'] exI [of _ "t # ts"]) simp
qed (auto simp: filter_False)

lemma fire_batches_all:
  assumes "inv s" "\<forall>r\<in>set (rules s). due today r \<longrightarrow> rule_wf r"
    and "accepts (filter (due today) (rules s))" "date_year today < 9999"
    and "length (filter (due today) (rules s)) \<le> fire_batch_size * n"
  shows "\<exists>s' fired ts. fire_batches create save fetch today now n [] s = Inr s' \<and> inv s' \<and>
    made s' = made s @ ts \<and> list_all2 (\<lambda>r t. realises (rule_command r) t) fired ts \<and>
    fired = filter (due today) (rules s) \<and> filter (due today) (rules s') = []"
  using assms
proof (induction n arbitrary: s)
  case (Suc n)
  define ps where "ps = take fire_batch_size (filter (due today) (rules s))"
  define later where "later = drop fire_batch_size (filter (due today) (rules s))"
  have split: "filter (due today) (rules s) = ps @ later" by (simp add: ps_def later_def)
  have fetch: "fetch today fire_batch_size s = ps" using fetch_rules Suc.prems(1) by (simp add: ps_def)
  show ?case
  proof (cases "ps = []")
    case True
    then have "filter (due today) (rules s) = []"
      by (auto simp: ps_def fire_batch_size_def)
    then show ?thesis using True fetch Suc.prems(1) by (intro exI [of _ s]) simp
  next
    case False
    have d: "distinct (map rr_id (ps @ later))"
      using rules_distinct [OF Suc.prems(1)] by (simp only: split [symmetric] distinct_map_filter)
    have members: "set (ps @ later) \<subseteq> set (rules s)" "\<forall>r\<in>set (ps @ later). due today r \<and> rule_wf r"
      using Suc.prems(2) by (simp_all only: split [symmetric]) auto
    have acc: "accepts ps" "accepts later"
      using Suc.prems(3) unfolding split by (auto simp: accepts_def)
    obtain s1 ts where s1: "fire_pending create save today now ps [] s = Inr ([], s1)" "inv s1"
      "made s1 = made s @ ts" "list_all2 (\<lambda>r t. realises (rule_command r) t) ps ts"
      "filter (due today) (rules s1) = filter (\<lambda>x. due today x \<and> rr_id x \<notin> rr_id ` set ps) (rules s)"
      using fire_pending_all [of s ps today now "[]"] Suc.prems(1,4) d members acc by auto
    have "filter (\<lambda>x. due today x \<and> rr_id x \<notin> rr_id ` set ps) (rules s) =
        filter (\<lambda>x. rr_id x \<notin> rr_id ` set ps) (filter (due today) (rules s))"
      by (simp add: conj_commute)
    also have "\<dots> = later"
    proof -
      have "filter (\<lambda>x. rr_id x \<notin> rr_id ` set ps) ps = []" by (simp add: filter_empty_conv)
      moreover have "filter (\<lambda>x. rr_id x \<notin> rr_id ` set ps) later = later"
        using d by (auto simp: filter_id_conv)
      ultimately show ?thesis unfolding split filter_append by simp
    qed
    finally have rest: "filter (due today) (rules s1) = later" using s1(5) by simp
    have "\<exists>s' fired ts. fire_batches create save fetch today now n [] s1 = Inr s' \<and> inv s' \<and>
        made s' = made s1 @ ts \<and> list_all2 (\<lambda>r t. realises (rule_command r) t) fired ts \<and>
        fired = filter (due today) (rules s1) \<and> filter (due today) (rules s') = []"
    proof (rule Suc.IH)
      show "\<forall>r\<in>set (rules s1). due today r \<longrightarrow> rule_wf r"
      proof (intro ballI impI)
        fix r assume "r \<in> set (rules s1)" "due today r"
        then have "r \<in> set (filter (due today) (rules s1))" by simp
        then show "rule_wf r" using members(2) unfolding rest by simp
      qed
      show "length (filter (due today) (rules s1)) \<le> fire_batch_size * n"
        using Suc.prems(5) unfolding rest by (simp add: later_def)
    qed (use s1(2) acc(2) rest Suc.prems(4) in auto)
    then obtain s' ts' where "fire_batches create save fetch today now n [] s1 = Inr s'" "inv s'"
      "made s' = made s1 @ ts'" "list_all2 (\<lambda>r t. realises (rule_command r) t) later ts'"
      "filter (due today) (rules s') = []"
      using rest by auto
    then show ?thesis
      using s1 False fetch unfolding split
      by (intro exI [of _ s'] exI [of _ "ps @ later"] exI [of _ "ts @ ts'"])
        (auto simp: Let_def list_all2_appendI)
  qed
qed (auto simp: fire_batch_size_def)

end

section \<open>The session as a rule store\<close>

text \<open>\<open>rows\<close> and \<open>cats\<close> are the flushed transactions and the categories, which the job does not
  change.\<close>

definition session_inv :: "nat \<Rightarrow> transaction list \<Rightarrow> category list \<Rightarrow> rule_session \<Rightarrow> bool" where
  "session_inv base rows cats s =
     (ld_rows (rs_ledger s) = rows \<and> ld_categories (rs_ledger s) = cats \<and>
      distinct (map rr_id (rs_rows s)) \<and> distinct (map rr_id (rs_objects s)) \<and>
      map tx_id (ld_pending (rs_ledger s)) =
        map (\<lambda>k. TransactionId (base + k)) [0..<length (ld_pending (rs_ledger s))])"

definition realises :: "create_transaction_command \<Rightarrow> transaction \<Rightarrow> bool" where
  "realises cmd t =
     (tx_user t = ct_user cmd \<and> tx_date t = ct_date cmd \<and> tx_rule t = ct_rule cmd \<and>
      tx_merchant t = ct_merchant cmd \<and> tx_notes t = ct_notes cmd \<and>
      transaction_type_of (ct_type cmd) = Inr (tx_type t) \<and>
      optional_category (ct_raw_category cmd) = Inr (tx_category t) \<and>
      bindR (mk_currency (ct_currency cmd)) (money_from_string (ct_raw_amount cmd)) = Inr (tx_amount t))"

definition session_made :: "rule_session \<Rightarrow> transaction list" where
  "session_made s = ld_pending (rs_ledger s)"

lemma session_object_flushed:
  assumes "distinct (map rr_id (rs_objects s))" "r \<in> set (flushed_rules s)"
  shows "session_object s r = r"
proof (cases "find_by (\<lambda>q. rr_id q = rr_id r) (rs_objects s)")
  case (Some q)
  then have "q \<in> set (rs_objects s)" "rr_id q = rr_id r" using find_by_Some [OF Some] by auto
  then have "r = q"
    using fold_upsert_object [OF assms(1)] assms(2) by (metis flushed_rules_def)
  then show ?thesis using Some by (simp add: session_object_def)
qed (simp add: session_object_def)

lemma fetch_flushed:
  assumes "distinct (map rr_id (rs_objects s))"
  shows "fetch_due bind_text True d n s = take n (filter (due d) (flushed_rules s))"
proof -
  have "map (session_object s) (take n (filter (due d) (flushed_rules s))) =
      take n (filter (due d) (flushed_rules s))"
    using session_object_flushed [OF assms] by (auto intro!: map_idI dest!: in_set_takeD)
  then show ?thesis by (simp add: fetch_due_def)
qed

lemma create_in_session_Inr:
  assumes "create_in_session plan_of base now c s = Inr s'" "session_inv base rows cats s"
  shows "session_inv base rows cats s' \<and> rs_rows s' = rs_rows s \<and> rs_objects s' = rs_objects s \<and>
    (\<exists>t. session_made s' = session_made s @ [t] \<and> realises c t)"
proof -
  let ?i = "TransactionId (base + length (ld_pending (rs_ledger s)))"
  obtain j l where "create_transaction plan_of c ?i now (rs_ledger s) = Inr (j, l)"
    and s': "s' = s\<lparr>rs_ledger := l\<rparr>"
    using assms(1) by (auto simp: create_in_session_def bindR_Inr_iff)
  then have "\<exists>t. l = record_event TRANSACTION_CREATED (ct_user c) now (save_tx t (rs_ledger s)) \<and>
      tx_id t = ?i \<and> realises c t"
    by (elim create_transaction_Inr) (auto simp: realises_def)
  then obtain t where l: "l = record_event TRANSACTION_CREATED (ct_user c) now (save_tx t (rs_ledger s))"
    and t: "tx_id t = ?i" "realises c t" by blast
  have ids: "map tx_id (ld_pending (rs_ledger s)) =
      map (\<lambda>k. TransactionId (base + k)) [0..<length (ld_pending (rs_ledger s))]"
    using assms(2) by (simp add: session_inv_def)
  have "?i \<notin> set (map tx_id (ld_pending (rs_ledger s)))" unfolding ids by auto
  then have "ld_pending l = ld_pending (rs_ledger s) @ [t]"
    by (simp add: l record_event_def save_tx_def upsert_new t(1))
  then show ?thesis
    using assms(2) s' t by (auto simp: session_inv_def session_made_def ids l record_event_def save_tx_def)
qed

interpretation ryw: rule_store "fetch_due bind_text True" save_rule "create_in_session plan_of base now"
    "session_inv base rows cats" flushed_rules session_made realises
  for plan_of base now rows cats
proof (unfold_locales, goal_cases)
  case (1 s)
  then show ?case unfolding flushed_rules_def by (intro fold_upsert_distinct) (simp add: session_inv_def)
next
  case (2 s d n)
  then show ?case by (intro fetch_flushed) (simp add: session_inv_def)
next
  case (3 s r)
  then show ?case by (simp add: session_inv_def save_rule_def upsert_distinct)
next
  case (4 s r)
  then show ?case
    by (simp add: flushed_rules_def save_rule_def session_inv_def fold_upsert_upsert upsert_old)
next
  case (5 r s)
  then show ?case by (simp add: session_made_def save_rule_def)
next
  case (6 s c s')
  then show ?case using create_in_session_Inr by blast
next
  case (7 c s s')
  then show ?case by (auto simp: create_in_session_def bindR_Inr_iff flushed_rules_def)
next
  case (8 s c s')
  then show ?case using create_in_session_Inr by blast
qed

text \<open>The transaction use case accepts a rule whose amount and category it would store, while the
  quota is not used up.\<close>

definition rule_accepted ::
  "(user_id \<Rightarrow> plan) \<Rightarrow> datetime \<Rightarrow> transaction list \<Rightarrow> category list \<Rightarrow> rule \<Rightarrow> bool" where
  "rule_accepted plan_of now rows cats r =
     (valid_money (rr_amount r) \<and>
      (\<forall>c. rr_category r = Some c \<longrightarrow> case_category_id id c < 2 ^ 128) \<and>
      check_assignable (rr_category r) (rr_user r) cats = Inr () \<and>
      check_quota tx_user tx_created_at Q_TRANSACTIONS (rr_user r) (plan_of (rr_user r)) now rows = Inr ())"

lemma optional_category_str:
  assumes "\<forall>c. ci = Some c \<longrightarrow> case_category_id id c < 2 ^ 128"
  shows "optional_category (map_option (\<lambda>c. uuid_str (case_category_id id c)) ci) = Inr ci"
proof (cases ci)
  case (Some c)
  then obtain u where u: "ci = Some (CategoryId u)" "u < 2 ^ 128" using assms by (cases c) auto
  have "uuid_str u \<noteq> []" by (simp add: uuid_str_def Let_def)
  then show ?thesis
    using parse_uuid_str [OF u(2)] u(1) by (simp add: optional_category_def truthy_def category_id_of_def)
qed (simp add: optional_category_def truthy_def)

lemma rule_accepted_creates:
  assumes "rule_accepted plan_of now rows cats r" "session_inv base rows cats s"
  shows "\<exists>s'. create_in_session plan_of base now (rule_command r) s = Inr s'"
proof -
  have l: "ld_rows (rs_ledger s) = rows" "ld_categories (rs_ledger s) = cats"
    using assms(2) by (simp_all add: session_inv_def)
  have m: "valid_money (rr_amount r)" "valid_currency (currency (rr_amount r))"
    using assms(1) by (simp_all add: rule_accepted_def valid_money_def)
  show ?thesis
    using assms(1) money_from_string_print [OF m(1)] m(2) optional_category_str [of "rr_category r"] l
    by (simp add: create_in_session_def create_transaction_def rule_command_def rule_accepted_def)
qed

lemma rule_accepted_moved [simp]:
  "rule_accepted plan_of now rows cats (moved_rule now' r d) = rule_accepted plan_of now rows cats r"
  by (simp add: rule_accepted_def)

section \<open>Without autoflush\<close>

lemma session_object_saved [simp]:
  "rr_id o' = rr_id r \<Longrightarrow> session_object (save_rule o' s) r = o'"
  using upsert_mem [of o' rr_id "rs_objects s"] upsert_same [of _ rr_id o' "rs_objects s"]
  by (auto simp: session_object_def save_rule_def find_by_None split: option.split dest!: find_by_Some)

lemma weekly_advanced:
  assumes "rule_wf q" "rr_recurrence q = R_WEEKLY"
    and "valid_date today" "toordinal today + 7 \<le> max_ordinal" "date_year today < 9999"
    and "toordinal (rr_next_fire_date q) + 7 \<le> max_ordinal"
  shows "\<exists>d. advanced_rule today now q = Inr (moved_rule now q d) \<and> valid_date d \<and> today < d \<and>
    rule_wf (moved_rule now q d) \<and>
    toordinal d \<le> max (toordinal (rr_next_fire_date q)) (toordinal today) + 7"
proof (cases "rr_next_fire_date q \<le> today")
  case True
  obtain d where d: "advanced_rule today now q = Inr (moved_rule now q d)"
    using advanced_rule_total [OF assms(1) True assms(5), of now] by (auto simp: advanced_rule_iff)
  have n: "next_scheduled_after R_WEEKLY (rr_day_of_month q) (rr_day_of_week q) (rr_month q) today d"
    using advanced_rule_next [OF d assms(1) True] assms(2) by simp
  have w: "rule_wf (moved_rule now q d)" "today < d"
    using advanced_rule_wf [OF d assms(1) True] by simp_all
  obtain w' where w': "rr_day_of_week q = Some w'" "0 \<le> w'" "w' \<le> 6"
    using assms(1,2) by (auto simp: rule_wf_def validate_schedule_iffs)
  have "toordinal today + 1 \<le> max_ordinal" using assms(4) by simp
  then obtain t1 where t1: "add_days today 1 = Inr t1" "valid_date t1" "toordinal t1 = toordinal today + 1"
    using add_days_valid(1) [OF assms(3), of 1] by auto
  define k where "k = nat ((w' - weekday t1) mod 7)"
  have k: "int k < 7" by (simp add: k_def)
  obtain x where x: "valid_date x" "toordinal x = toordinal t1 + int k"
    using add_days_valid(1) [OF t1(2), of k] k t1(3) assms(4) by auto
  have "weekday x = w'"
    using weekday_first(1) [of w' "toordinal x" "toordinal t1"] w' x(2)
    by (simp add: weekday_def k_def)
  moreover have "today < x" using toordinal_less_iff [OF assms(3) x(1)] x(2) t1(3) by simp
  ultimately have "d \<le> x"
    using n x(1) w'(1) by (simp add: next_scheduled_after_def scheduled_def)
  then have "toordinal d \<le> toordinal x"
    using toordinal_le_iff [OF _ x(1), of d] n by (simp add: next_scheduled_after_def)
  then show ?thesis
    using d w n k x(2) t1(3) by (intro exI [of _ d]) (auto simp: next_scheduled_after_def)
next
  case False
  have v: "valid_date (rr_next_fire_date q)" using assms(1) by (simp add: rule_wf_def)
  obtain d where d: "add_days (rr_next_fire_date q) 7 = Inr d" "valid_date d"
    "toordinal d = toordinal (rr_next_fire_date q) + 7"
    using add_days_valid(1) [OF v, of 7] assms(6) by auto
  have "rr_next_fire_date q < d" using toordinal_less_iff [OF v d(2)] d(3) by simp
  then have lt: "today < d" using False by simp
  have a: "advanced_rule today now q = Inr (moved_rule now q d)"
    using d(1) lt assms(2)
    by (auto simp: advanced_rule_iff advance_next_fire_date_def skip_missed.simps)
  have "scheduled R_WEEKLY (rr_day_of_month q) (rr_day_of_week q) (rr_month q) d"
    using advance_weekly [OF v d(1)] assms(1,2)
    by (auto simp: rule_wf_def rule_scheduled_def scheduled_def next_scheduled_after_def)
  then have "rule_wf (moved_rule now q d)"
    using assms(1,2) d(2) by (simp add: rule_wf_def rule_scheduled_def)
  then show ?thesis using a d lt by auto
qed

lemma refire_once:
  assumes "session_inv base rows cats s" "rs_rows s = [r]" "due today r" "session_object s r = q"
    and "rr_id q = rr_id r" "rule_wf q" "rr_recurrence q = R_WEEKLY"
    and "rule_accepted plan_of now rows cats q"
    and "valid_date today" "toordinal today + 7 \<le> max_ordinal" "date_year today < 9999"
    and "toordinal (rr_next_fire_date q) + 7 \<le> max_ordinal"
  shows "\<exists>s' t d. fetch_due bind_text False today fire_batch_size s = [q] \<and>
    fire_pending (create_in_session plan_of base now) save_rule today now [q] [] s = Inr ([], s') \<and>
    session_inv base rows cats s' \<and> rs_rows s' = [r] \<and> session_made s' = session_made s @ [t] \<and>
    tx_date t = rr_next_fire_date q \<and> tx_rule t = Some (rr_id r) \<and>
    session_object s' r = moved_rule now q d \<and> rule_wf (moved_rule now q d) \<and> today < d \<and>
    toordinal d \<le> max (toordinal (rr_next_fire_date q)) (toordinal today) + 7"
proof -
  obtain d where d: "advanced_rule today now q = Inr (moved_rule now q d)" "today < d"
    "rule_wf (moved_rule now q d)"
    "toordinal d \<le> max (toordinal (rr_next_fire_date q)) (toordinal today) + 7"
    using weekly_advanced [OF assms(6,7,9-12)] by blast
  obtain s1 where s1: "create_in_session plan_of base now (rule_command q) s = Inr s1"
    using rule_accepted_creates [OF assms(8,1)] by blast
  obtain t where t: "session_inv base rows cats s1" "rs_rows s1 = rs_rows s"
    "session_made s1 = session_made s @ [t]" "realises (rule_command q) t"
    using create_in_session_Inr [OF s1 assms(1)] by blast
  let ?s' = "save_rule (moved_rule now q d) s1"
  have "fire_pending (create_in_session plan_of base now) save_rule today now [q] [] s = Inr ([], ?s')"
    using s1 d(1) by (simp add: fire_rule_def)
  moreover have "fetch_due bind_text False today fire_batch_size s = [q]"
    using assms(2-4) by (simp add: fetch_due_def fire_batch_size_def)
  moreover have "session_inv base rows cats ?s'" "rs_rows ?s' = [r]" "session_made ?s' = session_made s @ [t]"
    using t assms(2) by (simp_all add: save_rule_def session_inv_def session_made_def upsert_distinct)
  moreover have "tx_date t = rr_next_fire_date q" "tx_rule t = Some (rr_id r)"
    using t(4) assms(5) by (simp_all add: realises_def rule_command_def)
  ultimately show ?thesis
    using d assms(5) by (intro exI [of _ ?s'] exI [of _ t] exI [of _ d]) simp
qed

lemma refire_batches:
  assumes "session_inv base rows cats s" "rs_rows s = [r]" "due today r"
    and "rr_id (session_object s r) = rr_id r" "rule_wf (session_object s r)"
    and "rr_recurrence (session_object s r) = R_WEEKLY"
    and "rule_accepted plan_of now rows cats (session_object s r)"
    and "valid_date today" "date_year today < 9999"
    and "max (toordinal (rr_next_fire_date (session_object s r))) (toordinal today) + 7 * int n \<le> max_ordinal"
  shows "\<exists>s' ts. fire_batches (create_in_session plan_of base now) save_rule (fetch_due bind_text False) today now n [] s
      = Inr s' \<and> session_made s' = session_made s @ ts \<and> length ts = n \<and>
    (\<forall>t\<in>set ts. tx_rule t = Some (rr_id r)) \<and>
    (today < rr_next_fire_date (session_object s r) \<longrightarrow> (\<forall>t\<in>set ts. today < tx_date t)) \<and>
    (\<forall>t\<in>set (tl ts). today < tx_date t)"
  using assms
proof (induction n arbitrary: s)
  case (Suc n)
  define q where "q = session_object s r"
  have "toordinal today + 7 \<le> max_ordinal" "toordinal (rr_next_fire_date q) + 7 \<le> max_ordinal"
    using Suc.prems(10) by (simp_all add: q_def)
  then obtain s1 t d where st: "fetch_due bind_text False today fire_batch_size s = [q]"
    "fire_pending (create_in_session plan_of base now) save_rule today now [q] [] s = Inr ([], s1)"
    "session_inv base rows cats s1" "rs_rows s1 = [r]" "session_made s1 = session_made s @ [t]"
    "tx_date t = rr_next_fire_date q" "tx_rule t = Some (rr_id r)"
    "session_object s1 r = moved_rule now q d" "rule_wf (moved_rule now q d)" "today < d"
    "toordinal d \<le> max (toordinal (rr_next_fire_date q)) (toordinal today) + 7"
    using refire_once [of base rows cats s r today q plan_of now] Suc.prems(1-9) q_def by auto
  have "\<exists>s' ts. fire_batches (create_in_session plan_of base now) save_rule (fetch_due bind_text False) today now n [] s1
      = Inr s' \<and> session_made s' = session_made s1 @ ts \<and> length ts = n \<and>
    (\<forall>t\<in>set ts. tx_rule t = Some (rr_id r)) \<and>
    (today < rr_next_fire_date (session_object s1 r) \<longrightarrow> (\<forall>t\<in>set ts. today < tx_date t)) \<and>
    (\<forall>t\<in>set (tl ts). today < tx_date t)"
  proof (rule Suc.IH [OF st(3,4) Suc.prems(3)])
    show "max (toordinal (rr_next_fire_date (session_object s1 r))) (toordinal today) + 7 * int n
        \<le> max_ordinal"
      using Suc.prems(10) st(8,11) by (simp add: q_def)
  qed (use st Suc.prems(4-9) in \<open>simp_all add: q_def\<close>)
  then obtain s' ts where "fire_batches (create_in_session plan_of base now) save_rule (fetch_due bind_text False)
      today now n [] s1 = Inr s'" "session_made s' = session_made s1 @ ts" "length ts = n"
    "\<forall>t\<in>set ts. tx_rule t = Some (rr_id r)" "\<forall>t\<in>set ts. today < tx_date t"
    using st(8,10) by auto
  then show ?case
    using st q_def by (intro exI [of _ s'] exI [of _ "t # ts"]) (simp add: Let_def)
qed simp

lemma fire_pending_refused:
  assumes "\<forall>r\<in>set ps. \<exists>e. create (rule_command r) s = Inl e"
  shows "\<exists>failed'. fire_pending create save today now ps failed s = Inr (failed', s) \<and>
    set failed' = set failed \<union> rr_id ` set ps"
  using assms
proof (induction ps arbitrary: failed)
  case (Cons r ps)
  then obtain e where "create (rule_command r) s = Inl e" by auto
  then show ?case using Cons.IH [of "rr_id r # failed"] Cons.prems by (auto simp: fire_rule_def)
qed simp

section \<open>Properties\<close>

text \<open>A rule the service accepts is stored active, with an amount that is a valid \<open>Money\<close>, and its
  next fire date is the first date of its schedule on or after its start.\<close>

theorem created_rule_starts_on_schedule:
  assumes "create_rule cmd i now s = Inr (j, s')" "valid_date (cr_start_date cmd)"
  shows "\<exists>r. s' = save_rule r s \<and> rr_id r = i \<and> rule_wf r \<and> valid_money (rr_amount r) \<and>
    rr_status r = RS_ACTIVE \<and>
    next_scheduled_from (rr_recurrence r) (rr_day_of_month r) (rr_day_of_week r) (rr_month r)
      (cr_start_date cmd) (rr_next_fire_date r)"
  by (rule create_rule_wf [OF assms])

definition empty_session :: rule_session where
  "empty_session = \<lparr>rs_rows = [], rs_objects = [], rs_ledger = empty_ledger\<rparr>"

definition sample_rule_command :: create_rule_command where
  "sample_rule_command = \<lparr>cr_user = UserId 1, cr_raw_amount = ''5'', cr_currency = ''JPY'',
     cr_type = ''expense'', cr_recurrence = ''monthly'', cr_start_date = Date 2024 1 31,
     cr_day_of_month = Some 15, cr_day_of_week = None, cr_month = None, cr_merchant = None,
     cr_notes = None, cr_raw_category = None, cr_end_date = None\<rparr>"

lemma created_rule_starts_on_schedule_witness:
  "\<exists>r s'. create_rule sample_rule_command (RecurringRuleId 1) (Date 2024 1 1, 0) empty_session =
      Inr (RecurringRuleId 1, s') \<and> s' = save_rule r empty_session \<and> rule_wf r"
proof -
  have "\<exists>s'. create_rule sample_rule_command (RecurringRuleId 1) (Date 2024 1 1, 0) empty_session =
      Inr (RecurringRuleId 1, s')"
    by (simp add: create_rule_def sample_rule_command_def sample_money recurrence_of_def
        validate_schedule_def compute_first_fire_date_def clamped_date_def monthrange_days_def
        mk_date_def days_in_month_def is_leap_def optional_category_def truthy_def
        transaction_type_of_def Let_def)
  then obtain s' where s': "create_rule sample_rule_command (RecurringRuleId 1) (Date 2024 1 1, 0)
      empty_session = Inr (RecurringRuleId 1, s')" by blast
  have "valid_date (cr_start_date sample_rule_command)"
    by (simp add: sample_rule_command_def days_in_month_def)
  from created_rule_starts_on_schedule [OF s' this] s' show ?thesis by blast
qed


definition sample_rule :: "nat \<Rightarrow> category_id option \<Rightarrow> rule" where
  "sample_rule k ci = \<lparr>rr_id = RecurringRuleId k, rr_user = UserId 1,
     rr_amount = Money (Dec False 5 0) (Currency ''JPY'' 0), rr_type = TT_EXPENSE,
     rr_merchant = None, rr_notes = None, rr_category = ci, rr_recurrence = R_WEEKLY,
     rr_day_of_month = None, rr_day_of_week = Some 0, rr_month = None,
     rr_start_date = Date 2024 1 1, rr_end_date = None, rr_status = RS_ACTIVE,
     rr_next_fire_date = Date 2024 1 1, rr_created_at = (Date 2024 1 1, 0), rr_updated_at = None\<rparr>"

lemma sample_rule_wf: "rule_wf (sample_rule k ci)" "due (Date 2024 1 10) (sample_rule k ci)"
  by (simp_all add: rule_wf_def rule_scheduled_def sample_rule_def scheduled_def weekday_def
      toordinal_def days_before_year_def days_before_month_def days_in_month_def
      validate_schedule_def due_def)

lemma sample_valid_money: "valid_money (Money (Dec False 5 0) (Currency ''JPY'' 0))"
  using sample_money mk_money_valid mk_currency_valid [OF sample_money(2)]
  by (auto simp: money_from_string_def split: option.splits)

lemma sample_rule_accepted:
  "rule_accepted (\<lambda>_. FREE) (Date 2024 1 10, 0) [] cats (sample_rule k None)"
  by (simp add: rule_accepted_def sample_rule_def sample_valid_money check_assignable_def
      check_quota_def count_in_month_def plan_limit_def Let_def)

definition sample_session :: rule_session where
  "sample_session = empty_session\<lparr>rs_rows := [sample_rule 1 None]\<rparr>"

lemma sample_session:
  "session_inv 0 [] [] sample_session" "flushed_rules sample_session = [sample_rule 1 None]"
  "session_made sample_session = []" "rs_rows sample_session = [sample_rule 1 None]"
  "rs_objects sample_session = []"
  by (simp_all add: sample_session_def session_inv_def empty_session_def empty_ledger_def
      flushed_rules_def session_made_def)


text \<open>As the column is mapped, the job never fires: the query compares the status column with a
  plain string, which the column type binds as NULL, so no row is due on any date, and a run leaves the
  session as it was.\<close>

theorem no_rule_ever_fires:
  "fire_due_rules create save (fetch_due (bind_param RecurringRuleStatusType) autoflush) today now s = Inr s"
proof -
  have "fetch_due (bind_param RecurringRuleStatusType) autoflush today fire_batch_size s = []"
    by (simp add: fetch_due_def)
  then have "fire_batches create save (fetch_due (bind_param RecurringRuleStatusType) autoflush) today now
      (Suc n) [] s = Inr s" for n by simp
  from this [of "fire_max_batches - 1"] show ?thesis
    by (simp add: fire_due_rules_def fire_max_batches_def)
qed

text \<open>Were the literal bound as text, the worker's session, which is built with autoflush off, would still
  keep reading the rows as they were: a due weekly rule is fetched again by every one of the 100 batches
  and fired 100 times in one run, all but the first of its transactions dated in the future.\<close>

theorem due_rule_fires_hundred_times:
  assumes "session_inv base rows cats s" "rs_rows s = [r]" "rs_objects s = []"
    and "due today r" "rule_wf r" "rr_recurrence r = R_WEEKLY"
    and "rule_accepted plan_of now rows cats r" "valid_date today" "date_year today < 9990"
  shows "\<exists>s' ts. fire_due_rules (create_in_session plan_of base now) save_rule (fetch_due bind_text False) today now s
      = Inr s' \<and> session_made s' = session_made s @ ts \<and> length ts = 100 \<and>
    (\<forall>t\<in>set ts. tx_rule t = Some (rr_id r)) \<and> (\<forall>t\<in>set (tl ts). today < tx_date t)"
proof -
  have o: "session_object s r = r" using assms(3) by (simp add: session_object_def)
  have m: "valid_date (Date 9990 1 1)" by (simp add: days_in_month_def)
  have "today < Date 9990 1 1" using assms(9) by (simp add: less_date_def)
  then have "toordinal today < toordinal (Date 9990 1 1)" using toordinal_less assms(8) m by blast
  then have "toordinal today + 700 \<le> max_ordinal"
    by (simp add: toordinal_def [of "Date 9990 1 1"] days_before_year_def days_before_month_def max_ordinal_def)
  moreover have "toordinal (rr_next_fire_date r) \<le> toordinal today"
    using toordinal_le_iff assms(4,5,8) by (simp add: due_def rule_wf_def)
  ultimately show ?thesis
    using refire_batches [OF assms(1,2,4), of plan_of now fire_max_batches] assms(5-9)
    unfolding fire_due_rules_def o by (auto simp: fire_max_batches_def)
qed

lemma due_rule_fires_hundred_times_witness:
  "\<exists>s' ts. fire_due_rules (create_in_session (\<lambda>_. FREE) 0 (Date 2024 1 10, 0)) save_rule (fetch_due bind_text False)
      (Date 2024 1 10) (Date 2024 1 10, 0) sample_session = Inr s' \<and>
    session_made s' = ts \<and> length ts = 100"
proof -
  have "rr_recurrence (sample_rule 1 None) = R_WEEKLY" by (simp add: sample_rule_def)
  moreover have "valid_date (Date 2024 1 10)" by (simp add: days_in_month_def)
  ultimately show ?thesis
    using due_rule_fires_hundred_times [OF sample_session(1,4,5) sample_rule_wf(2,1) _ sample_rule_accepted]
    by (auto simp: sample_session(3))
qed

text \<open>The query has no order and takes 50 rows: once the 50 due rules it returns are all refused,
  the job stops without firing anything, in this run and in every later one, although further rules
  are due.\<close>

theorem refused_rules_starve_the_rest:
  assumes "take 50 (filter (due today) (rs_rows s)) \<noteq> []" "rs_objects s = []"
    and "\<forall>r\<in>set (take 50 (filter (due today) (rs_rows s))). \<exists>e. create_in_session plan_of base now (rule_command r) s = Inl e"
  shows "fire_due_rules (create_in_session plan_of base now) save_rule (fetch_due bind_text False) today now s = Inr s"
proof -
  define ps where "ps = take 50 (filter (due today) (rs_rows s))"
  have "map (session_object s) ps = ps"
    using assms(2) by (intro map_idI) (simp add: session_object_def)
  then have f: "fetch_due bind_text False today fire_batch_size s = ps"
    by (simp add: fetch_due_def fire_batch_size_def ps_def)
  obtain failed where "fire_pending (create_in_session plan_of base now) save_rule today now ps [] s =
      Inr (failed, s)" "set failed = rr_id ` set ps"
    using fire_pending_refused [of ps "create_in_session plan_of base now" s save_rule today now "[]"]
      assms(3) by (auto simp: ps_def)
  moreover have "filter (\<lambda>r. rr_id r \<notin> rr_id ` set ps) ps = []" by (simp add: filter_empty_conv)
  moreover have "filter (\<lambda>r. rr_id r \<notin> set []) ps = ps" by simp
  ultimately have two: "fire_batches (create_in_session plan_of base now) save_rule (fetch_due bind_text False)
      today now (Suc (Suc n)) [] s = Inr s" for n
    using assms(1) f by (simp add: Let_def flip: ps_def)
  have "fire_max_batches = Suc (Suc 98)" by (simp add: fire_max_batches_def)
  then show ?thesis unfolding fire_due_rules_def by (metis two)
qed

definition starving_session :: "nat list \<Rightarrow> rule_session" where
  "starving_session ks =
     \<lparr>rs_rows = map (\<lambda>k. sample_rule k (Some (CategoryId 1))) ks @ [sample_rule 50 None],
      rs_objects = [], rs_ledger = empty_ledger\<lparr>ld_categories := [sample_group]\<rparr>\<rparr>"

lemma starving_refused:
  "\<exists>e. create_in_session (\<lambda>_. FREE) 0 (Date 2024 1 10, 0)
     (rule_command (sample_rule k (Some (CategoryId 1)))) (starving_session ks) = Inl e"
proof -
  have u: "parse_uuid (uuid_str 1) = Some 1" "uuid_str 1 \<noteq> []"
    using parse_uuid_str [of 1] by (simp_all add: uuid_str_def Let_def)
  have "dec_str (Dec False 5 0) = ''5''" by code_simp
  then show ?thesis using u
    by (simp add: create_in_session_def create_transaction_def rule_command_def sample_rule_def
        sample_money check_quota_def count_in_month_def empty_ledger_def plan_limit_def
        optional_category_def truthy_def category_id_of_def check_assignable_def
        get_by_id_for_user_def sample_group_def category_visible_def validate_assignable_def
        is_group_def transaction_type_of_def starving_session_def Let_def del: dec_str.simps)
qed

lemma starving_due:
  assumes "length ks = 50"
  shows "take 50 (filter (due (Date 2024 1 10)) (rs_rows (starving_session ks))) =
    map (\<lambda>k. sample_rule k (Some (CategoryId 1))) ks"
proof -
  have "filter (due (Date 2024 1 10)) (rs_rows (starving_session ks)) = rs_rows (starving_session ks)"
    by (auto simp: filter_id_conv starving_session_def sample_rule_wf(2))
  then show ?thesis using assms by (simp add: starving_session_def)
qed

lemma refused_rules_starve_the_rest_witness:
  "fire_due_rules (create_in_session (\<lambda>_. FREE) 0 (Date 2024 1 10, 0)) save_rule (fetch_due bind_text False)
      (Date 2024 1 10) (Date 2024 1 10, 0) (starving_session [0..<50]) = Inr (starving_session [0..<50]) \<and>
    sample_rule 50 None \<in> set (rs_rows (starving_session [0..<50]))"
proof
  have l: "length [0..<50] = 50" by simp
  note d = starving_due [OF l]
  show "fire_due_rules (create_in_session (\<lambda>_. FREE) 0 (Date 2024 1 10, 0)) save_rule (fetch_due bind_text False)
      (Date 2024 1 10) (Date 2024 1 10, 0) (starving_session [0..<50]) = Inr (starving_session [0..<50])"
  proof (rule refused_rules_starve_the_rest)
    show "take 50 (filter (due (Date 2024 1 10)) (rs_rows (starving_session [0..<50]))) \<noteq> []"
      unfolding d by simp
    show "\<forall>r\<in>set (take 50 (filter (due (Date 2024 1 10)) (rs_rows (starving_session [0..<50])))).
        \<exists>e. create_in_session (\<lambda>_. FREE) 0 (Date 2024 1 10, 0) (rule_command r) (starving_session [0..<50]) = Inl e"
      unfolding d using starving_refused by (simp only: set_map) blast
  qed (simp add: starving_session_def)
qed (simp add: starving_session_def)

end
