(* ===== verification/Reports.thy ===== *)
theory Reports
  imports ChatTools
begin

text \<open>The reports: the budget summary of a month and the spending trend by month or ISO week
  (app/domain/value_objects/reporting_period.py, get_budget_summary.py, get_spend_trend.py and their
  SQLAlchemy readers), over the calendar's weeks and the text order of the trend's labels.\<close>

section \<open>Subtraction of days\<close>

definition prev_day :: "date \<Rightarrow> date" where
  "prev_day d =
     (if 1 < date_day d then Date (date_year d) (date_month d) (date_day d - 1)
      else if 1 < date_month d
      then Date (date_year d) (date_month d - 1) (days_in_month (date_year d) (date_month d - 1))
      else Date (date_year d - 1) 12 31)"

definition sub_days :: "date \<Rightarrow> nat \<Rightarrow> exn + date" where
  "sub_days d n = (if toordinal d - int n < 1 then Inl OverflowError else Inr ((prev_day ^^ n) d))"

lemma toordinal_one: "valid_date d \<Longrightarrow> 1 \<le> toordinal d \<and> (toordinal d = 1 \<longrightarrow> d = Date 1 1 1)"
proof -
  assume v: "valid_date d"
  have o: "toordinal (Date 1 1 1) = 1" "valid_date (Date 1 1 1)"
    by (simp_all add: toordinal_def days_before_year_def days_before_month_def days_in_month_def)
  have "Date 1 1 1 \<le> d" using v by (cases d) auto
  then show ?thesis
    using toordinal_le_iff [OF o(2) v] toordinal_less [OF o(2) v] o(1) by (auto simp: le_less)
qed

lemma prev_day_valid:
  assumes "valid_date d" "1 < toordinal d"
  shows "valid_date (prev_day d) \<and> toordinal (prev_day d) = toordinal d - 1"
proof -
  obtain y m k where d: "d = Date y m k" by (cases d)
  have "d \<noteq> Date 1 1 1" using assms(2)
    by (auto simp: toordinal_def days_before_year_def days_before_month_def)
  then have v: "valid_date (prev_day d)" and n: "next_day (prev_day d) = d"
    using assms(1) days_in_month_bounds [of y "m - 1"] days_in_month_bounds [of y m]
    by (auto simp: d prev_day_def next_day_def days_in_month_def)
  have "toordinal (next_day (prev_day d)) = toordinal (prev_day d) + 1"
    using v by (intro toordinal_next_day) (auto simp: valid_date_def)
  then show ?thesis using v n by simp
qed

lemma prev_days:
  "valid_date d \<Longrightarrow> int n < toordinal d \<Longrightarrow>
     valid_date ((prev_day ^^ n) d) \<and> toordinal ((prev_day ^^ n) d) = toordinal d - int n"
proof (induction n)
  case (Suc n)
  then show ?case using prev_day_valid [of "(prev_day ^^ n) d"] by simp
qed simp

lemma sub_days_Inr_iff:
  "valid_date d \<Longrightarrow> sub_days d n = Inr r \<longleftrightarrow>
     valid_date r \<and> toordinal r = toordinal d - int n"
  using prev_days [of d n] toordinal_one [of r] toordinal_less [of r "(prev_day ^^ n) d"]
    toordinal_less [of "(prev_day ^^ n) d" r]
  by (auto simp: sub_days_def) (meson linorder_neqE less_irrefl)+

section \<open>ISO weeks\<close>

text \<open>A week starts on Monday and belongs to the year of its Thursday.\<close>

definition iso_thursday :: "date \<Rightarrow> date" where
  "iso_thursday d = (if weekday d \<le> 3 then (next_day ^^ nat (3 - weekday d)) d
     else (prev_day ^^ nat (weekday d - 3)) d)"

definition iso_year :: "date \<Rightarrow> int" where
  "iso_year d = date_year (iso_thursday d)"

definition iso_week :: "date \<Rightarrow> int" where
  "iso_week d = (toordinal (iso_thursday d) - days_before_year (iso_year d) - 1) div 7 + 1"

definition week_index :: "date \<Rightarrow> int" where
  "week_index d = (toordinal d - 1) div 7"

lemma weekday_index: "toordinal d = 7 * week_index d + weekday d + 1"
  unfolding weekday_def week_index_def by presburger

lemma max_day: "valid_date d \<Longrightarrow> toordinal d \<le> 3652059"
  using toordinal_max by (simp add: max_ordinal_def)

lemma iso_thursday:
  assumes "valid_date d"
  shows "valid_date (iso_thursday d)" "toordinal (iso_thursday d) = 7 * week_index d + 4"
proof -
  note w = weekday_index [of d] weekday_bounds [of d] max_day [OF assms]
  have "valid_date (iso_thursday d) \<and> toordinal (iso_thursday d) = 7 * week_index d + 4"
  proof (cases "weekday d \<le> 3")
    case True
    let ?n = "nat (3 - weekday d)"
    have "week_index d \<le> 521722" using w by linarith
    then have le: "toordinal d + int ?n \<le> max_ordinal" unfolding max_ordinal_def using w True by linarith
    obtain r where r: "add_days d ?n = Inr r" "valid_date r" "toordinal r = toordinal d + int ?n"
      using add_days_valid(1) [OF assms le] by blast
    have "r = (next_day ^^ ?n) d"
      using r(1) le by (simp add: add_days_def mk_date_fields split: if_splits)
    then show ?thesis using r(2,3) w True by (simp add: iso_thursday_def)
  next
    case False
    have "0 \<le> week_index d" using toordinal_one [OF assms] by (simp add: week_index_def pos_imp_zdiv_nonneg_iff)
    then have "int (nat (weekday d - 3)) < toordinal d" using w False by linarith
    then show ?thesis
      using prev_days [OF assms, of "nat (weekday d - 3)"] w False by (simp add: iso_thursday_def)
  qed
  then show "valid_date (iso_thursday d)" "toordinal (iso_thursday d) = 7 * week_index d + 4" by auto
qed

lemma iso_year_mono:
  assumes "valid_date a" "valid_date b" "week_index a \<le> week_index b"
  shows "iso_year a \<le> iso_year b"
  using toordinal_le_iff [OF iso_thursday(1) [OF assms(1)] iso_thursday(1) [OF assms(2)]]
    iso_thursday(2) [OF assms(1)] iso_thursday(2) [OF assms(2)] assms(3)
  by (auto simp: iso_year_def less_eq_date_def)

lemma iso_week_bounds:
  assumes "valid_date d"
  shows "1 \<le> iso_week d" "iso_week d \<le> 53" "1 \<le> iso_year d" "iso_year d \<le> 9999"
proof -
  let ?t = "iso_thursday d"
  note v = iso_thursday(1) [OF assms]
  have "days_before_month (date_year ?t) (date_month ?t) + date_day ?t \<le> 366"
    using v days_in_month_bounds(2) [of "date_year ?t" "date_month ?t"]
    by (cases ?t) (auto simp: days_before_month_def days_in_month_def valid_date_def split: if_splits)
  then show "iso_week d \<le> 53" by (simp add: iso_week_def iso_year_def toordinal_def)
  show "1 \<le> iso_week d"
    using v days_before_month_nonneg [of "date_year ?t" "date_month ?t"]
    by (simp add: iso_week_def iso_year_def toordinal_def valid_date_def pos_imp_zdiv_nonneg_iff)
  show "1 \<le> iso_year d" "iso_year d \<le> 9999" using v by (simp_all add: iso_year_def valid_date_def)
qed

lemma iso_week_less:
  assumes "valid_date a" "valid_date b" "week_index a < week_index b"
  shows "iso_year a < iso_year b \<or> iso_year a = iso_year b \<and> iso_week a < iso_week b"
proof (cases "iso_year a = iso_year b")
  case True
  have "toordinal (iso_thursday a) + 7 \<le> toordinal (iso_thursday b)"
    using iso_thursday(2) [OF assms(1)] iso_thursday(2) [OF assms(2)] assms(3) by simp
  then have "iso_week a < iso_week b" unfolding iso_week_def True by linarith
  then show ?thesis using True by simp
next
  case False
  then show ?thesis using iso_year_mono [OF assms(1,2)] assms(3) by simp
qed

section \<open>The labels of the trend\<close>

text \<open>\<open>to_char(date, 'IYYY-\<open>W\<close>IW')\<close> and \<open>to_char(date, 'YYYY-MM')\<close>.\<close>

definition bucket_label :: "bool \<Rightarrow> date \<Rightarrow> string" where
  "bucket_label weekly d =
     (if weekly then zfill 4 (nat (iso_year d)) @ ''-W'' @ zfill 2 (nat (iso_week d))
      else zfill 4 (nat (date_year d)) @ ''-'' @ zfill 2 (nat (date_month d)))"

definition bucket_index :: "bool \<Rightarrow> date \<Rightarrow> int" where
  "bucket_index weekly d =
     (if weekly then week_index d else month_index (date_year d) (date_month d))"

lemma digit_char_less: "a < 10 \<Longrightarrow> b < 10 \<Longrightarrow> digit_char a < digit_char b \<longleftrightarrow> a < b"
  by (simp add: of_char_less digit_char_def)

lemma zfill_less: "a < 10 ^ k \<Longrightarrow> b < 10 ^ k \<Longrightarrow> zfill k a < zfill k b \<longleftrightarrow> a < b"
proof (induction k arbitrary: a b)
  case (Suc k)
  have ab: "a div 10 < 10 ^ k" "b div 10 < 10 ^ k"
    using Suc.prems by (simp_all add: less_mult_imp_div_less mult.commute)
  have inj: "zfill k (a div 10) = zfill k (b div 10) \<longleftrightarrow> a div 10 = b div 10"
    using Suc.IH [OF ab] Suc.IH [OF ab(2,1)] by (metis less_irrefl nat_neq_iff)
  have "zfill (Suc k) a < zfill (Suc k) b \<longleftrightarrow>
      a div 10 < b div 10 \<or> a div 10 = b div 10 \<and> a mod 10 < b mod 10"
    by (simp add: append_less_same Suc.IH [OF ab] inj digit_char_less)
  also have "\<dots> \<longleftrightarrow> a < b"
    using div_mult_mod_eq [of a 10] div_mult_mod_eq [of b 10] by linarith
  finally show ?case .
qed simp

lemma zfill_pair_less:
  assumes "a < 10000" "b < 10000" "c < 100" "d < 100"
  shows "zfill 4 a @ sep @ zfill 2 c < zfill 4 b @ sep @ zfill 2 d \<longleftrightarrow> a < b \<or> a = b \<and> c < d"
proof -
  have "zfill 4 a < zfill 4 b \<longleftrightarrow> a < b" "zfill 4 b < zfill 4 a \<longleftrightarrow> b < a" "zfill 2 c < zfill 2 d \<longleftrightarrow> c < d"
    using assms by (auto intro!: zfill_less)
  then show ?thesis by (auto simp: append_less_same simp del: zfill.simps)
qed

lemma bucket_label_less:
  assumes "valid_date a" "valid_date b" "bucket_index weekly a < bucket_index weekly b"
  shows "bucket_label weekly a < bucket_label weekly b"
proof (cases weekly)
  case True
  then show ?thesis
    using iso_week_less [OF assms(1,2)] iso_week_bounds [OF assms(1)] iso_week_bounds [OF assms(2)] assms(3)
    by (auto simp: bucket_label_def bucket_index_def zfill_pair_less [of _ _ _ _ "''-W''", simplified])
next
  case False
  then show ?thesis
    using assms
    by (auto simp: bucket_label_def bucket_index_def valid_date_def month_index_def
        zfill_pair_less [of _ _ _ _ "''-''", simplified])
qed

lemma week_of_same_index:
  assumes "valid_date a" "valid_date b" "bucket_index weekly a = bucket_index weekly b"
  shows "bucket_label weekly a = bucket_label weekly b"
proof (cases weekly)
  case True
  then have "toordinal (iso_thursday a) = toordinal (iso_thursday b)"
    using assms iso_thursday(2) by (simp add: bucket_index_def)
  then have "iso_thursday a = iso_thursday b"
    using toordinal_less_iff iso_thursday(1) [OF assms(1)] iso_thursday(1) [OF assms(2)]
    by (metis less_irrefl linorder_neqE)
  then show ?thesis using True by (simp add: bucket_label_def iso_year_def iso_week_def)
next
  case False
  then have "date_year a = date_year b \<and> date_month a = date_month b"
    using assms month_index_year [of "date_year a" "date_month a" "date_year b" "date_month b"]
      month_index_year [of "date_year b" "date_month b" "date_year a" "date_month a"]
    by (auto simp: bucket_index_def valid_date_def)
  then show ?thesis using False by (simp add: bucket_label_def)
qed

text \<open>The order of the labels as text is the order of the weeks, and of the months.\<close>

lemma bucket_label_order:
  assumes "valid_date a" "valid_date b"
  shows "bucket_label weekly a < bucket_label weekly b \<longleftrightarrow> bucket_index weekly a < bucket_index weekly b"
    "bucket_label weekly a = bucket_label weekly b \<longleftrightarrow> bucket_index weekly a = bucket_index weekly b"
  using bucket_label_less [OF assms] bucket_label_less [OF assms(2,1)] week_of_same_index [OF assms]
  by (metis less_asym less_irrefl linorder_neqE)+

section \<open>MonthPeriod and TrendWindow\<close>

record month_period =
  mp_year :: int
  mp_month :: int

definition mk_month_period :: "int \<Rightarrow> int \<Rightarrow> exn + month_period" where
  "mk_month_period year month =
     (if \<not> (1 \<le> month \<and> month \<le> 12) then Inl ValueError
      else if year < 1900 \<or> year > 2999 then Inl ValueError
      else Inr \<lparr>mp_year = year, mp_month = month\<rparr>)"

definition bounds_clipped_to :: "month_period \<Rightarrow> date \<Rightarrow> exn + date \<times> date" where
  "bounds_clipped_to p today =
     bindR (mk_date (mp_year p) (mp_month p) 1) (\<lambda>start.
     bindR (monthrange_days (mp_year p) (mp_month p)) (\<lambda>last_day.
     bindR (mk_date (mp_year p) (mp_month p) last_day) (\<lambda>natural_end.
       Inr (start, min natural_end today))))"

record trend_window =
  tw_granularity :: string
  tw_buckets :: int
  tw_end :: date

definition mk_trend_window :: "string \<Rightarrow> int \<Rightarrow> date \<Rightarrow> exn + trend_window" where
  "mk_trend_window g n today =
     (if g \<noteq> ''month'' \<and> g \<noteq> ''week'' then Inl ValueError
      else if \<not> (1 \<le> n \<and> n \<le> 52) then Inl ValueError
      else Inr \<lparr>tw_granularity = g, tw_buckets = n, tw_end = today\<rparr>)"

section \<open>The budget summary\<close>

record currency_total_row =
  cr_currency :: string
  cr_type :: transaction_type
  cr_total :: decimal
  cr_count :: nat

record currency_total =
  ct_currency :: string
  ct_total :: decimal
  ct_count :: nat

record budget_summary =
  bs_expenses :: "currency_total list"
  bs_income :: "currency_total list"

text \<open>\<open>GROUP BY currency_code, type\<close>: the order of the groups is the database's choice, here the order
  in which they first occur.\<close>

definition total_key :: "transaction \<Rightarrow> string \<times> transaction_type" where
  "total_key t = (cur_code (currency (tx_amount t)), tx_type t)"

definition read_clipped :: "transaction list \<Rightarrow> user_id \<Rightarrow> month_period \<Rightarrow> date \<Rightarrow> exn + currency_total_row list" where
  "read_clipped txs u p clipped_to =
     bindR (bounds_clipped_to p clipped_to) (\<lambda>(start, last).
       (let rows = fetch_budget_rows txs u start last
        in Inr (map (\<lambda>(c, ty). (let g = filter (\<lambda>t. total_key t = (c, ty)) rows
             in \<lparr>cr_currency = c, cr_type = ty, cr_total = stored_sum g, cr_count = length g\<rparr>))
           (remdups (map total_key rows)))))"

definition split_by_type :: "currency_total_row list \<Rightarrow> budget_summary" where
  "split_by_type rows =
     foldl (\<lambda>s r. (let b = \<lparr>ct_currency = cr_currency r, ct_total = cr_total r, ct_count = cr_count r\<rparr>
        in if cr_type r = TT_EXPENSE then s\<lparr>bs_expenses := bs_expenses s @ [b]\<rparr>
           else s\<lparr>bs_income := bs_income s @ [b]\<rparr>))
       \<lparr>bs_expenses = [], bs_income = []\<rparr> rows"

definition get_budget_summary :: "transaction list \<Rightarrow> date \<Rightarrow> user_id \<Rightarrow> int \<Rightarrow> int \<Rightarrow> exn + budget_summary" where
  "get_budget_summary txs today u year month =
     bindR (mk_month_period year month) (\<lambda>p.
     bindR (bounds_clipped_to p today) (\<lambda>(start, clipped_end).
     bindR (read_clipped txs u p clipped_end) (\<lambda>rows. Inr (split_by_type rows))))"

section \<open>The spending trend\<close>

text \<open>\<open>while month <= 0\<close>: the months back from the window's end.\<close>

function floor_month :: "int \<Rightarrow> int \<Rightarrow> int \<times> int" where
  "floor_month year month = (if month \<le> 0 then floor_month (year - 1) (month + 12) else (year, month))"
  by auto
termination by (relation "measure (\<lambda>(year, month). nat (1 - month))") auto

declare floor_month.simps [simp del]

definition floor_date :: "trend_window \<Rightarrow> exn + date" where
  "floor_date w =
     (if tw_granularity w = ''week'' then
        bindR (sub_days (tw_end w) (nat (7 * (tw_buckets w - 1)))) (\<lambda>d. sub_days d (nat (weekday d)))
      else (let (year, month) = floor_month (date_year (tw_end w)) (date_month (tw_end w) - (tw_buckets w - 1))
            in mk_date year month 1))"

record trend_bucket =
  tb_label :: string
  tb_total :: decimal

definition trend_matches :: "transaction list \<Rightarrow> user_id \<Rightarrow> string \<Rightarrow> transaction_type \<Rightarrow> date \<Rightarrow> date \<Rightarrow> transaction list" where
  "trend_matches txs u code ty oldest latest =
     filter (\<lambda>t. tx_user t = u \<and> cur_code (currency (tx_amount t)) = code \<and> tx_type t = ty \<and>
       oldest \<le> tx_date t \<and> tx_date t \<le> latest) txs"

definition read_trend ::
  "transaction list \<Rightarrow> user_id \<Rightarrow> currency \<Rightarrow> transaction_type \<Rightarrow> trend_window \<Rightarrow> exn + trend_bucket list" where
  "read_trend txs u cur ty w =
     bindR (floor_date w) (\<lambda>oldest.
       (let label = (\<lambda>t. bucket_label (tw_granularity w = ''week'') (tx_date t));
            rows = trend_matches txs u (cur_code cur) ty oldest (tw_end w)
        in Inr (map (\<lambda>l. \<lparr>tb_label = l, tb_total = stored_sum (filter (\<lambda>t. label t = l) rows)\<rparr>)
             (sort (remdups (map label rows))))))"

definition get_spend_trend ::
  "transaction list \<Rightarrow> date \<Rightarrow> user_id \<Rightarrow> string \<Rightarrow> string \<Rightarrow> int \<Rightarrow> string \<Rightarrow> exn + trend_bucket list" where
  "get_spend_trend txs today u code type_text bucket_count granularity =
     bindR (mk_trend_window granularity bucket_count today) (\<lambda>w.
     bindR (mk_currency code) (\<lambda>cur.
     bindR (transaction_type_of type_text) (\<lambda>ty. read_trend txs u cur ty w)))"

section \<open>Lemmas\<close>

lemma floor_month_index:
  "month \<le> 12 \<Longrightarrow> floor_month year month = (y, m) \<Longrightarrow>
     1 \<le> m \<and> m \<le> 12 \<and> month_index y m = month_index year month"
proof (induction year month rule: floor_month.induct)
  case (1 year month)
  show ?case
  proof (cases "month \<le> 0")
    case True
    then show ?thesis
      using "1.IH" [OF True] "1.prems" floor_month.simps [of year month] by (simp add: month_index_def)
  next
    case False
    then show ?thesis using "1.prems" floor_month.simps [of year month] by simp
  qed
qed

lemma week_floor:
  assumes "valid_date d" "valid_date f" "toordinal f = 7 * k + 1"
  shows "f \<le> d \<longleftrightarrow> k \<le> week_index d"
  using toordinal_le_iff [OF assms(2,1)] weekday_index [of d] weekday_bounds [of d] assms(3) by linarith

lemma month_floor:
  assumes "valid_date d" "1 \<le> m" "m \<le> 12"
  shows "Date y m 1 \<le> d \<longleftrightarrow> month_index y m \<le> month_index (date_year d) (date_month d)"
  using assms month_index_year [of y m "date_year d" "date_month d"]
  by (cases d) (auto simp: month_index_def)

lemma mk_trend_window_Inr:
  "mk_trend_window g n today = Inr w \<Longrightarrow>
     w = \<lparr>tw_granularity = g, tw_buckets = n, tw_end = today\<rparr> \<and> 1 \<le> n \<and> (g = ''month'' \<or> g = ''week'')"
  by (auto simp: mk_trend_window_def split: if_splits)

text \<open>The oldest date read starts the oldest bucket.\<close>

lemma floor_date_index:
  assumes "valid_date today" "1 \<le> n" "floor_date \<lparr>tw_granularity = g, tw_buckets = n, tw_end = today\<rparr> = Inr f"
    and "valid_date d"
  shows "f \<le> d \<longleftrightarrow> bucket_index (g = ''week'') today - n < bucket_index (g = ''week'') d"
proof (cases "g = ''week''")
  case True
  obtain e where e: "sub_days today (nat (7 * (n - 1))) = Inr e" and f: "sub_days e (nat (weekday e)) = Inr f"
    using assms(3) True by (auto simp: floor_date_def bindR_Inr_iff)
  have ev: "valid_date e" "toordinal e = toordinal today - 7 * (n - 1)"
    using e assms(2) by (simp_all add: sub_days_Inr_iff [OF assms(1)])
  have fv: "valid_date f" "toordinal f = 7 * week_index e + 1"
    using f weekday_index [of e] weekday_bounds [of e] by (simp_all add: sub_days_Inr_iff [OF ev(1)])
  have "week_index e = week_index today - (n - 1)" unfolding week_index_def ev(2) by simp
  then show ?thesis using week_floor [OF assms(4) fv] True by (auto simp: bucket_index_def)
next
  case False
  obtain y m where fm: "floor_month (date_year today) (date_month today - (n - 1)) = (y, m)" by fastforce
  then have f: "f = Date y m 1" using assms(3) False by (auto simp: floor_date_def mk_date_Inr_iff)
  have "date_month today - (n - 1) \<le> 12" using assms(1,2) by (simp add: valid_date_def)
  from floor_month_index [OF this fm]
  have "1 \<le> m" "m \<le> 12" "month_index y m = month_index (date_year today) (date_month today) - (n - 1)"
    by (simp_all add: month_index_def)
  then show ?thesis using month_floor [OF assms(4)] False by (auto simp: f bucket_index_def)
qed

lemma bucket_index_mono: "valid_date a \<Longrightarrow> valid_date b \<Longrightarrow> a \<le> b \<Longrightarrow> bucket_index w a \<le> bucket_index w b"
  using toordinal_le_iff [of a b]
  by (auto simp: bucket_index_def week_index_def month_index_def less_eq_date_def valid_date_def zdiv_mono1)

lemma trend_buckets:
  assumes valid: "\<forall>t\<in>set txs. valid_date (tx_date t)" "valid_date today"
    and trend: "get_spend_trend txs today u code type_text n g = Inr bs"
  shows "\<exists>cur ty. mk_currency code = Inr cur \<and> transaction_type_of type_text = Inr ty \<and> 1 \<le> n \<and>
    (let weekly = g = ''week'';
         label = (\<lambda>t. bucket_label weekly (tx_date t));
         rows = filter (\<lambda>t. tx_user t = u \<and> cur_code (currency (tx_amount t)) = cur_code cur \<and> tx_type t = ty \<and>
           bucket_index weekly today - n < bucket_index weekly (tx_date t) \<and> tx_date t \<le> today) txs
     in bs = map (\<lambda>l. \<lparr>tb_label = l, tb_total = stored_sum (filter (\<lambda>t. label t = l) rows)\<rparr>)
         (sort (remdups (map label rows))))"
proof -
  obtain w cur ty f where p: "mk_trend_window g n today = Inr w" "mk_currency code = Inr cur"
      "transaction_type_of type_text = Inr ty" "floor_date w = Inr f" and
    b: "read_trend txs u cur ty w = Inr bs"
    using trend by (auto simp: get_spend_trend_def bindR_Inr_iff read_trend_def)
  note w = mk_trend_window_Inr [OF p(1)]
  have "trend_matches txs u (cur_code cur) ty f today =
      filter (\<lambda>t. tx_user t = u \<and> cur_code (currency (tx_amount t)) = cur_code cur \<and> tx_type t = ty \<and>
        bucket_index (g = ''week'') today - n < bucket_index (g = ''week'') (tx_date t) \<and> tx_date t \<le> today) txs"
    unfolding trend_matches_def
    using floor_date_index [OF valid(2), of n g f] w p(4) valid(1) by (intro filter_cong) auto
  then show ?thesis using b p w by (auto simp: read_trend_def Let_def)
qed

lemma mk_month_period_Inr:
  "mk_month_period y m = Inr p \<longleftrightarrow>
     p = \<lparr>mp_year = y, mp_month = m\<rparr> \<and> 1 \<le> m \<and> m \<le> 12 \<and> 1900 \<le> y \<and> y \<le> 2999"
  by (auto simp: mk_month_period_def)

lemma bounds_clipped:
  assumes "mk_month_period y m = Inr p"
  shows "bounds_clipped_to p today = Inr (Date y m 1, min (Date y m (days_in_month y m)) today)"
  using assms days_in_month_bounds(1) [of y m]
  by (auto simp: mk_month_period_Inr bounds_clipped_to_def mk_date_def monthrange_days_def)

text \<open>The summary reads the days of the month up to today.\<close>

lemma summary_rows:
  assumes "mk_month_period y m = Inr p"
  shows "get_budget_summary txs today u y m =
    Inr (split_by_type (map (\<lambda>(c, ty). (let g = filter (\<lambda>t. total_key t = (c, ty))
          (fetch_budget_rows txs u (Date y m 1) (min (Date y m (days_in_month y m)) today))
        in \<lparr>cr_currency = c, cr_type = ty, cr_total = stored_sum g, cr_count = length g\<rparr>))
      (remdups (map total_key (fetch_budget_rows txs u (Date y m 1) (min (Date y m (days_in_month y m)) today))))))"
  by (simp add: get_budget_summary_def assms bounds_clipped [OF assms] read_clipped_def Let_def)

definition total_of :: "currency_total_row \<Rightarrow> currency_total" where
  "total_of r = \<lparr>ct_currency = cr_currency r, ct_total = cr_total r, ct_count = cr_count r\<rparr>"

lemma split_by_type:
  "split_by_type rows =
     \<lparr>bs_expenses = map total_of (filter (\<lambda>r. cr_type r = TT_EXPENSE) rows),
      bs_income = map total_of (filter (\<lambda>r. cr_type r = TT_INCOME) rows)\<rparr>"
proof -
  have "foldl (\<lambda>s r. (let b = \<lparr>ct_currency = cr_currency r, ct_total = cr_total r, ct_count = cr_count r\<rparr>
        in if cr_type r = TT_EXPENSE then s\<lparr>bs_expenses := bs_expenses s @ [b]\<rparr>
           else s\<lparr>bs_income := bs_income s @ [b]\<rparr>)) \<lparr>bs_expenses = es, bs_income = is\<rparr> rows =
     \<lparr>bs_expenses = es @ map total_of (filter (\<lambda>r. cr_type r = TT_EXPENSE) rows),
      bs_income = is @ map total_of (filter (\<lambda>r. cr_type r = TT_INCOME) rows)\<rparr>" for es "is"
  proof (induction rows arbitrary: es "is")
    case (Cons r rows)
    then show ?case by (cases "cr_type r") (simp_all add: total_of_def)
  qed simp
  then show ?thesis by (simp add: split_by_type_def)
qed

definition summary_entries :: "transaction_type \<Rightarrow> budget_summary \<Rightarrow> currency_total list" where
  "summary_entries ty s = (case ty of TT_EXPENSE \<Rightarrow> bs_expenses s | TT_INCOME \<Rightarrow> bs_income s)"

lemma entries_split:
  "summary_entries ty (split_by_type rows) = map total_of (filter (\<lambda>r. cr_type r = ty) rows)"
  by (cases ty) (simp_all add: summary_entries_def split_by_type)

text \<open>The transactions a summary counts in a currency and type.\<close>

definition summed :: "transaction list \<Rightarrow> date \<Rightarrow> user_id \<Rightarrow> int \<Rightarrow> int \<Rightarrow> string \<Rightarrow> transaction_type \<Rightarrow> transaction list" where
  "summed txs today u y m c ty =
     filter (\<lambda>t. tx_user t = u \<and> date_year (tx_date t) = y \<and> date_month (tx_date t) = m \<and> tx_date t \<le> today \<and>
       cur_code (currency (tx_amount t)) = c \<and> tx_type t = ty) txs"

lemma in_month:
  assumes "valid_date d"
  shows "Date y m 1 \<le> d \<and> d \<le> min (Date y m (days_in_month y m)) today \<longleftrightarrow>
    date_year d = y \<and> date_month d = m \<and> d \<le> today"
  using assms by (cases d) (auto simp: valid_date_def)

lemma summary_groups:
  assumes "\<forall>t\<in>set txs. valid_date (tx_date t)"
  shows "filter (\<lambda>t. total_key t = (c, ty))
      (fetch_budget_rows txs u (Date y m 1) (min (Date y m (days_in_month y m)) today)) =
    summed txs today u y m c ty"
  unfolding fetch_budget_rows_def filter_filter summed_def using assms in_month
  by (intro filter_cong) (auto simp: total_key_def)

lemma summary_exact:
  assumes "\<forall>t\<in>set txs. valid_date (tx_date t)" "get_budget_summary txs today u y m = Inr s"
  shows "e \<in> set (summary_entries ty s) \<longleftrightarrow>
      (let g = summed txs today u y m (ct_currency e) ty
       in g \<noteq> [] \<and> ct_total e = stored_sum g \<and> ct_count e = length g)"
    and "distinct (map ct_currency (summary_entries ty s))"
proof -
  obtain p where p: "mk_month_period y m = Inr p"
    using assms(2) by (auto simp: get_budget_summary_def bindR_Inr_iff)
  define rows where "rows = fetch_budget_rows txs u (Date y m 1) (min (Date y m (days_in_month y m)) today)"
  define row where "row = (\<lambda>(c, ty). (let g = summed txs today u y m c ty
      in \<lparr>cr_currency = c, cr_type = ty, cr_total = stored_sum g, cr_count = length g\<rparr>))"
  have groups: "filter (\<lambda>t. total_key t = (c, ty)) rows = summed txs today u y m c ty" for c ty
    unfolding rows_def by (rule summary_groups [OF assms(1)])
  have s: "s = split_by_type (map row (remdups (map total_key rows)))"
    using assms(2) unfolding summary_rows [OF p] rows_def [symmetric] groups row_def by simp
  have keys: "(c, ty) \<in> total_key ` set rows \<longleftrightarrow> summed txs today u y m c ty \<noteq> []" for c ty
    unfolding groups [symmetric] filter_empty_conv by force
  have entries: "summary_entries ty s =
      map (\<lambda>k. total_of (row k)) (filter (\<lambda>k. snd k = ty) (remdups (map total_key rows)))"
    by (simp add: s entries_split filter_map comp_def row_def case_prod_unfold Let_def)
  have "e \<in> set (summary_entries ty s) \<longleftrightarrow>
      (\<exists>k. k \<in> total_key ` set rows \<and> snd k = ty \<and> e = total_of (row k))"
    unfolding entries by force
  then have "e \<in> set (summary_entries ty s) \<longleftrightarrow>
      (\<exists>c. (c, ty) \<in> total_key ` set rows \<and> e = total_of (row (c, ty)))"
    by (metis prod.collapse snd_conv)
  then show "e \<in> set (summary_entries ty s) \<longleftrightarrow>
      (let g = summed txs today u y m (ct_currency e) ty
       in g \<noteq> [] \<and> ct_total e = stored_sum g \<and> ct_count e = length g)"
    by (cases e) (auto simp: keys row_def total_of_def Let_def)
  have "map ct_currency (summary_entries ty s) = map fst (filter (\<lambda>k. snd k = ty) (remdups (map total_key rows)))"
    by (simp add: entries total_of_def row_def comp_def case_prod_unfold Let_def)
  moreover have "inj_on fst (set (filter (\<lambda>k. snd k = ty) (remdups (map total_key rows))))"
    by (auto simp: inj_on_def)
  ultimately show "distinct (map ct_currency (summary_entries ty s))"
    by (simp add: distinct_map)
qed

text \<open>Labels in ascending text order are those of dates in chronological order.\<close>

lemma label_dates:
  assumes "\<forall>d\<in>D. valid_date d" "sorted_wrt (<) ls" "set ls \<subseteq> bucket_label weekly ` D"
  shows "\<exists>ds. set ds \<subseteq> D \<and> ls = map (bucket_label weekly) ds \<and>
    sorted_wrt (\<lambda>a b. bucket_index weekly a < bucket_index weekly b) ds"
  using assms(2,3)
proof (induction ls)
  case (Cons l ls)
  then obtain ds where ds: "set ds \<subseteq> D" "ls = map (bucket_label weekly) ds"
      "sorted_wrt (\<lambda>a b. bucket_index weekly a < bucket_index weekly b) ds" by auto
  obtain d where d: "d \<in> D" "l = bucket_label weekly d" using Cons.prems by auto
  have "bucket_index weekly d < bucket_index weekly e" if "e \<in> set ds" for e
    using Cons.prems(1) d ds that assms(1) bucket_label_order(1) [of d e weekly] by auto
  then show ?case using ds d by (intro exI [of _ "d # ds"]) auto
qed simp

lemma length_indexes:
  assumes "sorted_wrt (\<lambda>a b. f a < (f b :: int)) ds" "\<forall>d\<in>set ds. lo < f d \<and> f d \<le> hi"
  shows "length ds \<le> nat (hi - lo)"
proof -
  have "distinct (map f ds)" using assms(1) by (metis sorted_wrt_map strict_sorted_iff)
  then have "length ds = card (f ` set ds)" using distinct_card by fastforce
  also have "\<dots> \<le> card {lo<..hi}" using assms(2) by (intro card_mono) auto
  finally show ?thesis by simp
qed

section \<open>Properties\<close>

text \<open>C13 A trend covers its window: its buckets are those of the last months or ISO weeks up to today that
  have a matching transaction, at most as many as were asked for, in chronological order, and each total
  is the exact sum of the stored amounts of the bucket.\<close>

theorem trend_covers_window:
  assumes valid: "\<forall>t\<in>set txs. valid_date (tx_date t)" "valid_date today"
    and trend: "get_spend_trend txs today u code type_text n g = Inr bs"
  shows "\<exists>cur ty ds. mk_currency code = Inr cur \<and> transaction_type_of type_text = Inr ty \<and>
    length bs \<le> nat n \<and> map tb_label bs = map (bucket_label (g = ''week'')) ds \<and>
    sorted_wrt (\<lambda>a b. bucket_index (g = ''week'') a < bucket_index (g = ''week'') b) ds \<and>
    (let rows = filter (\<lambda>t. tx_user t = u \<and> cur_code (currency (tx_amount t)) = cur_code cur \<and> tx_type t = ty \<and>
           bucket_index (g = ''week'') today - n < bucket_index (g = ''week'') (tx_date t) \<and> tx_date t \<le> today) txs
     in tb_label ` set bs = (\<lambda>t. bucket_label (g = ''week'') (tx_date t)) ` set rows \<and>
        (\<forall>b\<in>set bs. dec_val (tb_total b) =
          (\<Sum>t\<leftarrow>filter (\<lambda>t. bucket_label (g = ''week'') (tx_date t) = tb_label b) rows.
             dec_val (numeric_column (amount (tx_amount t))))))"
proof -
  let ?w = "g = ''week''"
  obtain cur ty where ct: "mk_currency code = Inr cur" "transaction_type_of type_text = Inr ty"
    and bs: "bs = (let label = (\<lambda>t. bucket_label ?w (tx_date t));
         rows = filter (\<lambda>t. tx_user t = u \<and> cur_code (currency (tx_amount t)) = cur_code cur \<and> tx_type t = ty \<and>
           bucket_index ?w today - n < bucket_index ?w (tx_date t) \<and> tx_date t \<le> today) txs
     in map (\<lambda>l. \<lparr>tb_label = l, tb_total = stored_sum (filter (\<lambda>t. label t = l) rows)\<rparr>)
         (sort (remdups (map label rows))))"
    using trend_buckets [OF valid trend] by (auto simp: Let_def)
  define rows where "rows = filter (\<lambda>t. tx_user t = u \<and> cur_code (currency (tx_amount t)) = cur_code cur \<and>
    tx_type t = ty \<and> bucket_index ?w today - n < bucket_index ?w (tx_date t) \<and> tx_date t \<le> today) txs"
  define ls where "ls = sort (remdups (map (\<lambda>t. bucket_label ?w (tx_date t)) rows))"
  have b: "bs = map (\<lambda>l. \<lparr>tb_label = l,
      tb_total = stored_sum (filter (\<lambda>t. bucket_label ?w (tx_date t) = l) rows)\<rparr>) ls"
    by (simp add: bs Let_def ls_def rows_def)
  have ls: "map tb_label bs = ls" "sorted_wrt (<) ls" "set ls = (\<lambda>t. bucket_label ?w (tx_date t)) ` set rows"
    by (simp_all add: b comp_def ls_def strict_sorted_iff)
  have dates: "\<forall>d\<in>tx_date ` set rows. valid_date d" using valid(1) by (auto simp: rows_def)
  from label_dates [OF this ls(2), of ?w] ls(3)
  obtain ds where ds: "set ds \<subseteq> tx_date ` set rows" "ls = map (bucket_label ?w) ds"
      "sorted_wrt (\<lambda>a b. bucket_index ?w a < bucket_index ?w b) ds" by (auto simp: image_image)
  have "\<forall>d\<in>set ds. bucket_index ?w today - n < bucket_index ?w d \<and> bucket_index ?w d \<le> bucket_index ?w today"
    using ds(1) dates bucket_index_mono [OF _ valid(2)] by (auto simp: rows_def)
  from length_indexes [OF ds(3) this] have "length bs \<le> nat n"
    using arg_cong [OF ls(1), of length] ds(2) by simp
  moreover have "tb_label ` set bs = (\<lambda>t. bucket_label ?w (tx_date t)) ` set rows"
    using ls(1,3) by (metis set_map)
  moreover have "\<forall>b\<in>set bs. dec_val (tb_total b) =
      (\<Sum>t\<leftarrow>filter (\<lambda>t. bucket_label ?w (tx_date t) = tb_label b) rows. dec_val (numeric_column (amount (tx_amount t))))"
    by (auto simp: b stored_sum_value)
  ultimately show ?thesis
    using ct ds ls(1) by (intro exI [of _ cur] exI [of _ ty] exI [of _ ds]) (simp add: Let_def flip: rows_def)
qed

lemma spend_week_exists:
  "\<exists>bs. get_spend_trend [chat_tx 1 1] (Date 2024 1 12) (UserId 1) ''jpy'' ''expense'' 1 ''week'' = Inr bs"
proof -
  have c: "mk_currency ''jpy'' = Inr (Currency ''JPY'' 0)" "transaction_type_of ''expense'' = Inr TT_EXPENSE"
    by code_simp+
  have "toordinal (Date 2024 1 12) = 738897" "weekday (Date 2024 1 12) = 4" by code_simp+
  then show ?thesis
    by (simp add: get_spend_trend_def mk_trend_window_def c read_trend_def floor_date_def sub_days_def Let_def)
qed

lemma trend_covers_window_witness:
  "\<exists>bs. get_spend_trend [chat_tx 1 1] (Date 2024 1 12) (UserId 1) ''jpy'' ''expense'' 1 ''week'' = Inr bs \<and>
    length bs \<le> 1 \<and> tb_label ` set bs = {''2024-W02''}"
proof -
  obtain bs where b: "get_spend_trend [chat_tx 1 1] (Date 2024 1 12) (UserId 1) ''jpy'' ''expense'' 1 ''week'' =
    Inr bs" using spend_week_exists by blast
  have v: "\<forall>t\<in>set [chat_tx 1 1]. valid_date (tx_date t)" "valid_date (Date 2024 1 12)"
    by (simp_all add: chat_tx_def days_in_month_def is_leap_def)
  have l: "bucket_label True (Date 2024 1 10) = ''2024-W02''" "bucket_index True (Date 2024 1 10) = 105556"
    "bucket_index True (Date 2024 1 12) = 105556" by code_simp+
  have c: "mk_currency ''jpy'' = Inr (Currency ''JPY'' 0)" "transaction_type_of ''expense'' = Inr TT_EXPENSE"
    by code_simp+
  show ?thesis
    using trend_covers_window [OF v b] b by (auto simp: c Let_def chat_tx_def l)
qed

text \<open>C14 The two reports agree: for a month in the window, the trend has a bucket with a total exactly when
  the month's summary has an entry of the trend's currency and type with that total.\<close>

theorem trend_matches_summary:
  assumes valid: "\<forall>t\<in>set txs. valid_date (tx_date t)" "valid_date today"
    and trend: "get_spend_trend txs today u code type_text n ''month'' = Inr bs"
    and summary: "get_budget_summary txs today u y m = Inr s"
    and window: "month_index (date_year today) (date_month today) - n < month_index y m"
  shows "\<exists>cur ty. mk_currency code = Inr cur \<and> transaction_type_of type_text = Inr ty \<and>
    ((\<exists>b\<in>set bs. tb_label b = bucket_label False (Date y m 1) \<and> tb_total b = x) \<longleftrightarrow>
     (\<exists>e\<in>set (summary_entries ty s). ct_currency e = cur_code cur \<and> ct_total e = x))"
proof -
  obtain cur ty where ct: "mk_currency code = Inr cur" "transaction_type_of type_text = Inr ty"
    and bs: "bs = (let label = (\<lambda>t. bucket_label False (tx_date t));
         rows = filter (\<lambda>t. tx_user t = u \<and> cur_code (currency (tx_amount t)) = cur_code cur \<and> tx_type t = ty \<and>
           bucket_index False today - n < bucket_index False (tx_date t) \<and> tx_date t \<le> today) txs
     in map (\<lambda>l. \<lparr>tb_label = l, tb_total = stored_sum (filter (\<lambda>t. label t = l) rows)\<rparr>)
         (sort (remdups (map label rows))))"
    using trend_buckets [OF valid trend] by (auto simp: Let_def)
  have ym: "1 \<le> m" "m \<le> 12" "1900 \<le> y" "y \<le> 2999"
    using summary by (auto simp: get_budget_summary_def bindR_Inr_iff mk_month_period_Inr)
  have v: "valid_date (Date y m 1)" using ym days_in_month_bounds(1) [of y m] by simp
  have label: "bucket_label False d = bucket_label False (Date y m 1) \<longleftrightarrow> date_year d = y \<and> date_month d = m"
    if "valid_date d" for d
    unfolding bucket_label_order(2) [OF that v]
    using month_index_year [of "date_year d" "date_month d" y m] month_index_year [of y m "date_year d" "date_month d"]
      that ym by (auto simp: bucket_index_def valid_date_def)
  define rows where "rows = filter (\<lambda>t. tx_user t = u \<and> cur_code (currency (tx_amount t)) = cur_code cur \<and>
    tx_type t = ty \<and> bucket_index False today - n < bucket_index False (tx_date t) \<and> tx_date t \<le> today) txs"
  have "filter (\<lambda>t. bucket_label False (tx_date t) = bucket_label False (Date y m 1)) rows =
      summed txs today u y m (cur_code cur) ty"
    unfolding rows_def summed_def filter_filter using valid(1) label window
    by (intro filter_cong) (auto simp: bucket_index_def)
  then have g: "filter (\<lambda>t. bucket_label False (tx_date t) = bucket_label False (Date y m 1)) rows =
      summed txs today u y m (cur_code cur) ty" .
  have "(\<exists>b\<in>set bs. tb_label b = bucket_label False (Date y m 1) \<and> tb_total b = x) \<longleftrightarrow>
      bucket_label False (Date y m 1) \<in> (\<lambda>t. bucket_label False (tx_date t)) ` set rows \<and>
      x = stored_sum (summed txs today u y m (cur_code cur) ty)"
    unfolding bs Let_def rows_def [symmetric] by (auto simp: g)
  also have "bucket_label False (Date y m 1) \<in> (\<lambda>t. bucket_label False (tx_date t)) ` set rows \<longleftrightarrow>
      summed txs today u y m (cur_code cur) ty \<noteq> []"
    unfolding g [symmetric] filter_empty_conv by force
  also have "summed txs today u y m (cur_code cur) ty \<noteq> [] \<and> x = stored_sum (summed txs today u y m (cur_code cur) ty) \<longleftrightarrow>
      (\<exists>e\<in>set (summary_entries ty s). ct_currency e = cur_code cur \<and> ct_total e = x)"
  proof -
    let ?g = "summed txs today u y m (cur_code cur) ty"
    let ?e = "\<lparr>ct_currency = cur_code cur, ct_total = stored_sum ?g, ct_count = length ?g\<rparr>"
    note entry = summary_exact(1) [OF valid(1) summary]
    have "?e \<in> set (summary_entries ty s) \<longleftrightarrow> ?g \<noteq> []" by (simp add: entry Let_def)
    moreover have "?g \<noteq> [] \<and> ct_total e = stored_sum ?g"
      if "e \<in> set (summary_entries ty s)" "ct_currency e = cur_code cur" for e
      using entry [of e ty] that by (simp add: Let_def)
    ultimately show ?thesis by (metis currency_total.select_convs(1,2))
  qed
  finally show ?thesis using ct by blast
qed

lemma trend_matches_summary_witness:
  "\<exists>bs s b e. get_spend_trend [chat_tx 1 1] (Date 2024 1 12) (UserId 1) ''jpy'' ''expense'' 1 ''month'' = Inr bs \<and>
    get_budget_summary [chat_tx 1 1] (Date 2024 1 12) (UserId 1) 2024 1 = Inr s \<and>
    b \<in> set bs \<and> tb_label b = ''2024-01'' \<and> e \<in> set (bs_expenses s) \<and> ct_currency e = ''JPY'' \<and>
    tb_total b = ct_total e"
proof -
  have c: "mk_currency ''jpy'' = Inr (Currency ''JPY'' 0)" "transaction_type_of ''expense'' = Inr TT_EXPENSE"
    by code_simp+
  have f: "floor_month 2024 1 = (2024, 1)" by (simp add: floor_month.simps)
  obtain bs where b: "get_spend_trend [chat_tx 1 1] (Date 2024 1 12) (UserId 1) ''jpy'' ''expense'' 1 ''month'' = Inr bs"
    by (simp add: get_spend_trend_def mk_trend_window_def c read_trend_def floor_date_def f mk_date_def
        days_in_month_def Let_def)
  have s: "get_budget_summary [chat_tx 1 1] (Date 2024 1 12) (UserId 1) 2024 1 =
      Inr \<lparr>bs_expenses = [\<lparr>ct_currency = ''JPY'', ct_total = stored_sum [chat_tx 1 1], ct_count = 1\<rparr>], bs_income = []\<rparr>"
    by (simp add: get_budget_summary_def mk_month_period_def bounds_clipped_to_def mk_date_def days_in_month_def
        monthrange_days_def read_clipped_def fetch_budget_rows_def chat_tx_def total_key_def split_by_type_def
        min_def Let_def)
  have v: "\<forall>t\<in>set [chat_tx 1 1]. valid_date (tx_date t)" "valid_date (Date 2024 1 12)"
    by (simp_all add: chat_tx_def days_in_month_def is_leap_def)
  have w: "month_index (date_year (Date 2024 1 12)) (date_month (Date 2024 1 12)) - 1 < month_index 2024 1"
    by (simp add: month_index_def)
  have l: "bucket_label False (Date 2024 1 1) = ''2024-01''" by code_simp
  from trend_matches_summary [OF v b s w, of "stored_sum [chat_tx 1 1]"]
  obtain t where "t \<in> set bs" "tb_label t = ''2024-01''" "tb_total t = stored_sum [chat_tx 1 1]"
    by (auto simp: c l summary_entries_def)
  then show ?thesis using b s by auto
qed

end
