(* ===== verification/Search.thy ===== *)
theory Search
  imports ChatTools "HOL-Library.Sublist"
begin

text \<open>Searching transactions: SearchTransactionsUseCase with the searcher's \<open>ILIKE\<close> over an escaped
  pattern, the reader of cached identifiers and RedisSearchCache.  Redis is a map from keys to a text
  with the second at which it expires; \<open>sha256_hex\<close> is the digest the key is built with.\<close>

section \<open>The searcher\<close>

definition replace_char :: "char \<Rightarrow> string \<Rightarrow> string \<Rightarrow> string" where
  "replace_char c r s = concat (map (\<lambda>x. if x = c then r else [x]) s)"

definition escape_like :: "string \<Rightarrow> string" where
  "escape_like query = replace_char CHR ''_'' [CHR 0x5C, CHR ''_'']
     (replace_char CHR ''%'' [CHR 0x5C, CHR ''%''] (replace_char CHR 0x5C [CHR 0x5C, CHR 0x5C] query))"

definition newest_first :: "transaction list \<Rightarrow> transaction list" where
  "newest_first = descending_by (\<lambda>t. (tx_date t, tx_created_at t))"

definition search_rows :: "ledger \<Rightarrow> user_id \<Rightarrow> string \<Rightarrow> int \<Rightarrow> exn + transaction list" where
  "search_rows s u query limit =
     (let q = ''%'' @ escape_like query @ ''%''
      in bindR (bindable q) (\<lambda>_.
         bindR (valid_limit limit) (\<lambda>_.
           Inr (take (nat limit) (newest_first (filter (\<lambda>t. tx_user t = u \<and>
             (ilike (tx_merchant t) q \<or> ilike (tx_notes t) q)) (ld_rows s)))))))"

section \<open>RedisSearchCache\<close>

type_synonym search_cache = "string \<Rightarrow> (string \<times> int) option"

definition search_cache_key :: "(string \<Rightarrow> string) \<Rightarrow> user_id \<Rightarrow> string \<Rightarrow> string" where
  "search_cache_key sha256_hex u query =
     (case u of UserId k \<Rightarrow> ''search_cache:'' @ uuid_str k @ '':'' @ sha256_hex query)"

fun cached_uuids :: "json \<Rightarrow> exn + uuid list" where
  "cached_uuids (JList xs) =
     foldr (\<lambda>x r. bindR (case x of JStr s \<Rightarrow> uuid_of s | _ \<Rightarrow> Inl ValueError) (\<lambda>i. bindR r (\<lambda>is. Inr (i # is))))
       xs (Inr [])"
| "cached_uuids _ = Inl TypeError"

definition cache_get :: "(string \<Rightarrow> string) \<Rightarrow> int \<Rightarrow> user_id \<Rightarrow> string \<Rightarrow> search_cache \<Rightarrow> exn + uuid list option" where
  "cache_get sha256_hex now u query c =
     (case c (search_cache_key sha256_hex u query) of
        None \<Rightarrow> Inr None
      | Some (raw, expires) \<Rightarrow>
          if expires \<le> now then Inr None
          else (case json_loads raw of None \<Rightarrow> Inl ValueError
            | Some data \<Rightarrow> bindR (cached_uuids data) (\<lambda>is. Inr (Some is))))"

definition cache_set :: "(string \<Rightarrow> string) \<Rightarrow> int \<Rightarrow> int \<Rightarrow> user_id \<Rightarrow> string \<Rightarrow> uuid list \<Rightarrow> search_cache \<Rightarrow> search_cache" where
  "cache_set sha256_hex ttl now u query ids c =
     c(search_cache_key sha256_hex u query \<mapsto> (json_dumps (JList (map (\<lambda>i. JStr (uuid_str i)) ids)), now + ttl))"

section \<open>SearchTransactionsUseCase\<close>

text \<open>\<open>xs[:n]\<close>.\<close>

definition py_prefix :: "int \<Rightarrow> 'a list \<Rightarrow> 'a list" where
  "py_prefix n xs = (if n < 0 then take (length xs - nat (- n)) xs else take (nat n) xs)"

definition tx_uuid :: "transaction \<Rightarrow> uuid" where
  "tx_uuid t = (case tx_id t of TransactionId i \<Rightarrow> i)"

definition search_use_case ::
  "(string \<Rightarrow> string) \<Rightarrow> int \<Rightarrow> int \<Rightarrow> user_id \<Rightarrow> string \<Rightarrow> int \<Rightarrow> ledger \<Rightarrow> search_cache \<Rightarrow>
     exn + transaction list \<times> search_cache" where
  "search_use_case sha256_hex ttl now u query limit s c =
     bindR (cache_get sha256_hex now u query c) (\<lambda>cached.
       case cached of
         Some ids \<Rightarrow> Inr (get_by_ids (map TransactionId (py_prefix limit ids)) u s, c)
       | None \<Rightarrow> bindR (search_rows s u query limit) (\<lambda>txs.
           Inr (txs, cache_set sha256_hex ttl now u query (map tx_uuid txs) c)))"

section \<open>Lemmas\<close>

definition escape_char :: "char \<Rightarrow> string" where
  "escape_char x = (if x = CHR 0x5C \<or> x = CHR ''%'' \<or> x = CHR ''_'' then [CHR 0x5C, x] else [x])"

lemma escape_like_chars: "escape_like q = concat (map escape_char q)"
  by (induction q) (auto simp: escape_like_def replace_char_def escape_char_def)

text \<open>An escaped text matches itself only.\<close>

lemma like_escaped: "like (concat (map escape_char q) @ ps) s \<longleftrightarrow> (\<exists>r. s = q @ r \<and> like ps r)"
proof (induction q arbitrary: s)
  case (Cons c q)
  have "like (escape_char c @ ps') s \<longleftrightarrow> (\<exists>s'. s = c # s' \<and> like ps' s')" for ps'
    by (cases s) (auto simp: escape_char_def)
  then show ?case by (auto simp: Cons.IH)
qed simp

lemma like_any: "like (CHR ''%'' # ps) s \<longleftrightarrow> (\<exists>a b. s = a @ b \<and> like ps b)"
proof -
  have "(\<exists>k\<in>{0..<Suc (length s)}. like ps (drop k s)) \<longleftrightarrow> (\<exists>a b. s = a @ b \<and> like ps b)"
  proof
    assume "\<exists>k\<in>{0..<Suc (length s)}. like ps (drop k s)"
    then show "\<exists>a b. s = a @ b \<and> like ps b" by (metis append_take_drop_id)
  next
    assume "\<exists>a b. s = a @ b \<and> like ps b"
    then obtain a b where "s = a @ b" "like ps b" by blast
    then show "\<exists>k\<in>{0..<Suc (length s)}. like ps (drop k s)"
      by (intro bexI [of _ "length a"]) auto
  qed
  then show ?thesis by (simp add: list_ex_iff del: upt_Suc)
qed

lemma like_all: "like ''%'' s"
  unfolding like_any by (intro exI [of _ s] exI [of _ "[]"]) simp

lemma like_contains: "like (CHR ''%'' # concat (map escape_char q) @ ''%'') s \<longleftrightarrow> sublist q s"
  unfolding like_any like_escaped by (auto simp: like_all sublist_def)

lemma lower_escape: "lower (concat (map escape_char q)) = concat (map escape_char (lower q))"
proof -
  have low: "lower_char c = d \<longleftrightarrow> c = d" if "d = CHR 0x5C \<or> d = CHR ''%'' \<or> d = CHR ''_''" for c d
  proof -
    have "(of_char (lower_char c) :: nat) = of_char d \<longleftrightarrow> (of_char c :: nat) = of_char d"
      using that by (auto simp: of_char_lower)
    then show ?thesis by simp
  qed
  note special = low [of "CHR 0x5C", simplified] low [of "CHR ''%''", simplified] low [of "CHR ''_''", simplified]
  have "lower (escape_char c) = escape_char (lower_char c)" for c
  proof (cases "c = CHR 0x5C \<or> c = CHR ''%'' \<or> c = CHR ''_''")
    case True
    then have "lower_char c = c" using special by auto
    then show ?thesis using True special by (auto simp: escape_char_def lower_def)
  next
    case False
    then show ?thesis using special by (simp add: escape_char_def lower_def)
  qed
  then show ?thesis by (induction q) (simp_all add: lower_def)
qed

text \<open>Containment ignoring case, which is what the query means.\<close>

definition mentions :: "string \<Rightarrow> string option \<Rightarrow> bool" where
  "mentions q v \<longleftrightarrow> (case v of None \<Rightarrow> False | Some t \<Rightarrow> sublist (lower q) (lower t))"

lemma ilike_mentions: "ilike v (CHR ''%'' # escape_like q @ ''%'') \<longleftrightarrow> mentions q v"
proof -
  have "lower (CHR ''%'' # a @ ''%'') = CHR ''%'' # lower a @ ''%''" for a
    by (simp add: lower_def lower_char_def)
  then show ?thesis
    by (simp add: ilike_def mentions_def escape_like_chars lower_escape like_contains del: like.simps
        split: option.split)
qed

lemma nul_escaped: "CHR 0x00 \<in> set (escape_like q) \<longleftrightarrow> CHR 0x00 \<in> set q"
  unfolding escape_like_chars by (induction q) (auto simp: escape_char_def)

definition search_hits :: "ledger \<Rightarrow> user_id \<Rightarrow> string \<Rightarrow> transaction list" where
  "search_hits s u query = newest_first (filter (\<lambda>t. tx_user t = u \<and>
     (mentions query (tx_merchant t) \<or> mentions query (tx_notes t))) (ld_rows s))"

lemma search_rows_hits:
  "search_rows s u query limit =
     (if CHR 0x00 \<notin> set query \<and> 0 \<le> limit \<and> limit < 2 ^ 63
      then Inr (take (nat limit) (search_hits s u query)) else Inl StorageError)"
  by (simp add: search_rows_def ilike_mentions bindable_def valid_limit_def nul_escaped search_hits_def Let_def
      guardR_def)

section \<open>The cache gives back what was put\<close>

lemma cached_uuids_map: "list_all (\<lambda>i. i < 2 ^ 128) ids \<Longrightarrow>
    cached_uuids (JList (map (\<lambda>i. JStr (uuid_str i)) ids)) = Inr ids"
  by (induction ids) (simp_all add: uuid_of_str)

lemma cache_get_set:
  assumes "list_all (\<lambda>i. i < 2 ^ 128) ids" "now' < now + ttl"
  shows "cache_get sha now' u query (cache_set sha ttl now u query ids c) = Inr (Some ids)"
proof -
  have "json_wf (JList (map (\<lambda>i. JStr (uuid_str i)) ids))" by (simp add: list_all_iff)
  from json_roundtrip [OF this] show ?thesis
    using cached_uuids_map [OF assms(1)] assms(2) by (simp add: cache_get_def cache_set_def)
qed

text \<open>A read of the rows by identifiers gives them in the order of the identifiers.\<close>

lemma map_filter_mem: "t \<in> set (List.map_filter f xs) \<Longrightarrow> \<exists>x\<in>set xs. f x = Some t"
  by (auto simp: List.map_filter_def)

lemma get_by_ids_own: "set (get_by_ids ids u s) \<subseteq> {t \<in> set (ld_rows s). tx_user t = u}"
  unfolding get_by_ids_def using find_by_Some by (fastforce dest: map_filter_mem)

lemma find_by_unique: "distinct (map key rows) \<Longrightarrow> t \<in> set rows \<Longrightarrow> find_by (\<lambda>x. key x = key t) rows = Some t"
  by (induction rows) auto

lemma get_by_ids_rows:
  assumes "distinct (map tx_id (ld_rows s))" "set ts \<subseteq> {t \<in> set (ld_rows s). tx_user t = u}"
  shows "get_by_ids (map tx_id ts) u s = ts"
proof -
  let ?own = "filter (\<lambda>t. tx_user t = u \<and> tx_id t \<in> set (map tx_id ts)) (ld_rows s)"
  have d: "distinct (map tx_id ?own)" using assms(1) by (rule distinct_map_filter_key)
  have f: "find_by (\<lambda>x. tx_id x = tx_id t) ?own = Some t" if "t \<in> set ts" for t
    using assms(2) that by (intro find_by_unique [OF d]) auto
  have "List.map_filter (\<lambda>i. find_by (\<lambda>x. tx_id x = i) ?own) (map tx_id xs) = xs" if "set xs \<subseteq> set ts" for xs
    using that f by (induction xs) (auto simp: map_filter_simps)
  then show ?thesis unfolding get_by_ids_def by simp
qed

lemma newest_first_sorted:
  "sorted_wrt (\<lambda>a b. (tx_date b, tx_created_at b) \<le> (tx_date a, tx_created_at a)) (newest_first ts)"
proof -
  have "sorted (map (\<lambda>t. (tx_date t, tx_created_at t)) (sort_key (\<lambda>t. (tx_date t, tx_created_at t)) ts))" by simp
  then show ?thesis
    by (simp add: newest_first_def descending_by_def sorted_wrt_rev sorted_wrt_map)
qed

lemma take_sorted_rest:
  "sorted_wrt R xs \<Longrightarrow> x \<in> set xs \<Longrightarrow> x \<notin> set (take n xs) \<Longrightarrow> y \<in> set (take n xs) \<Longrightarrow> R y x"
proof -
  assume s: "sorted_wrt R xs" and x: "x \<in> set xs" "x \<notin> set (take n xs)" and y: "y \<in> set (take n xs)"
  have "x \<in> set (drop n xs)" using x by (metis Un_iff append_take_drop_id set_append)
  moreover have "sorted_wrt R (take n xs @ drop n xs)" using s by simp
  ultimately show "R y x" using y unfolding sorted_wrt_append by blast
qed

lemma cached_search:
  assumes first: "search_use_case sha256_hex ttl now u query k s c = Inr (found, c')"
    and miss: "cache_get sha256_hex now u query c = Inr None"
    and rows: "list_all (\<lambda>t. tx_uuid t < 2 ^ 128) (ld_rows s)" "distinct (map tx_id (ld_rows s))"
    and live: "now' < now + ttl" and limit: "0 \<le> l"
  shows "search_rows s u query k = Inr found"
    "search_use_case sha256_hex ttl now' u query l s c' = Inr (take (nat l) found, c')"
proof -
  show f: "search_rows s u query k = Inr found"
    using first miss by (auto simp: search_use_case_def bindR_Inr_iff)
  have c': "c' = cache_set sha256_hex ttl now u query (map tx_uuid found) c"
    using first miss by (auto simp: search_use_case_def bindR_Inr_iff)
  have own: "set found \<subseteq> {t \<in> set (ld_rows s). tx_user t = u}"
    using f by (auto simp: search_rows_hits search_hits_def newest_first_def split: if_splits dest!: in_set_takeD)
  then have "list_all (\<lambda>i. i < 2 ^ 128) (map tx_uuid found)" using rows(1) by (auto simp: list_all_iff)
  from cache_get_set [OF this live] have "cache_get sha256_hex now' u query c' = Inr (Some (map tx_uuid found))"
    by (simp add: c')
  moreover have "map TransactionId (py_prefix l (map tx_uuid found)) = map tx_id (take (nat l) found)"
  proof -
    have "TransactionId (tx_uuid t) = tx_id t" for t by (simp add: tx_uuid_def split: transaction_id.split)
    then show ?thesis using limit by (simp add: py_prefix_def take_map comp_def)
  qed
  moreover have "get_by_ids (map tx_id (take (nat l) found)) u s = take (nat l) found"
    using own by (intro get_by_ids_rows [OF rows(2)]) (auto dest: in_set_takeD)
  ultimately show "search_use_case sha256_hex ttl now' u query l s c' = Inr (take (nat l) found, c')"
    by (simp add: search_use_case_def)
qed

section \<open>Properties\<close>

text \<open>C17 A search that is not cached finds what it should: only the user's transactions whose merchant or
  notes contain the query as it was typed, ignoring case, newest first; and it leaves out a matching one
  only when the limit is reached, by transactions that are at least as new.\<close>

theorem search_finds_mentions:
  assumes "search_rows s u query limit = Inr found"
  shows "set found \<subseteq> {t \<in> set (ld_rows s). tx_user t = u \<and> (mentions query (tx_merchant t) \<or> mentions query (tx_notes t))} \<and>
    sorted_wrt (\<lambda>a b. (tx_date b, tx_created_at b) \<le> (tx_date a, tx_created_at a)) found \<and>
    (\<forall>t\<in>set (ld_rows s). tx_user t = u \<and> (mentions query (tx_merchant t) \<or> mentions query (tx_notes t)) \<and>
       t \<notin> set found \<longrightarrow> length found = nat limit \<and>
         (\<forall>f\<in>set found. (tx_date t, tx_created_at t) \<le> (tx_date f, tx_created_at f)))"
proof -
  let ?hits = "search_hits s u query"
  have f: "found = take (nat limit) ?hits"
    using assms by (simp add: search_rows_hits split: if_splits)
  have hits: "set ?hits = {t \<in> set (ld_rows s). tx_user t = u \<and>
      (mentions query (tx_merchant t) \<or> mentions query (tx_notes t))}"
    by (auto simp: search_hits_def newest_first_def)
  have sorted: "sorted_wrt (\<lambda>a b. (tx_date b, tx_created_at b) \<le> (tx_date a, tx_created_at a)) ?hits"
    unfolding search_hits_def by (rule newest_first_sorted)
  have "length found = nat limit" if "t \<in> set ?hits" "t \<notin> set found" for t
    using that by (cases "nat limit \<le> length ?hits") (simp_all add: f)
  moreover have "(tx_date t, tx_created_at t) \<le> (tx_date x, tx_created_at x)"
    if "t \<in> set ?hits" "t \<notin> set found" "x \<in> set found" for t x
    using take_sorted_rest [OF sorted that(1)] that(2,3) by (simp add: f)
  moreover have "set found \<subseteq> set ?hits" by (auto simp: f dest: in_set_takeD)
  moreover have "sorted_wrt (\<lambda>a b. (tx_date b, tx_created_at b) \<le> (tx_date a, tx_created_at a)) found"
    unfolding f using sorted by (rule sorted_wrt_take)
  ultimately show ?thesis unfolding hits by blast
qed

definition cafe_ledger :: ledger where
  "cafe_ledger = \<lparr>ld_categories = [], ld_rows = [chat_tx 1 1, chat_tx 2 1, chat_tx 3 2], ld_pending = [], ld_audit = []\<rparr>"

lemma cafe_search: "search_rows cafe_ledger (UserId 1) ''caf'' 20 = Inr [chat_tx 2 1, chat_tx 1 1]"
  by code_simp

lemma search_finds_mentions_witness:
  "search_rows cafe_ledger (UserId 1) ''caf'' 20 = Inr [chat_tx 2 1, chat_tx 1 1] \<and>
    mentions ''caf'' (tx_merchant (chat_tx 1 1))"
  using search_finds_mentions [OF cafe_search] cafe_search by (auto simp: chat_tx_def mentions_def)

text \<open>C18 A repeated search answers from the cache what it would answer anew: while the entry lives and the
  rows are unchanged, the next search gets the first transactions of the list the first one found, which
  for no larger a limit is what the database would return.\<close>

theorem repeated_search_agrees:
  assumes first: "search_use_case sha256_hex ttl now u query k s c = Inr (found, c')"
    and miss: "cache_get sha256_hex now u query c = Inr None"
    and rows: "list_all (\<lambda>t. tx_uuid t < 2 ^ 128) (ld_rows s)" "distinct (map tx_id (ld_rows s))"
    and live: "now' < now + ttl" and limit: "0 \<le> l"
  shows "search_use_case sha256_hex ttl now' u query l s c' = Inr (take (nat l) found, c') \<and>
    (l \<le> k \<longrightarrow> search_rows s u query l = Inr (take (nat l) found))"
proof -
  note cached = cached_search [OF first miss rows live limit]
  have "search_rows s u query l = Inr (take (nat l) found)" if "l \<le> k"
    using cached(1) that limit by (auto simp: search_rows_hits min_def split: if_splits)
  then show ?thesis using cached(2) by blast
qed

lemma cafe_first:
  "search_use_case id 60 0 (UserId 1) ''caf'' 20 cafe_ledger (\<lambda>_. None) =
    Inr ([chat_tx 2 1, chat_tx 1 1], cache_set id 60 0 (UserId 1) ''caf'' [2, 1] (\<lambda>_. None))"
  unfolding search_use_case_def cache_get_def by (simp only: cafe_search option.case bindR_simps)
    (simp add: tx_uuid_def chat_tx_def)

lemma repeated_search_agrees_witness:
  "search_use_case id 60 59 (UserId 1) ''caf'' 1 cafe_ledger (cache_set id 60 0 (UserId 1) ''caf'' [2, 1] (\<lambda>_. None)) =
      Inr ([chat_tx 2 1], cache_set id 60 0 (UserId 1) ''caf'' [2, 1] (\<lambda>_. None)) \<and>
    search_rows cafe_ledger (UserId 1) ''caf'' 1 = Inr [chat_tx 2 1]"
proof -
  have m: "cache_get id 0 (UserId 1) ''caf'' (\<lambda>_. None) = Inr None" by (simp add: cache_get_def)
  have r: "list_all (\<lambda>t. tx_uuid t < 2 ^ 128) (ld_rows cafe_ledger)" "distinct (map tx_id (ld_rows cafe_ledger))"
    by (simp_all add: cafe_ledger_def tx_uuid_def chat_tx_def)
  have l: "(59 :: int) < 0 + 60" "(0 :: int) \<le> 1" by simp_all
  show ?thesis using repeated_search_agrees [OF cafe_first m r l] by simp
qed

text \<open>The cached list is not the answer to a search with a larger limit: it is still the first one's.\<close>

theorem larger_limit_gets_the_shorter_list:
  assumes "search_use_case sha256_hex ttl now u query k s c = Inr (found, c')"
    and "cache_get sha256_hex now u query c = Inr None"
    and "list_all (\<lambda>t. tx_uuid t < 2 ^ 128) (ld_rows s)" "distinct (map tx_id (ld_rows s))"
    and "now' < now + ttl" "k \<le> l"
  shows "search_use_case sha256_hex ttl now' u query l s c' = Inr (found, c')"
proof -
  have k: "0 \<le> k" and len: "length found \<le> nat k"
    using assms(1,2) by (auto simp: search_use_case_def bindR_Inr_iff search_rows_hits split: if_splits)
  have "0 \<le> l" using k assms(6) by simp
  from cached_search(2) [OF assms(1-5) this] show ?thesis using len assms(6) by simp
qed

text \<open>Searches isolate users: whatever the cache holds, a search answers with the user's own transactions
  only, and it leaves what is cached for every other user as it was.\<close>

theorem searches_isolate_users:
  assumes "search_use_case sha256_hex ttl now (UserId a) query limit s c = Inr (found, c')" "a < 2 ^ 128"
  shows "set found \<subseteq> {t \<in> set (ld_rows s). tx_user t = UserId a} \<and>
    (b < 2 ^ 128 \<and> b \<noteq> a \<longrightarrow>
       cache_get sha256_hex now' (UserId b) q c' = cache_get sha256_hex now' (UserId b) q c)"
proof -
  have "set found \<subseteq> {t \<in> set (ld_rows s). tx_user t = UserId a}"
    using assms(1) get_by_ids_own
    by (fastforce simp: search_use_case_def bindR_Inr_iff search_rows_hits search_hits_def newest_first_def
        split: if_splits option.splits dest: in_set_takeD)
  moreover have "cache_get sha256_hex now' (UserId b) q c' = cache_get sha256_hex now' (UserId b) q c"
    if "b < 2 ^ 128" "b \<noteq> a"
  proof -
    have "uuid_str b \<noteq> uuid_str a"
      using uuid_str_inj [OF that(1) assms(2)] that(2) by blast
    then have "search_cache_key sha256_hex (UserId b) q \<noteq> search_cache_key sha256_hex (UserId a) query"
      by (simp add: search_cache_key_def length_uuid_str)
    then show ?thesis
      using assms(1) by (auto simp: search_use_case_def bindR_Inr_iff cache_get_def cache_set_def split: option.splits)
  qed
  ultimately show ?thesis by blast
qed

lemma searches_isolate_users_witness:
  "cache_get id 5 (UserId 2) ''caf'' (cache_set id 60 0 (UserId 1) ''caf'' [2, 1] (\<lambda>_. None)) = Inr None \<and>
    tx_user (chat_tx 2 1) = UserId 1"
  using searches_isolate_users [OF cafe_first, of 2 5 "''caf''"] by (simp add: cache_get_def)

end
