(* ===== verification/Spec2Isabelle.thy ===== *)
theory Spec2Isabelle
  imports Aggregation Auth Categories Chat ChatClient ChatTools Cursors Gateway InsightClients InsightWorker Insights Listings Maintenance Middleware Money Outbox Prelude PyDate PyDecimal PyJson PyNet PyNum PyStr RateLimit Recurring Reports Schedule Search Sessions Shifts SqlTypes Transactions Values
begin

text \<open>A verification development of the yomochi back end (the Python packages under \<^verbatim>\<open>src/app\<close> and
  \<^verbatim>\<open>src/scripts\<close>), a personal-finance API with three workers beside it.

  \<^bold>\<open>The program.\<close> The API takes requests through a stack of ASGI middlewares (request identifier,
  security headers, rate limit, idempotent replay, session cookie), resolves the caller's identity
  from a JWT and a Redis session, and runs a use case in a SQL transaction that commits when the
  handler returns and rolls back when it raises. Use cases write rows and append events to an
  outbox table. The outbox worker publishes these rows to Kafka. The insight worker consumes them,
  claims an insight, builds its context from the user's transactions, calls an AI client and stores
  the text. The scheduler fires recurring rules, detects spending shifts and writes alerts, reaps
  insights whose worker died, maintains the partitions of the audit log, and purges old outbox rows and
  alerts. A chat endpoint lets a language model call read-only tools over the user's own data.

  \<^bold>\<open>How it is modelled.\<close> A use case is a function from its command and the state to an error or a
  result with the new state; a raise is a branch of the sum type \<open>exn + 'a\<close> (or of a component's own
  error type). SQL tables are lists of records in insertion order, Redis is a function from keys to
  values with their expiry, and the clock, new identifiers and the results of services are
  arguments. Concurrency is a step relation or a schedule of steps at the points where the code
  awaits a shared store. Python's integers are \<open>int\<close> or \<open>nat\<close>, \<open>Decimal\<close> is sign, coefficient and
  exponent with the context's 28 digits, floats are exact rationals rounded to 53 bits, IP addresses
  are machine words, strings are lists of 8-bit characters.

  \<^bold>\<open>Theories.\<close>
  \<^item> \<^verbatim>\<open>Prelude\<close>: the result monad, Python dictionaries in insertion order, upserts and lookups in
    tables. \<^verbatim>\<open>PyStr\<close>, \<^verbatim>\<open>PyDecimal\<close>, \<^verbatim>\<open>PyNum\<close>, \<^verbatim>\<open>PyDate\<close>, \<^verbatim>\<open>PyNet\<close>: the parts of the standard
    library the code uses (strings, \<open>decimal\<close>, floats and \<open>statistics\<close>, \<open>datetime\<close>, \<open>ipaddress\<close> and JSON
    strings), with round trips and exactness lemmas.
  \<^item> \<^verbatim>\<open>Values\<close>, \<^verbatim>\<open>Money\<close>: identifiers, enumerations, errors, currencies, amounts, addresses and
    passwords (\<^verbatim>\<open>domain/value_objects\<close>, \<^verbatim>\<open>domain/exceptions\<close>).
  \<^item> \<^verbatim>\<open>Categories\<close>, \<^verbatim>\<open>Transactions\<close>: the entities, their repositories, the quota and the use cases that
    create, change and delete them, as requests on a ledger.
  \<^item> \<^verbatim>\<open>Schedule\<close>, \<^verbatim>\<open>Recurring\<close>: the arithmetic of fire dates, rules and the job that fires due ones,
    once against the contract of a repository that reads its own writes (a locale) and once against
    the session the worker really builds.
  \<^item> \<^verbatim>\<open>Outbox\<close>: rows, the poller with an unreliable broker, and requeueing.
  \<^item> \<^verbatim>\<open>Aggregation\<close>, \<^verbatim>\<open>Shifts\<close>: monthly aggregation per currency and its text, the budget snapshot, the
    detection of behavioural shifts, alerts and the daily job.
  \<^item> \<^verbatim>\<open>Insights\<close>, \<^verbatim>\<open>InsightWorker\<close>: requesting and processing an insight, leases and the reaper,
    streaming; the Kafka consumer with its Redis store (a locale and its interpretation) and the
    system in which requests, workers, crashes and the reaper interleave.
  \<^item> \<^verbatim>\<open>Sessions\<close>, \<^verbatim>\<open>Auth\<close>: the Redis session store as an implementation of a set of live sessions (the
    locale \<open>session_contract\<close> and its interpretation), accounts, login, password change and reset,
    tokens and identity.
  \<^item> \<^verbatim>\<open>RateLimit\<close>, \<^verbatim>\<open>Middleware\<close>: the GCRA limiter with its keys and client addresses, and the other
    middlewares with idempotent replay as interleaved requests.
  \<^item> \<^verbatim>\<open>SqlTypes\<close>, \<^verbatim>\<open>PyJson\<close>, \<^verbatim>\<open>Cursors\<close>, \<^verbatim>\<open>Listings\<close>: how values are bound to and read from columns, JSON text,
    pagination cursors with the locale \<open>keyset_listing\<close>, and the listings of transactions, insights,
    alerts and audit events with its interpretations.
  \<^item> \<^verbatim>\<open>Reports\<close>, \<^verbatim>\<open>Search\<close>: the month summary and the spend trend by month or ISO week with their readers; the
    text search with its escaped pattern and the Redis cache of identifiers in front of it.
  \<^item> \<^verbatim>\<open>ChatTools\<close>, \<^verbatim>\<open>ChatClient\<close>, \<^verbatim>\<open>Chat\<close>: the tools a model may call and their executor, the rounds of plain and
    streamed completions, the daily token budget, the history and the two chat use cases.
  \<^item> \<^verbatim>\<open>Gateway\<close>, \<^verbatim>\<open>InsightClients\<close>: the bounded queue before the AI provider as a step relation, the error
    translation and prices; the client that writes insights, its deterministic fallback and the
    worker's use case behind both.
  \<^item> \<^verbatim>\<open>Maintenance\<close>: the scheduler's partition, outbox and alert jobs.

  \<^bold>\<open>What the lemmas show.\<close> In each theory: computation rules and invariants first (the tables keep
  distinct keys, states keep their life cycle, stores keep their index), then the effect of each
  operation on every branch, then the properties. The properties that span components are those of
  \<^verbatim>\<open>Auth\<close> (an operation on accounts seen through the session store and the token codec),
  \<^verbatim>\<open>InsightWorker\<close> (use case, consumer, store and reaper together), \<^verbatim>\<open>InsightClients\<close> (gateway, clients and
  use case), \<^verbatim>\<open>Reports\<close> (summary against trend), \<^verbatim>\<open>Search\<close> (cache against query), \<^verbatim>\<open>Recurring\<close> (job, rule arithmetic
  and transaction creation) and \<^verbatim>\<open>Shifts\<close> (job, aggregation, detection and alert table). Where the code
  does not do what it is meant to do, a theorem says what it does.

  \<^bold>\<open>Bounds and fuel.\<close> Loops are structural recursion or have a termination proof; the exceptions are
  bounded by the code itself: 100 batches of 50 rules in the job that fires rules, the polls of an
  insight's stream, the deliveries of an event, and the 50 polls of a replayed request, whose
  \<open>request_fuel\<close> of 54 steps is proved enough for every schedule. \<open>json_loads\<close> reads with fuel twice the length
  of the text plus two, and is proved to read back everything \<open>json_dumps\<close> writes; \<open>walk_pages\<close> is a client
  that follows cursors with fuel, and the listings are proved to be complete with one page more than
  there are rows. The purge of the outbox is a loop with a termination proof.

  \<^bold>\<open>Parameters.\<close> bcrypt, SHA-256, the JWT library, PostgreSQL's \<open>INET\<close> input, Kafka, the AI client, UTF-8
  replacement decoding and the wrapped ASGI application are arguments of the definitions that use
  them. The only law assumed of one of them is that the JWT library hands back the claims it signed
  (\<open>jwt_reads\<close>).

  \<^bold>\<open>Not modelled.\<close> Dependency injection, routing and response schemas, settings, logging and metrics,
  registering the scheduler's jobs, database migrations, the fixed texts of the prompts, the circuit
  breaker and the rate limiter in front of the AI provider (third-party code: whether they let a call
  through is an argument or a step), image preprocessing, and reading receipts and free text into
  drafts. Characters above 255, the braced and URN forms of UUIDs and the ISO notations no cursor has
  are outside the string functions. Database failures other than constraint
  violations are not branches of the SQL operations, timestamps have no sub-microsecond parts, and
  the text forms of instants inside Redis values stand as the instants.\<close>

end
